(* ===== verification/Prelude.thy ===== *)
theory Prelude
  imports "HOL-Library.Char_ord" "HOL-Library.List_Lexorder" "HOL-Library.Multiset"
begin

text \<open>
  What every component of the development shares: the collections of rewrite rules the
  component theories fill, the string operations of the two standard libraries the code
  calls (Go's \<open>strings\<close> and \<open>strconv\<close>, JavaScript's \<open>String.prototype\<close>), decimal
  printing and parsing with their round trip, and lemmas on lists with distinct keys,
  which model both Go maps and SQL tables.

  A string is a list of code units below 256. For Go these are the bytes of the string,
  and case folding and trimming act on the ASCII ones; for JavaScript they are UTF-16 code
  units, restricted to Latin-1.
\<close>

section \<open>Collections\<close>

named_theorems go_time_simps \<open>unfolding of the time operations\<close>
named_theorems table_simps \<open>behaviour of lookups, updates and deletions on keyed lists\<close>
named_theorems handler_simps \<open>unfolding of the HTTP handlers\<close>
named_theorems js_simps \<open>unfolding of JavaScript value operations\<close>

section \<open>Characters and strings\<close>

definition code :: "char \<Rightarrow> nat" where
  "code c = of_char c"

definition lower_char :: "char \<Rightarrow> char" where
  "lower_char c = (if 65 \<le> code c \<and> code c \<le> 90 then char_of (code c + 32) else c)"

definition upper_char :: "char \<Rightarrow> char" where
  "upper_char c = (if 97 \<le> code c \<and> code c \<le> 122 then char_of (code c - 32) else c)"

definition to_lower :: "string \<Rightarrow> string" where
  "to_lower s = map lower_char s"

definition to_upper :: "string \<Rightarrow> string" where
  "to_upper s = map upper_char s"

definition equal_fold :: "string \<Rightarrow> string \<Rightarrow> bool" where
  "equal_fold s t \<longleftrightarrow> to_lower s = to_lower t"

fun has_prefix :: "string \<Rightarrow> string \<Rightarrow> bool" where
  "has_prefix [] s = True"
| "has_prefix (p # ps) [] = False"
| "has_prefix (p # ps) (c # cs) = (p = c \<and> has_prefix ps cs)"

fun contains :: "string \<Rightarrow> string \<Rightarrow> bool" where
  "contains [] sub = (sub = [])"
| "contains (c # cs) sub = (has_prefix sub (c # cs) \<or> contains cs sub)"

definition is_space :: "char \<Rightarrow> bool" where
  "is_space c \<longleftrightarrow> code c \<in> {9, 10, 11, 12, 13, 32}"

definition trim_space :: "string \<Rightarrow> string" where
  "trim_space s = rev (dropWhile is_space (rev (dropWhile is_space s)))"

text \<open>\<open>strings.Split(s, sep)\<close> for a one-byte separator: never empty.\<close>

fun split_on :: "char \<Rightarrow> string \<Rightarrow> string list" where
  "split_on d [] = [[]]"
| "split_on d (c # cs) =
     (if c = d then [] # split_on d cs
      else case split_on d cs of [] \<Rightarrow> [[c]] | w # ws \<Rightarrow> (c # w) # ws)"

text \<open>\<open>strings.LastIndex\<close> of a one-byte substring.\<close>

fun last_index :: "char \<Rightarrow> string \<Rightarrow> nat option" where
  "last_index d [] = None"
| "last_index d (c # cs) =
     (case last_index d cs of
        Some i \<Rightarrow> Some (Suc i)
      | None \<Rightarrow> if c = d then Some 0 else None)"

lemma code_char_of [simp]: "n < 256 \<Longrightarrow> code (char_of n) = n"
  by (simp add: code_def)

lemma code_inject: "code c = code d \<longleftrightarrow> c = d"
  by (simp add: code_def)

lemma less_char_code: "c < d \<longleftrightarrow> code c < code d" for c d :: char
  by (simp add: less_char_def code_def)

lemma has_prefix_iff: "has_prefix p s \<longleftrightarrow> (\<exists>t. s = p @ t)"
  by (induction p s rule: has_prefix.induct) auto

lemma contains_iff: "contains s sub \<longleftrightarrow> (\<exists>l r. s = l @ sub @ r)"
proof (induction s)
  case Nil
  then show ?case by auto
next
  case (Cons c cs)
  show ?case
  proof
    assume "contains (c # cs) sub"
    then show "\<exists>l r. c # cs = l @ sub @ r"
    proof (cases "has_prefix sub (c # cs)")
      case True
      then obtain t where "c # cs = [] @ sub @ t" by (auto simp: has_prefix_iff)
      then show ?thesis by blast
    next
      case False
      with \<open>contains (c # cs) sub\<close> Cons.IH obtain l r where "cs = l @ sub @ r" by auto
      then have "c # cs = (c # l) @ sub @ r" by simp
      then show ?thesis by blast
    qed
  next
    assume "\<exists>l r. c # cs = l @ sub @ r"
    then obtain l r where lr: "c # cs = l @ sub @ r" by blast
    show "contains (c # cs) sub"
    proof (cases l)
      case Nil
      with lr have "has_prefix sub (c # cs)" unfolding has_prefix_iff by auto
      then show ?thesis by simp
    next
      case (Cons x xs)
      with lr have "cs = xs @ sub @ r" by simp
      then show ?thesis using Cons.IH by auto
    qed
  qed
qed

lemma split_on_nonempty [simp]: "split_on d s \<noteq> []"
  by (induction s) (auto split: list.splits)

lemma split_on_append: "d \<notin> set s \<Longrightarrow> split_on d (s @ d # t) = s # split_on d t"
  by (induction s) auto

lemma split_on_single: "d \<notin> set s \<Longrightarrow> split_on d s = [s]"
  by (induction s) auto

section \<open>Decimal numbers\<close>

definition digit_char :: "nat \<Rightarrow> char" where
  "digit_char n = char_of (48 + n)"

fun nat_digits :: "nat \<Rightarrow> string" where
  "nat_digits n =
     (if n < 10 then [digit_char n] else nat_digits (n div 10) @ [digit_char (n mod 10)])"

declare nat_digits.simps [simp del]

definition itoa :: "int \<Rightarrow> string" where
  "itoa i = (if i < 0 then CHR ''-'' # nat_digits (nat (- i)) else nat_digits (nat i))"

definition digit_val :: "char \<Rightarrow> nat option" where
  "digit_val c = (if 48 \<le> code c \<and> code c \<le> 57 then Some (code c - 48) else None)"

fun digits_val :: "nat \<Rightarrow> string \<Rightarrow> nat option" where
  "digits_val acc [] = Some acc"
| "digits_val acc (c # cs) =
     (case digit_val c of None \<Rightarrow> None | Some d \<Rightarrow> digits_val (10 * acc + d) cs)"

text \<open>
  \<open>strconv.Atoi\<close>: an optional sign, at least one digit, and a value in the range of a
  64-bit \<open>int\<close>; anything else is an error.
\<close>

definition atoi :: "string \<Rightarrow> int option" where
  "atoi s =
     (let (neg, ds) =
        (case s of
           [] \<Rightarrow> (False, [])
         | c # cs \<Rightarrow> if c = CHR ''-'' then (True, cs)
                   else if c = CHR ''+'' then (False, cs) else (False, s))
      in if ds = [] then None
         else case digits_val 0 ds of
                None \<Rightarrow> None
              | Some n \<Rightarrow>
                  let i = (if neg then - int n else int n)
                  in if - (2 ^ 63) \<le> i \<and> i < 2 ^ 63 then Some i else None)"

text \<open>A number in exactly \<open>w\<close> digits, and in at least \<open>w\<close> digits as Go's \<open>Format\<close> pads it.\<close>

fun zpad :: "nat \<Rightarrow> nat \<Rightarrow> string" where
  "zpad 0 n = []"
| "zpad (Suc w) n = zpad w (n div 10) @ [digit_char (n mod 10)]"

definition pad_digits :: "nat \<Rightarrow> nat \<Rightarrow> string" where
  "pad_digits w n = (let s = nat_digits n in replicate (w - length s) (CHR ''0'') @ s)"

lemma code_digit_char [simp]: "n < 10 \<Longrightarrow> code (digit_char n) = 48 + n"
  by (simp add: digit_char_def)

lemma digit_val_digit_char [simp]: "n < 10 \<Longrightarrow> digit_val (digit_char n) = Some n"
  by (simp add: digit_val_def)

lemma digit_char_inject: "m < 10 \<Longrightarrow> n < 10 \<Longrightarrow> digit_char m = digit_char n \<longleftrightarrow> m = n"
  by (metis add_left_cancel code_digit_char)

lemma digits_val_append:
  "digits_val acc (s @ t) =
     (case digits_val acc s of None \<Rightarrow> None | Some n \<Rightarrow> digits_val n t)"
  by (induction s arbitrary: acc) (auto split: option.splits)

lemma nat_digits_nonempty [simp]: "nat_digits n \<noteq> []"
  by (subst nat_digits.simps) simp

lemma digits_val_nat_digits: "digits_val 0 (nat_digits n) = Some n"
proof (induction n rule: nat_digits.induct)
  case (1 n)
  show ?case
  proof (cases "n < 10")
    case True
    then show ?thesis by (subst nat_digits.simps) simp
  next
    case False
    with 1 show ?thesis by (subst nat_digits.simps) (simp add: digits_val_append)
  qed
qed

lemma nat_digits_digits: "c \<in> set (nat_digits n) \<Longrightarrow> 48 \<le> code c \<and> code c \<le> 57"
proof (induction n rule: nat_digits.induct)
  case (1 n)
  show ?case
  proof (cases "n < 10")
    case True
    with 1 show ?thesis by (subst (asm) (2) nat_digits.simps) simp
  next
    case False
    with 1 show ?thesis by (subst (asm) (2) nat_digits.simps) auto
  qed
qed

lemma nat_digits_inject: "nat_digits m = nat_digits n \<longleftrightarrow> m = n"
  by (metis digits_val_nat_digits option.inject)

lemma nat_digits_hd_not_minus: "nat_digits n \<noteq> CHR ''-'' # s"
proof
  assume "nat_digits n = CHR ''-'' # s"
  then have "48 \<le> code (CHR ''-'')" using nat_digits_digits [of "CHR ''-''" n] by auto
  then show False by (simp add: code_def)
qed

lemma nat_digits_hd_not_plus: "nat_digits n \<noteq> CHR ''+'' # s"
proof
  assume "nat_digits n = CHR ''+'' # s"
  then have "48 \<le> code (CHR ''+'')" using nat_digits_digits [of "CHR ''+''" n] by auto
  then show False by (simp add: code_def)
qed

lemma itoa_inject: "itoa i = itoa j \<longleftrightarrow> i = j"
  using nat_digits_hd_not_minus [of "nat i"] nat_digits_hd_not_minus [of "nat j"]
  by (auto simp: itoa_def nat_digits_inject dest: sym)

lemma itoa_nonempty [simp]: "itoa i \<noteq> []"
  by (simp add: itoa_def)

lemma atoi_nat_digits: "int n < 2 ^ 63 \<Longrightarrow> atoi (nat_digits n) = Some (int n)"
proof -
  assume n: "int n < 2 ^ 63"
  obtain c cs where s: "nat_digits n = c # cs" by (cases "nat_digits n") auto
  then have "c \<noteq> CHR ''-''" "c \<noteq> CHR ''+''"
    using nat_digits_hd_not_minus [of n cs] nat_digits_hd_not_plus [of n cs] by auto
  with n s digits_val_nat_digits [of n] show ?thesis by (simp add: atoi_def)
qed

theorem atoi_itoa: "- (2 ^ 63) \<le> i \<Longrightarrow> i < 2 ^ 63 \<Longrightarrow> atoi (itoa i) = Some i"
  using atoi_nat_digits [of "nat i"]
  by (auto simp: itoa_def atoi_def digits_val_nat_digits)

section \<open>Fixed-width numbers and lexicographic order\<close>

lemma length_zpad [simp]: "length (zpad w n) = w"
  by (induction w arbitrary: n) auto

lemma digits_val_zpad: "n < 10 ^ w \<Longrightarrow> digits_val 0 (zpad w n) = Some n"
proof (induction w arbitrary: n)
  case 0
  then show ?case by simp
next
  case (Suc w)
  then have "n div 10 < 10 ^ w" by (simp add: less_mult_imp_div_less mult.commute)
  with Suc.IH show ?case by (simp add: digits_val_append)
qed

lemma zpad_inject: "m < 10 ^ w \<Longrightarrow> n < 10 ^ w \<Longrightarrow> zpad w m = zpad w n \<longleftrightarrow> m = n"
  by (metis digits_val_zpad option.inject)

lemma zpad_zero: "zpad w 0 = replicate w (CHR ''0'')"
proof (induction w)
  case (Suc w)
  have "digit_char 0 = CHR ''0''" by code_simp
  with Suc show ?case by (simp add: replicate_append_same)
qed simp

lemma less_append_same_length:
  "length (a :: string) = length c \<Longrightarrow> a @ b < c @ d \<longleftrightarrow> a < c \<or> a = c \<and> b < d"
  by (induction a c rule: list_induct2) auto

lemma less_eq_append_same_length:
  "length (a :: string) = length c \<Longrightarrow> a @ b \<le> c @ d \<longleftrightarrow> a < c \<or> a = c \<and> b \<le> d"
  by (induction a c rule: list_induct2) auto

lemma zpad_less: "m < 10 ^ w \<Longrightarrow> n < 10 ^ w \<Longrightarrow> zpad w m < zpad w n \<longleftrightarrow> m < n"
proof (induction w arbitrary: m n)
  case 0
  then show ?case by simp
next
  case (Suc w)
  then have le: "m div 10 < 10 ^ w" "n div 10 < 10 ^ w"
    by (simp_all add: less_mult_imp_div_less mult.commute)
  have "zpad (Suc w) m < zpad (Suc w) n \<longleftrightarrow>
      m div 10 < n div 10 \<or> m div 10 = n div 10 \<and> m mod 10 < n mod 10"
    using Suc.IH [OF le] zpad_inject [OF le]
    by (simp add: less_append_same_length less_char_code)
  also have "\<dots> \<longleftrightarrow> m < n"
    using div_mult_mod_eq [of m 10] div_mult_mod_eq [of n 10]
      mod_less_divisor [of 10 m] mod_less_divisor [of 10 n] by linarith
  finally show ?case .
qed

lemma pad_digits_zpad: "n < 10 ^ w \<Longrightarrow> 0 < w \<Longrightarrow> pad_digits w n = zpad w n"
proof (induction w arbitrary: n)
  case 0
  then show ?case by simp
next
  case (Suc w)
  show ?case
  proof (cases "n < 10")
    case True
    then have "nat_digits n = [digit_char n]" by (subst nat_digits.simps) simp
    with True show ?thesis by (simp add: pad_digits_def zpad_zero)
  next
    case False
    then have w: "0 < w" using Suc.prems by (cases w) auto
    from Suc.prems have "n div 10 < 10 ^ w" by (simp add: less_mult_imp_div_less mult.commute)
    then have IH: "pad_digits w (n div 10) = zpad w (n div 10)" using w by (rule Suc.IH)
    from False have "nat_digits n = nat_digits (n div 10) @ [digit_char (n mod 10)]"
      by (subst nat_digits.simps) simp
    then have "pad_digits (Suc w) n = pad_digits w (n div 10) @ [digit_char (n mod 10)]"
      unfolding pad_digits_def Let_def by simp
    with IH show ?thesis by simp
  qed
qed

section \<open>Lists with distinct keys\<close>

text \<open>
  A keyed list is a list of rows \<open>r\<close> with a key \<open>k r\<close>; \<open>distinct (map k rs)\<close> says the
  keys are unique. It models an SQL table with a primary key and a Go map whose
  iteration order is the list's order.
\<close>

definition find_key :: "('r \<Rightarrow> 'k) \<Rightarrow> 'k \<Rightarrow> 'r list \<Rightarrow> 'r option" where
  "find_key k x rs = find (\<lambda>r. k r = x) rs"

definition delete_key :: "('r \<Rightarrow> 'k) \<Rightarrow> 'k \<Rightarrow> 'r list \<Rightarrow> 'r list" where
  "delete_key k x rs = filter (\<lambda>r. k r \<noteq> x) rs"

text \<open>Insert a row, or merge it into the row that has its key already.\<close>

fun upsert_key :: "('r \<Rightarrow> 'k) \<Rightarrow> ('r \<Rightarrow> 'r \<Rightarrow> 'r) \<Rightarrow> 'r \<Rightarrow> 'r list \<Rightarrow> 'r list" where
  "upsert_key k m r [] = [r]"
| "upsert_key k m r (x # xs) =
     (if k x = k r then m x r # xs else x # upsert_key k m r xs)"

lemma find_key_Nil [simp]: "find_key k x [] = None"
  by (simp add: find_key_def)

lemma find_key_Cons [simp]:
  "find_key k x (r # rs) = (if k r = x then Some r else find_key k x rs)"
  by (simp add: find_key_def)

lemma find_key_None: "find_key k x rs = None \<longleftrightarrow> x \<notin> k ` set rs"
  by (induction rs) auto

lemma find_key_Some: "find_key k x rs = Some r \<Longrightarrow> r \<in> set rs \<and> k r = x"
  by (induction rs) (auto split: if_splits)

lemma find_key_mem: "distinct (map k rs) \<Longrightarrow> r \<in> set rs \<Longrightarrow> find_key k (k r) rs = Some r"
  by (induction rs) (auto simp: image_iff)

lemma find_key_filter:
  "find_key k x (filter (\<lambda>r. P (k r)) rs) = (if P x then find_key k x rs else None)"
  by (induction rs) auto

lemma delete_key_simps [simp]:
  "find_key k x (delete_key k y rs) = (if x = y then None else find_key k x rs)"
  "set (delete_key k y rs) = {r \<in> set rs. k r \<noteq> y}"
  by (induction rs) (auto simp: delete_key_def)

lemma distinct_filter_keys: "distinct (map k rs) \<Longrightarrow> distinct (map k (filter P rs))"
  by (induction rs) auto

lemma distinct_delete_key: "distinct (map k rs) \<Longrightarrow> distinct (map k (delete_key k x rs))"
  by (simp add: delete_key_def distinct_filter_keys)

lemma keys_upsert_key:
  "(\<And>x. k x = k r \<Longrightarrow> k (m x r) = k r) \<Longrightarrow>
   k ` set (upsert_key k m r rs) = insert (k r) (k ` set rs)"
  by (induction rs) auto

lemma distinct_upsert_key:
  "distinct (map k rs) \<Longrightarrow> (\<And>x. k x = k r \<Longrightarrow> k (m x r) = k r) \<Longrightarrow>
   distinct (map k (upsert_key k m r rs))"
proof (induction rs)
  case Nil
  then show ?case by simp
next
  case (Cons x xs)
  then show ?case
    using keys_upsert_key [of k r m xs] by auto
qed

lemma find_key_upsert_key:
  "(\<And>x. k x = k r \<Longrightarrow> k (m x r) = k r) \<Longrightarrow>
   find_key k y (upsert_key k m r rs) =
     (if y = k r then Some (case find_key k y rs of None \<Rightarrow> r | Some x \<Rightarrow> m x r)
      else find_key k y rs)"
  by (induction rs) auto

text \<open>An insertion whose key is there already changes that one row.\<close>

lemma upsert_key_map:
  "distinct (map k rs) \<Longrightarrow> k r \<in> k ` set rs \<Longrightarrow>
   upsert_key k m r rs = map (\<lambda>x. if k x = k r then m x r else x) rs"
proof (induction rs)
  case (Cons x xs)
  show ?case
  proof (cases "k x = k r")
    case True
    with Cons.prems(1) have "\<forall>y \<in> set xs. k y \<noteq> k r" by (auto simp: image_iff)
    then have "map (\<lambda>x. if k x = k r then m x r else x) xs = xs" by (induction xs) auto
    with True show ?thesis by simp
  next
    case False
    with Cons show ?thesis by auto
  qed
qed simp

text \<open>A projection of the rows that respects the keys and the merging.\<close>

lemma map_upsert_key:
  "(\<And>x. k' (f x) = k x) \<Longrightarrow> (\<And>x. f (m x r) = m' (f x) (f r)) \<Longrightarrow>
   map f (upsert_key k m r rs) = upsert_key k' m' (f r) (map f rs)"
  by (induction rs) auto

lemmas table_lemmas [table_simps] =
  find_key_filter delete_key_simps distinct_filter_keys distinct_delete_key

lemma length_filter_distinct_key:
  "distinct (map k rs) \<Longrightarrow> r \<in> set rs \<Longrightarrow> length (delete_key k (k r) rs) < length rs"
  unfolding delete_key_def by (rule length_filter_less [where x = r]) auto

end
