(* ===== verification/Calendar.thy ===== *)
theory Calendar
  imports Prelude
begin

text \<open>
  The proleptic Gregorian calendar that Go's \<open>time\<close> package and JavaScript's \<open>Date\<close>
  both use. Days are counted from 0001-01-01 (day 0), the date of Go's zero
  \<open>time.Time\<close>. The theory gives the two conversions between day numbers and civil
  dates, proves them inverse to each other, and proves that the order of day numbers is
  the lexicographic order of dates.
\<close>

section \<open>Years\<close>

definition leap_year :: "int \<Rightarrow> bool" where
  "leap_year y \<longleftrightarrow> y mod 4 = 0 \<and> y mod 100 \<noteq> 0 \<or> y mod 400 = 0"

definition days_before_year :: "int \<Rightarrow> int" where
  "days_before_year y = 365 * (y - 1) + (y - 1) div 4 - (y - 1) div 100 + (y - 1) div 400"

definition year_of_days :: "int \<Rightarrow> int" where
  "year_of_days n =
     (let n400 = n div 146097; r400 = n mod 146097;
          n100 = min 3 (r400 div 36524); r100 = r400 - n100 * 36524;
          n4 = r100 div 1461; r4 = r100 mod 1461;
          n1 = min 3 (r4 div 365)
      in 400 * n400 + 100 * n100 + 4 * n4 + n1 + 1)"

lemma leap_day_sum:
  assumes "p400 \<Longrightarrow> p100" "p100 \<Longrightarrow> p4"
  shows "365 * y + (a + (if p4 then 1 else 0)) - (b + (if p100 then 1 else 0)) +
      (c + (if p400 then 1 else 0)) =
    365 * (y - 1) + a - b + c + (if p4 \<and> \<not> p100 \<or> p400 then 366 else 365 :: int)"
  using assms by auto

lemma days_before_year_Suc:
  "days_before_year (y + 1) = days_before_year y + (if leap_year y then 366 else 365)"
proof -
  have step: "y div c = (y - 1) div c + (if y mod c = 0 then 1 else 0)" if "0 < c" for c :: int
  proof (cases "y mod c = 0")
    case True
    then obtain k where "y = c * k" by auto
    moreover have "(c * k - 1) div c = k - 1"
    proof -
      have "c * k - 1 = (c - 1) + (k - 1) * c" by (simp add: algebra_simps)
      then have "(c * k - 1) div c = (k - 1) + (c - 1) div c"
        using that by (metis add.commute div_mult_self1 less_irrefl)
      then show ?thesis using that by (simp add: div_pos_pos_trivial)
    qed
    ultimately show ?thesis using that by simp
  next
    case False
    have "y - 1 = (y mod c - 1) + (y div c) * c" by (simp add: minus_mod_eq_div_mult [symmetric])
    moreover have "0 \<le> y mod c - 1" "y mod c - 1 < c"
      using False pos_mod_bound [OF that, of y] pos_mod_sign [OF that, of y] by auto
    ultimately have "(y - 1) div c = y div c"
      using that by (metis add.commute div_mult_self1 div_pos_pos_trivial less_irrefl add_0_right)
    with False show ?thesis by simp
  qed
  have "y mod 400 = 0 \<Longrightarrow> y mod 100 = 0" "y mod 100 = 0 \<Longrightarrow> y mod 4 = 0"
    using mod_mod_cancel [of 100 400 y] mod_mod_cancel [of 4 100 y] by auto
  moreover have "days_before_year (y + 1) = 365 * y + y div 4 - y div 100 + y div 400"
    by (simp add: days_before_year_def)
  moreover have "y div 4 = (y - 1) div 4 + (if y mod 4 = 0 then 1 else 0)"
    "y div 100 = (y - 1) div 100 + (if y mod 100 = 0 then 1 else 0)"
    "y div 400 = (y - 1) div 400 + (if y mod 400 = 0 then 1 else 0)"
    by (rule step, simp)+
  ultimately show ?thesis
    unfolding leap_year_def by (simp only: days_before_year_def leap_day_sum)
qed

lemma days_before_year_less: "y < z \<Longrightarrow> days_before_year y < days_before_year z"
proof (induction z rule: int_gr_induct [of y])
  case base
  then show ?case by (simp add: days_before_year_Suc)
next
  case (step i)
  then show ?case using days_before_year_Suc [of i] by (auto split: if_splits)
qed

lemma days_before_year_less_eq: "y \<le> z \<Longrightarrow> days_before_year y \<le> days_before_year z"
  using days_before_year_less [of y z] by (cases "y = z") auto

lemma days_before_year_cycle:
  assumes "0 \<le> b" "b \<le> 3" "0 \<le> c" "c \<le> 24" "0 \<le> d" "d \<le> 3"
  shows "days_before_year (400 * a + 100 * b + 4 * c + d + 1) =
    146097 * a + 36524 * b + 1461 * c + 365 * d"
proof -
  let ?z = "400 * a + 100 * b + 4 * c + d"
  have "?z div 4 = 100 * a + 25 * b + c"
    by (rule int_div_pos_eq [where r = d]) (use assms in auto)
  moreover have "?z div 100 = 4 * a + b"
    by (rule int_div_pos_eq [where r = "4 * c + d"]) (use assms in auto)
  moreover have "?z div 400 = a"
    by (rule int_div_pos_eq [where r = "100 * b + 4 * c + d"]) (use assms in auto)
  ultimately show ?thesis by (simp add: days_before_year_def algebra_simps)
qed

lemma leap_year_cycle:
  assumes "0 \<le> b" "b \<le> 3" "0 \<le> c" "c \<le> 24" "0 \<le> d" "d \<le> 3"
  shows "leap_year (400 * a + 100 * b + 4 * c + d + 1) \<longleftrightarrow> d = 3 \<and> (c \<noteq> 24 \<or> b = 3)"
proof -
  let ?y = "400 * a + 100 * b + 4 * c + d + 1"
  have m400: "?y mod 400 = 0 \<Longrightarrow> ?y mod 4 = 0"
    using mod_mod_cancel [of 4 400 ?y] by auto
  consider "d \<noteq> 3" | "d = 3" "c \<noteq> 24" | "d = 3" "c = 24" "b \<noteq> 3" | "d = 3" "c = 24" "b = 3"
    by blast
  then show ?thesis
  proof cases
    case 1
    have "?y mod 4 = d + 1"
      by (rule int_mod_pos_eq [where q = "100 * a + 25 * b + c"]) (use assms 1 in auto)
    with 1 m400 assms show ?thesis by (auto simp: leap_year_def)
  next
    case 2
    have "?y mod 4 = 0"
      by (rule int_mod_pos_eq [where q = "100 * a + 25 * b + c + 1"]) (use 2 in auto)
    moreover have "?y mod 100 = 4 * c + 4"
      by (rule int_mod_pos_eq [where q = "4 * a + b"]) (use assms 2 in auto)
    ultimately show ?thesis using 2 assms by (auto simp: leap_year_def)
  next
    case 3
    have "?y mod 100 = 0"
      by (rule int_mod_pos_eq [where q = "4 * a + b + 1"]) (use 3 in auto)
    moreover have "?y mod 400 = 100 * b + 100"
      by (rule int_mod_pos_eq [where q = a]) (use assms 3 in auto)
    ultimately show ?thesis using 3 assms by (auto simp: leap_year_def)
  next
    case 4
    have "?y mod 400 = 0"
      by (rule int_mod_pos_eq [where q = "a + 1"]) (use 4 in auto)
    with 4 show ?thesis by (auto simp: leap_year_def)
  qed
qed

lemma year_of_days_bounds:
  "days_before_year (year_of_days n) \<le> n \<and> n < days_before_year (year_of_days n + 1)"
proof -
  define n400 where "n400 = n div 146097"
  define r400 where "r400 = n mod 146097"
  define n100 where "n100 = min 3 (r400 div 36524)"
  define r100 where "r100 = r400 - n100 * 36524"
  define n4 where "n4 = r100 div 1461"
  define r4 where "r4 = r100 mod 1461"
  define n1 where "n1 = min 3 (r4 div 365)"
  have y: "year_of_days n = 400 * n400 + 100 * n100 + 4 * n4 + n1 + 1"
    by (simp only: year_of_days_def Let_def n400_def r400_def n100_def r100_def n4_def r4_def n1_def)
  have n: "n = 146097 * n400 + r400" "0 \<le> r400" "r400 < 146097"
    by (simp_all add: n400_def r400_def)
  then have n100: "0 \<le> n100" "n100 \<le> 3" unfolding n100_def by auto
  have r100: "0 \<le> r100" "r100 < 36525" "n100 \<noteq> 3 \<Longrightarrow> r100 < 36524"
    using n unfolding n100_def r100_def min_def by (auto split: if_splits)
  have n4: "0 \<le> n4" "n4 \<le> 24" using r100 unfolding n4_def by auto
  have r4: "r100 = 1461 * n4 + r4" "0 \<le> r4" "r4 < 1461" by (simp_all add: n4_def r4_def)
  have n1: "0 \<le> n1" "n1 \<le> 3" using r4 unfolding n1_def by auto
  define yd where "yd = r4 - 365 * n1"
  have yd: "0 \<le> yd" "yd < 366" "n1 \<noteq> 3 \<Longrightarrow> yd < 365"
    using r4 unfolding n1_def yd_def min_def by (auto split: if_splits)
  have last4: "n1 = 3 \<Longrightarrow> n4 = 24 \<Longrightarrow> n100 \<noteq> 3 \<Longrightarrow> yd < 365"
    using r100 r4 unfolding yd_def by auto
  have lo: "days_before_year (year_of_days n) = n - yd"
    unfolding y using days_before_year_cycle [of n100 n4 n1 n400] n100 n4 n1 n r4
    by (simp add: r100_def yd_def)
  have leap: "leap_year (year_of_days n) \<longleftrightarrow> n1 = 3 \<and> (n4 \<noteq> 24 \<or> n100 = 3)"
    unfolding y using n100 n4 n1 by (intro leap_year_cycle) auto
  show ?thesis
    using lo leap yd last4 by (auto simp: days_before_year_Suc)
qed

lemma year_of_days_unique:
  "days_before_year y \<le> n \<Longrightarrow> n < days_before_year (y + 1) \<Longrightarrow> year_of_days n = y"
  using year_of_days_bounds [of n] days_before_year_less_eq [of "y + 1" "year_of_days n"]
    days_before_year_less_eq [of "year_of_days n + 1" y]
  by (cases "year_of_days n" y rule: linorder_cases) auto

lemma year_of_days_mono: "m \<le> n \<Longrightarrow> year_of_days m \<le> year_of_days n"
  using year_of_days_bounds [of m] year_of_days_bounds [of n]
    days_before_year_less_eq [of "year_of_days n + 1" "year_of_days m"]
  by linarith

section \<open>Months and days\<close>

definition month_lengths :: "bool \<Rightarrow> int list" where
  "month_lengths leap = [31, if leap then 29 else 28, 31, 30, 31, 30, 31, 31, 30, 31, 30, 31]"

definition days_in_month :: "bool \<Rightarrow> int \<Rightarrow> int" where
  "days_in_month leap m = month_lengths leap ! nat (m - 1)"

definition days_before_month :: "bool \<Rightarrow> int \<Rightarrow> int" where
  "days_before_month leap m = sum_list (take (nat (m - 1)) (month_lengths leap))"

text \<open>The index of the block that holds position \<open>n\<close>, for consecutive blocks of given lengths.\<close>

fun find_block :: "int \<Rightarrow> int list \<Rightarrow> nat" where
  "find_block n [] = 0"
| "find_block n (x # xs) = (if n < x then 0 else Suc (find_block (n - x) xs))"

definition month_of_yday :: "bool \<Rightarrow> int \<Rightarrow> int" where
  "month_of_yday leap yd = int (find_block yd (month_lengths leap)) + 1"

definition valid_civil :: "int \<Rightarrow> int \<Rightarrow> int \<Rightarrow> bool" where
  "valid_civil y m d \<longleftrightarrow>
     1 \<le> m \<and> m \<le> 12 \<and> 1 \<le> d \<and> d \<le> days_in_month (leap_year y) m"

definition days_of_civil :: "int \<Rightarrow> int \<Rightarrow> int \<Rightarrow> int" where
  "days_of_civil y m d = days_before_year y + days_before_month (leap_year y) m + (d - 1)"

definition civil_of_days :: "int \<Rightarrow> int \<times> int \<times> int" where
  "civil_of_days n =
     (let y = year_of_days n; yd = n - days_before_year y; l = leap_year y;
          m = month_of_yday l yd
      in (y, m, yd - days_before_month l m + 1))"

lemma find_block_bounds:
  "0 \<le> n \<Longrightarrow> n < sum_list xs \<Longrightarrow>
   find_block n xs < length xs \<and> sum_list (take (find_block n xs) xs) \<le> n \<and>
   n < sum_list (take (find_block n xs) xs) + xs ! find_block n xs"
proof (induction xs arbitrary: n)
  case (Cons x xs)
  show ?case
  proof (cases "n < x")
    case True
    with Cons.prems show ?thesis by simp
  next
    case False
    with Cons.prems have "0 \<le> n - x" "n - x < sum_list xs" by simp_all
    note IH = Cons.IH [OF this]
    show ?thesis using IH [THEN conjunct1] IH [THEN conjunct2] False by simp
  qed
qed simp

lemma sum_list_take_step:
  "\<forall>x \<in> set xs. (0 :: int) \<le> x \<Longrightarrow> i < j \<Longrightarrow> j \<le> length xs \<Longrightarrow>
   sum_list (take i xs) + xs ! i \<le> sum_list (take j xs)"
proof (induction xs arbitrary: i j)
  case (Cons x xs)
  then obtain j' where j: "j = Suc j'" by (cases j) auto
  have "0 \<le> sum_list (take j' xs)"
    using Cons.prems(1) by (intro sum_list_nonneg) (auto dest: in_set_takeD)
  with Cons j show ?case by (cases i) auto
qed simp

lemma find_block_unique:
  assumes "\<forall>x \<in> set xs. 0 \<le> x" "i < length xs"
    and "sum_list (take i xs) \<le> n" "n < sum_list (take i xs) + xs ! i"
  shows "find_block n xs = i"
  using assms
proof (induction xs arbitrary: n i)
  case (Cons x xs)
  show ?case
  proof (cases i)
    case 0
    with Cons.prems show ?thesis by simp
  next
    case (Suc i')
    have "0 \<le> sum_list (take i' xs)"
      using Cons.prems(1) by (intro sum_list_nonneg) (auto dest: in_set_takeD)
    with Suc Cons.prems Cons.IH [of i' "n - x"] show ?thesis by auto
  qed
qed simp

lemma month_lengths_facts:
  "length (month_lengths l) = 12" "\<forall>x \<in> set (month_lengths l). 0 \<le> x"
  "sum_list (month_lengths l) = (if l then 366 else 365)"
  by (simp_all add: month_lengths_def)

lemma days_in_month_le: "1 \<le> m \<Longrightarrow> m \<le> 12 \<Longrightarrow> days_in_month l m \<le> 31"
proof -
  assume "1 \<le> m" "m \<le> 12"
  then have "days_in_month l m \<in> set (month_lengths l)"
    by (simp add: days_in_month_def month_lengths_facts)
  then show ?thesis by (auto simp: month_lengths_def split: if_splits)
qed

lemma month_of_yday_inverse:
  assumes "1 \<le> m" "m \<le> 12" "1 \<le> d" "d \<le> days_in_month l m"
  shows "month_of_yday l (days_before_month l m + (d - 1)) = m"
proof -
  have "find_block (days_before_month l m + (d - 1)) (month_lengths l) = nat (m - 1)"
    using assms by (intro find_block_unique)
      (simp_all add: month_lengths_facts days_before_month_def days_in_month_def)
  with assms show ?thesis by (simp add: month_of_yday_def)
qed

lemma days_before_month_step:
  assumes "1 \<le> m" "m < m'" "m' \<le> 13"
  shows "days_before_month l m + days_in_month l m \<le> days_before_month l m'"
  unfolding days_before_month_def days_in_month_def using assms
  by (intro sum_list_take_step) (auto simp: month_lengths_facts)

lemma days_before_month_bounds:
  assumes "1 \<le> m" "m \<le> 12" "1 \<le> d" "d \<le> days_in_month l m"
  shows "0 \<le> days_before_month l m + (d - 1) \<and>
    days_before_month l m + (d - 1) < (if l then 366 else 365)"
proof -
  have "0 \<le> days_before_month l m"
    unfolding days_before_month_def using month_lengths_facts(2) [of l]
    by (intro sum_list_nonneg) (auto dest: in_set_takeD)
  moreover have "days_before_month l 13 = (if l then 366 else 365)"
    unfolding days_before_month_def using month_lengths_facts(1,3) [of l] by simp
  ultimately show ?thesis using days_before_month_step [of m 13 l] assms by auto
qed

lemma month_of_yday_valid:
  assumes "0 \<le> yd" "yd < (if l then 366 else 365)"
  defines "m \<equiv> month_of_yday l yd"
  shows "1 \<le> m \<and> m \<le> 12 \<and> 1 \<le> yd - days_before_month l m + 1 \<and>
    yd - days_before_month l m + 1 \<le> days_in_month l m"
  using find_block_bounds [of yd "month_lengths l"] assms(1,2)
  by (auto simp: m_def month_of_yday_def month_lengths_facts days_before_month_def days_in_month_def)

theorem civil_of_days_of_civil:
  assumes "valid_civil y m d"
  shows "civil_of_days (days_of_civil y m d) = (y, m, d)"
proof -
  from assms have m: "1 \<le> m" "m \<le> 12" "1 \<le> d" "d \<le> days_in_month (leap_year y) m"
    by (simp_all add: valid_civil_def)
  have "year_of_days (days_of_civil y m d) = y"
    using days_before_month_bounds [OF m]
    by (intro year_of_days_unique) (auto simp: days_of_civil_def days_before_year_Suc)
  then show ?thesis
    using month_of_yday_inverse [OF m]
    by (simp add: civil_of_days_def days_of_civil_def Let_def)
qed

lemma civil_of_days_valid:
  assumes "civil_of_days n = (y, m, d)"
  shows "valid_civil y m d"
proof -
  have "0 \<le> n - days_before_year (year_of_days n)"
    "n - days_before_year (year_of_days n) < (if leap_year (year_of_days n) then 366 else 365)"
    using year_of_days_bounds [of n] by (auto simp: days_before_year_Suc)
  from month_of_yday_valid [OF this] assms show ?thesis
    by (auto simp: civil_of_days_def Let_def valid_civil_def)
qed

theorem days_of_civil_of_days: "civil_of_days n = (y, m, d) \<Longrightarrow> days_of_civil y m d = n"
  by (auto simp: civil_of_days_def days_of_civil_def Let_def)

section \<open>The order of dates\<close>

lemma days_of_civil_less:
  assumes "valid_civil y m d" "valid_civil y' m' d'"
    and "y < y' \<or> y = y' \<and> (m < m' \<or> m = m' \<and> d < d')"
  shows "days_of_civil y m d < days_of_civil y' m' d'"
proof (cases "y < y'")
  case True
  have "days_of_civil y m d < days_before_year (y + 1)"
    using days_before_month_bounds [of m d "leap_year y"] assms(1)
    by (auto simp: valid_civil_def days_of_civil_def days_before_year_Suc)
  also have "\<dots> \<le> days_before_year y'" using True by (simp add: days_before_year_less_eq)
  also have "\<dots> \<le> days_of_civil y' m' d'"
    using days_before_month_bounds [of m' d' "leap_year y'"] assms(2)
    by (auto simp: valid_civil_def days_of_civil_def)
  finally show ?thesis .
next
  case False
  with assms days_before_month_step [of m m' "leap_year y"] show ?thesis
    by (auto simp: valid_civil_def days_of_civil_def)
qed

theorem days_of_civil_less_iff:
  assumes "valid_civil y m d" "valid_civil y' m' d'"
  shows "days_of_civil y m d < days_of_civil y' m' d' \<longleftrightarrow>
    y < y' \<or> y = y' \<and> (m < m' \<or> m = m' \<and> d < d')"
  using days_of_civil_less [OF assms] days_of_civil_less [OF assms(2,1)]
  by (metis less_irrefl linorder_neqE order_less_asym)

end
