(* ===== verification/GoTime.thy ===== *)
theory GoTime
  imports Calendar "HOL-Library.Monad_Syntax"
begin

text \<open>
  What the program uses of Go's \<open>time\<close> package. A \<open>time.Time\<close> is its instant: the
  nanoseconds since the zero time, 0001-01-01 00:00:00 UTC, so \<open>IsZero\<close> is \<open>t = 0\<close>.
  (Locations matter to the program only in \<open>Format\<close>, which it calls on UTC times.) A
  \<open>time.Duration\<close> is an \<open>int\<close> of nanoseconds; \<open>Sub\<close> saturates at the 64-bit range as
  Go's does. \<open>Format\<close> and \<open>Parse\<close> are written out for the two layouts the program uses,
  \<^verbatim>\<open>2006-01-02 15:04:05\<close> and RFC 3339, and proved inverse on the years 0 to 9999.
\<close>

type_synonym gotime = int
type_synonym duration = int

definition nano :: int where "nano = 1000000000"
definition Hour :: duration where "Hour = 3600 * 1000000000"
definition Day :: duration where "Day = 24 * 3600 * 1000000000"

lemmas time_units [go_time_simps] = nano_def Hour_def Day_def

definition IsZero :: "gotime \<Rightarrow> bool" where
  "IsZero t \<longleftrightarrow> t = 0"

definition Before :: "gotime \<Rightarrow> gotime \<Rightarrow> bool" where
  "Before t u \<longleftrightarrow> t < u"

definition sat64 :: "int \<Rightarrow> int" where
  "sat64 x = (if x < - (2 ^ 63) then - (2 ^ 63) else if 2 ^ 63 \<le> x then 2 ^ 63 - 1 else x)"

definition Sub :: "gotime \<Rightarrow> gotime \<Rightarrow> duration" where
  "Sub t u = sat64 (t - u)"

text \<open>Go's integer division and remainder truncate towards zero.\<close>

definition go_div :: "int \<Rightarrow> int \<Rightarrow> int" where
  "go_div a b = sgn a * sgn b * (\<bar>a\<bar> div \<bar>b\<bar>)"

definition go_mod :: "int \<Rightarrow> int \<Rightarrow> int" where
  "go_mod a b = a - b * go_div a b"

lemma go_div_nonneg: "0 \<le> a \<Longrightarrow> 0 < b \<Longrightarrow> go_div a b = a div b"
  by (cases "a = 0") (auto simp: go_div_def)

lemma go_div_neg: "a < 0 \<Longrightarrow> 0 < b \<Longrightarrow> go_div a b = - ((- a) div b)"
  by (auto simp: go_div_def)

lemma go_mod_nonneg: "0 \<le> a \<Longrightarrow> 0 < b \<Longrightarrow> go_mod a b = a mod b"
  by (simp add: go_mod_def go_div_nonneg minus_mult_div_eq_mod)

section \<open>Format\<close>

text \<open>A time as whole days and the seconds of the day; sub-second digits are not printed.\<close>

definition day_of :: "gotime \<Rightarrow> int" where
  "day_of t = t div nano div 86400"

definition second_of_day :: "gotime \<Rightarrow> int" where
  "second_of_day t = t div nano mod 86400"

definition Year :: "gotime \<Rightarrow> int" where
  "Year t = fst (civil_of_days (day_of t))"

definition append_int :: "nat \<Rightarrow> int \<Rightarrow> string" where
  "append_int w i =
     (if i < 0 then CHR ''-'' # pad_digits w (nat (- i)) else pad_digits w (nat i))"

definition format_date :: "gotime \<Rightarrow> string" where
  "format_date t =
     (case civil_of_days (day_of t) of (y, m, d) \<Rightarrow>
        append_int 4 y @ [CHR ''-''] @ append_int 2 m @ [CHR ''-''] @ append_int 2 d)"

definition format_clock :: "gotime \<Rightarrow> string" where
  "format_clock t =
     (let s = second_of_day t in
      append_int 2 (s div 3600) @ [CHR '':''] @ append_int 2 (s div 60 mod 60) @
      [CHR '':''] @ append_int 2 (s mod 60))"

definition format_sql :: "gotime \<Rightarrow> string" where
  "format_sql t = format_date t @ [CHR '' ''] @ format_clock t"

definition format_rfc3339 :: "gotime \<Rightarrow> string" where
  "format_rfc3339 t = format_date t @ [CHR ''T''] @ format_clock t @ [CHR ''Z'']"

section \<open>Parse\<close>

definition get_digits :: "nat \<Rightarrow> string \<Rightarrow> (nat \<times> string) option" where
  "get_digits w s =
     (if length s < w then None
      else map_option (\<lambda>n. (n, drop w s)) (digits_val 0 (take w s)))"

text \<open>The hour of both layouts may have one digit or two.\<close>

definition get_hour :: "string \<Rightarrow> (nat \<times> string) option" where
  "get_hour s =
     (case get_digits 2 s of Some r \<Rightarrow> Some r | None \<Rightarrow> get_digits 1 s)"

definition expect :: "char \<Rightarrow> string \<Rightarrow> string option" where
  "expect c s = (case s of [] \<Rightarrow> None | x # xs \<Rightarrow> if x = c then Some xs else None)"

text \<open>A blank of the layout matches one or more blanks.\<close>

definition expect_spaces :: "string \<Rightarrow> string option" where
  "expect_spaces s = map_option (dropWhile (\<lambda>c. c = CHR '' '')) (expect (CHR '' '') s)"

definition check :: "bool \<Rightarrow> unit option" where
  "check b = (if b then Some () else None)"

text \<open>
  After the seconds, \<open>Parse\<close> accepts a fraction the layout does not mention; digits after
  the ninth are dropped.
\<close>

definition get_fraction :: "string \<Rightarrow> nat \<times> string" where
  "get_fraction s =
     (case s of
        p # d # r \<Rightarrow>
          if (p = CHR ''.'' \<or> p = CHR '','') \<and> digit_val d \<noteq> None
          then (let ds = takeWhile (\<lambda>c. digit_val c \<noteq> None) (d # r); k = take 9 ds
                in (the (digits_val 0 k) * 10 ^ (9 - length k),
                    dropWhile (\<lambda>c. digit_val c \<noteq> None) (d # r)))
          else (0, s)
      | _ \<Rightarrow> (0, s))"

text \<open>The zone of RFC 3339, in seconds east of UTC: \<open>Z\<close> or a signed \<open>hh:mm\<close>.\<close>

definition get_zone :: "string \<Rightarrow> (int \<times> string) option" where
  "get_zone s =
     (case s of
        [] \<Rightarrow> None
      | c # r \<Rightarrow>
          if c = CHR ''Z'' then Some (0, r)
          else do {
            (hh, r) \<leftarrow> get_digits 2 r;
            r \<leftarrow> expect (CHR '':'') r;
            (mm, r) \<leftarrow> get_digits 2 r;
            check (hh \<le> 24 \<and> mm \<le> 60);
            let off = int hh * 3600 + int mm * 60;
            if c = CHR ''+'' then Some (off, r)
            else if c = CHR ''-'' then Some (- off, r) else None
          })"

definition get_date :: "string \<Rightarrow> (int \<times> string) option" where
  "get_date s = do {
     (y, s) \<leftarrow> get_digits 4 s;
     s \<leftarrow> expect (CHR ''-'') s;
     (m, s) \<leftarrow> get_digits 2 s;
     s \<leftarrow> expect (CHR ''-'') s;
     (d, s) \<leftarrow> get_digits 2 s;
     check (valid_civil (int y) (int m) (int d));
     Some (days_of_civil (int y) (int m) (int d), s)
   }"

definition get_clock :: "string \<Rightarrow> (int \<times> string) option" where
  "get_clock s = do {
     (h, s) \<leftarrow> get_hour s;
     s \<leftarrow> expect (CHR '':'') s;
     (mi, s) \<leftarrow> get_digits 2 s;
     s \<leftarrow> expect (CHR '':'') s;
     (sec, s) \<leftarrow> get_digits 2 s;
     check (h < 24 \<and> mi < 60 \<and> sec < 60);
     let (ns, s) = get_fraction s;
     Some ((int h * 3600 + int mi * 60 + int sec) * nano + int ns, s)
   }"

definition parse_sql :: "string \<Rightarrow> gotime option" where
  "parse_sql s = do {
     (day, s) \<leftarrow> get_date s;
     s \<leftarrow> expect_spaces s;
     (ns, s) \<leftarrow> get_clock s;
     check (s = []);
     Some (day * 86400 * nano + ns)
   }"

definition parse_rfc3339 :: "string \<Rightarrow> gotime option" where
  "parse_rfc3339 s = do {
     (day, s) \<leftarrow> get_date s;
     s \<leftarrow> expect (CHR ''T'') s;
     (ns, s) \<leftarrow> get_clock s;
     (off, s) \<leftarrow> get_zone s;
     check (s = []);
     Some (day * 86400 * nano + ns - off * nano)
   }"

section \<open>Formatting and parsing are inverse\<close>

text \<open>The times of the years 0 to 9999, whose year takes four digits.\<close>

definition four_digit_year :: "gotime \<Rightarrow> bool" where
  "four_digit_year t \<longleftrightarrow> 0 \<le> Year t \<and> Year t \<le> 9999"

definition truncate_second :: "gotime \<Rightarrow> gotime" where
  "truncate_second t = t div nano * nano"

lemma append_int_zpad:
  "0 \<le> i \<Longrightarrow> i < 10 ^ w \<Longrightarrow> 0 < w \<Longrightarrow> append_int w i = zpad w (nat i)"
  by (simp add: append_int_def pad_digits_zpad nat_less_iff)

lemma civil_fields:
  assumes "civil_of_days n = (y, m, d)"
  shows "1 \<le> m" "m \<le> 12" "1 \<le> d" "d \<le> 31" "valid_civil y m d"
proof -
  show v: "valid_civil y m d" by (rule civil_of_days_valid [OF assms])
  then show "1 \<le> m" "m \<le> 12" "1 \<le> d" by (simp_all add: valid_civil_def)
  with v show "d \<le> 31" using days_in_month_le [of m "leap_year y"] by (simp add: valid_civil_def)
qed

lemma clock_fields:
  fixes t :: gotime
  defines "s \<equiv> second_of_day t"
  shows "0 \<le> s" "s < 86400" "0 \<le> s div 3600" "s div 3600 < 24" "0 \<le> s div 60 mod 60"
    "s div 60 mod 60 < 60" "0 \<le> s mod 60" "s mod 60 < 60"
    "s div 3600 * 3600 + s div 60 mod 60 * 60 + s mod 60 = s"
proof -
  show "0 \<le> s" "s < 86400" by (simp_all add: s_def second_of_day_def)
  then show "0 \<le> s div 3600" "s div 3600 < 24" by auto
  have "s div 3600 = s div 60 div 60" by (simp add: zdiv_zmult2_eq [symmetric])
  then show "s div 3600 * 3600 + s div 60 mod 60 * 60 + s mod 60 = s"
    using div_mult_mod_eq [of "s div 60" 60] div_mult_mod_eq [of s 60] by linarith
qed auto

lemma format_date_zpad:
  assumes "four_digit_year t" "civil_of_days (day_of t) = (y, m, d)"
  shows "format_date t =
    zpad 4 (nat y) @ [CHR ''-''] @ zpad 2 (nat m) @ [CHR ''-''] @ zpad 2 (nat d)"
  using civil_fields [OF assms(2)] assms
  by (simp add: format_date_def append_int_zpad four_digit_year_def Year_def)

lemma format_clock_zpad:
  "format_clock t =
     zpad 2 (nat (second_of_day t div 3600)) @ [CHR '':''] @
     zpad 2 (nat (second_of_day t div 60 mod 60)) @ [CHR '':''] @
     zpad 2 (nat (second_of_day t mod 60))"
proof -
  note c = clock_fields [of t]
  have "second_of_day t div 3600 < 10 ^ 2" "second_of_day t div 60 mod 60 < 10 ^ 2"
    "second_of_day t mod 60 < 10 ^ 2"
    by (rule less_trans [OF c(4)] less_trans [OF c(6)] less_trans [OF c(8)], simp)+
  then show ?thesis
    using c(3,5,7) unfolding format_clock_def Let_def
    by (simp only: append_int_zpad zero_less_numeral)
qed

lemma get_digits_zpad: "n < 10 ^ w \<Longrightarrow> get_digits w (zpad w n @ s) = Some (n, s)"
  by (simp add: get_digits_def digits_val_zpad)

lemma get_hour_zpad: "n < 100 \<Longrightarrow> get_hour (zpad 2 n @ s) = Some (n, s)"
  by (simp add: get_hour_def get_digits_zpad)

lemma get_date_format:
  assumes "four_digit_year t"
  shows "get_date (format_date t @ s) = Some (day_of t, s)"
proof -
  obtain y m d where c: "civil_of_days (day_of t) = (y, m, d)" by (metis prod_cases3)
  note f = civil_fields [OF c]
  have y: "0 \<le> y" "y \<le> 9999" using assms c by (auto simp: four_digit_year_def Year_def)
  have "get_date (format_date t @ s) = Some (days_of_civil y m d, s)"
    using f y
    by (simp add: format_date_zpad [OF assms c] get_date_def get_digits_zpad expect_def
        check_def nat_less_iff del: zpad.simps)
  with days_of_civil_of_days [OF c] show ?thesis by simp
qed

lemma get_clock_zpad:
  assumes "h < 24" "mi < 60" "sec < 60"
    and "\<And>p r. s = p # r \<Longrightarrow> p \<noteq> CHR ''.'' \<and> p \<noteq> CHR '',''"
  shows "get_clock (zpad 2 h @ [CHR '':''] @ zpad 2 mi @ [CHR '':''] @ zpad 2 sec @ s) =
    Some ((int h * 3600 + int mi * 60 + int sec) * nano, s)"
proof -
  have "get_fraction s = (0, s)"
    using assms(4) by (cases s; cases "tl s") (auto simp: get_fraction_def)
  with assms(1-3) show ?thesis
    by (simp add: get_clock_def get_hour_zpad get_digits_zpad expect_def check_def
        del: zpad.simps)
qed

lemma get_clock_format:
  assumes "\<And>p r. s = p # r \<Longrightarrow> p \<noteq> CHR ''.'' \<and> p \<noteq> CHR '',''"
  shows "get_clock (format_clock t @ s) = Some (second_of_day t * nano, s)"
proof -
  note c = clock_fields [of t]
  define h mi sec where "h = nat (second_of_day t div 3600)"
    and "mi = nat (second_of_day t div 60 mod 60)" and "sec = nat (second_of_day t mod 60)"
  have i: "int h = second_of_day t div 3600" "int mi = second_of_day t div 60 mod 60"
    "int sec = second_of_day t mod 60"
    unfolding h_def mi_def sec_def by (rule nat_0_le, rule c(3) c(5) c(7))+
  then have "int h < 24" "int mi < 60" "int sec < 60" using c(4,6,8) by (simp_all only:)
  then have "h < 24" "mi < 60" "sec < 60" by simp_all
  from get_clock_zpad [OF this assms] show ?thesis
    unfolding i c(9) by (simp only: format_clock_zpad h_def mi_def sec_def append_assoc)
qed

lemma day_and_second: "day_of t * 86400 * nano + second_of_day t * nano = truncate_second t"
  using div_mult_mod_eq [of "t div nano" 86400]
  by (simp add: day_of_def second_of_day_def truncate_second_def distrib_right [symmetric])

theorem parse_sql_format_sql:
  assumes "four_digit_year t"
  shows "parse_sql (format_sql t) = Some (truncate_second t)"
proof -
  have "expect_spaces (CHR '' '' # format_clock t) = Some (format_clock t)"
  proof -
    obtain n r where r: "format_clock t = digit_char (n mod 10) # r"
      by (auto simp: format_clock_zpad numeral_2_eq_2)
    have "code (digit_char (n mod 10)) \<noteq> code (CHR '' '')"
      by (subst code_digit_char) (simp_all add: code_def)
    then have "digit_char (n mod 10) \<noteq> CHR '' ''" by metis
    with r show ?thesis by (auto simp: expect_spaces_def expect_def)
  qed
  then show ?thesis
    using assms get_clock_format [of "[]" t]
    by (simp add: parse_sql_def format_sql_def get_date_format check_def day_and_second)
qed

theorem parse_rfc3339_format_rfc3339:
  assumes "four_digit_year t"
  shows "parse_rfc3339 (format_rfc3339 t) = Some (truncate_second t)"
  using assms get_clock_format [of "[CHR ''Z'']" t]
  by (simp add: parse_rfc3339_def format_rfc3339_def get_date_format expect_def get_zone_def
      check_def day_and_second)

section \<open>The order of formatted times\<close>

lemma hms_lex:
  fixes h h' m m' s s' :: int
  assumes "0 \<le> m" "m < 60" "0 \<le> s" "s < 60" "0 \<le> m'" "m' < 60" "0 \<le> s'" "s' < 60"
  shows "h < h' \<or> h = h' \<and> (m < m' \<or> m = m' \<and> s < s') \<longleftrightarrow>
    h * 3600 + m * 60 + s < h' * 3600 + m' * 60 + s'"
  using assms
  by (cases h h' rule: linorder_cases; cases m m' rule: linorder_cases) auto

lemma zpad_nat_less:
  "0 \<le> i \<Longrightarrow> i < 10 ^ w \<Longrightarrow> 0 \<le> j \<Longrightarrow> j < 10 ^ w \<Longrightarrow> zpad w (nat i) < zpad w (nat j) \<longleftrightarrow> i < j"
  by (auto simp: zpad_less nat_less_iff)

lemma zpad_nat_inject:
  "0 \<le> i \<Longrightarrow> i < 10 ^ w \<Longrightarrow> 0 \<le> j \<Longrightarrow> j < 10 ^ w \<Longrightarrow> zpad w (nat i) = zpad w (nat j) \<longleftrightarrow> i = j"
  by (simp add: zpad_inject nat_less_iff nat_eq_iff)

lemma clock_less_iff:
  "format_clock t < format_clock u \<longleftrightarrow> second_of_day t < second_of_day u"
proof -
  define h m s where "h = second_of_day t div 3600" and "m = second_of_day t div 60 mod 60"
    and "s = second_of_day t mod 60"
  define h' m' s' where "h' = second_of_day u div 3600" and "m' = second_of_day u div 60 mod 60"
    and "s' = second_of_day u mod 60"
  note c = clock_fields [of t, folded h_def m_def s_def]
  note c' = clock_fields [of u, folded h'_def m'_def s'_def]
  have two: "h < 10 ^ 2" "m < 10 ^ 2" "s < 10 ^ 2" "h' < 10 ^ 2" "m' < 10 ^ 2" "s' < 10 ^ 2"
    using c(4,6,8) c'(4,6,8) by simp_all
  have "format_clock t < format_clock u \<longleftrightarrow> h < h' \<or> h = h' \<and> (m < m' \<or> m = m' \<and> s < s')"
    unfolding format_clock_zpad h_def [symmetric] m_def [symmetric] s_def [symmetric]
      h'_def [symmetric] m'_def [symmetric] s'_def [symmetric]
    using c(3,5,7) c'(3,5,7) two
    by (simp add: less_append_same_length zpad_nat_less zpad_nat_inject del: zpad.simps power_numeral)
  also have "\<dots> \<longleftrightarrow> second_of_day t < second_of_day u"
    using hms_lex [OF c(5-8) c'(5-8), of h h'] c(9) c'(9) by simp
  finally show ?thesis .
qed

lemma date_less_iff:
  assumes "four_digit_year t" "four_digit_year u"
  shows "format_date t < format_date u \<longleftrightarrow> day_of t < day_of u"
    and "format_date t = format_date u \<longleftrightarrow> day_of t = day_of u"
proof -
  obtain y m d where c: "civil_of_days (day_of t) = (y, m, d)" by (metis prod_cases3)
  obtain y' m' d' where c': "civil_of_days (day_of u) = (y', m', d')" by (metis prod_cases3)
  note f = civil_fields [OF c] and f' = civil_fields [OF c']
  have y: "0 \<le> y" "y < 10 ^ 4" "0 \<le> y'" "y' < 10 ^ 4"
    using assms c c' by (auto simp: four_digit_year_def Year_def)
  have two: "0 \<le> m" "m < 10 ^ 2" "0 \<le> d" "d < 10 ^ 2" "0 \<le> m'" "m' < 10 ^ 2" "0 \<le> d'" "d' < 10 ^ 2"
    using f(1-4) f'(1-4) by simp_all
  note days = days_of_civil_of_days [OF c] days_of_civil_of_days [OF c']
  note z = format_date_zpad [OF assms(1) c] format_date_zpad [OF assms(2) c']
  show "format_date t < format_date u \<longleftrightarrow> day_of t < day_of u"
    using days_of_civil_less_iff [OF f(5) f'(5)] y two
    by (simp add: z days less_append_same_length zpad_nat_less zpad_nat_inject
        del: zpad.simps power_numeral)
  have "format_date t = format_date u \<longleftrightarrow> (y, m, d) = (y', m', d')"
    using y two by (simp add: z zpad_nat_inject del: zpad.simps power_numeral)
  also have "\<dots> \<longleftrightarrow> day_of t = day_of u" using c c' days by auto
  finally show "format_date t = format_date u \<longleftrightarrow> day_of t = day_of u" .
qed

lemma length_format_date: "four_digit_year t \<Longrightarrow> length (format_date t) = 10"
  by (cases "civil_of_days (day_of t)") (simp add: format_date_zpad)

text \<open>
  Comparing two formatted times as strings compares them as instants, to the second. This
  is what lets SQLite order and compare the stored \<open>TEXT\<close> columns.
\<close>

theorem format_sql_less_iff:
  assumes "four_digit_year t" "four_digit_year u"
  shows "format_sql t < format_sql u \<longleftrightarrow> t div nano < u div nano"
proof -
  have "format_sql t < format_sql u \<longleftrightarrow>
      day_of t < day_of u \<or> day_of t = day_of u \<and> second_of_day t < second_of_day u"
    by (simp add: format_sql_def less_append_same_length length_format_date assms
        date_less_iff clock_less_iff)
  also have "\<dots> \<longleftrightarrow> t div nano < u div nano"
    using div_mult_mod_eq [of "t div nano" 86400] div_mult_mod_eq [of "u div nano" 86400]
      clock_fields(1,2) [of t] clock_fields(1,2) [of u]
    unfolding day_of_def [symmetric] second_of_day_def [symmetric] by linarith
  finally show ?thesis .
qed

lemma format_sql_nonempty [simp]: "format_sql t \<noteq> []"
  by (simp add: format_sql_def)

end
