(* ===== verification/Reservation.thy ===== *)
theory Reservation
  imports Complex_Main GoTime
begin

text \<open>
  The data model of package \<open>model\<close> (\<^verbatim>\<open>model/reservation.go\<close>, \<^verbatim>\<open>model/gpu_coverage.go\<close>): the
  two kinds of rows the program stores, and the derivation of an alert's day count, level,
  threshold and dedup key.

  Go string types whose values come from outside (resource types, coverage types, statuses)
  stay strings, the alert level, which the code only ever takes from its own constants, is a
  datatype. A \<open>float64\<close> is its exact rational value; rounding of later arithmetic is not
  modelled. Go's 64-bit \<open>int\<close> is \<open>int\<close> where no operation of the code can overflow it.
\<close>

type_synonym float64 = rat

abbreviation "TypeSP \<equiv> ''sp''"
abbreviation "TypeCB \<equiv> ''cb''"
abbreviation "TypeODCR \<equiv> ''odcr''"
abbreviation "TypeRI \<equiv> ''ri''"
abbreviation "TypeRDSRI \<equiv> ''rds_ri''"
abbreviation "TypeCacheRI \<equiv> ''cache_ri''"
abbreviation "TypeRedshiftRI \<equiv> ''redshift_ri''"
abbreviation "TypeOpenSearchRI \<equiv> ''opensearch_ri''"
abbreviation "TypeMemoryDBRI \<equiv> ''memorydb_ri''"
abbreviation "TypeBedrockPT \<equiv> ''bedrock_pt''"

record reservation =
  ID :: string
  AccountAlias :: string
  AccountID :: string
  Region :: string
  RType :: string
  ResourceID :: string
  InstanceType :: string
  Platform :: string
  Quantity :: int
  UsedCount :: int
  StartTime :: gotime
  EndTime :: gotime
  Status :: string
  Description :: string
  HourlyRate :: float64
  EquivCores :: float64
  CapacityUnit :: string
  UpdatedAt :: gotime

definition zero_reservation :: reservation where
  "zero_reservation =
     \<lparr>ID = [], AccountAlias = [], AccountID = [], Region = [], RType = [], ResourceID = [],
      InstanceType = [], Platform = [], Quantity = 0, UsedCount = 0, StartTime = 0,
      EndTime = 0, Status = [], Description = [], HourlyRate = 0, EquivCores = 0,
      CapacityUnit = [], UpdatedAt = 0\<rparr>"

abbreviation "CoverageOnDemand \<equiv> ''on_demand''"
abbreviation "CoverageSP \<equiv> ''savings_plan''"
abbreviation "CoverageCB \<equiv> ''capacity_block''"
abbreviation "CoverageRI \<equiv> ''reserved_instance''"

record gpu_coverage =
  gID :: string
  gAccountAlias :: string
  gAccountID :: string
  gRegion :: string
  gAZ :: string
  gInstanceID :: string
  gInstanceType :: string
  gCoverage :: string
  gCoverageRef :: string
  gSPRate :: float64
  gUpdatedAt :: gotime

datatype alert_level =
  LevelCritical | LevelWarning | LevelAttention | LevelNormal | LevelGPUOnDemand

fun level_string :: "alert_level \<Rightarrow> string" where
  "level_string LevelCritical = ''critical''"
| "level_string LevelWarning = ''warning''"
| "level_string LevelAttention = ''attention''"
| "level_string LevelNormal = ''normal''"
| "level_string LevelGPUOnDemand = ''gpu_od''"

record alert =
  aRes :: reservation
  DaysLeft :: int
  Level :: alert_level
  Threshold :: int

section \<open>Deriving an alert\<close>

definition NotifyKey :: "alert \<Rightarrow> string" where
  "NotifyKey a = (if Threshold a > 0 then ''t'' @ itoa (Threshold a) else level_string (Level a))"

text \<open>The two loops of \<open>CrossedThreshold\<close>, with \<open>best\<close> as accumulator.\<close>

fun crossed_loop :: "int \<Rightarrow> int \<Rightarrow> int list \<Rightarrow> int" where
  "crossed_loop daysLeft best [] = best"
| "crossed_loop daysLeft best (d # ds) =
     (if d < daysLeft then crossed_loop daysLeft best ds
      else crossed_loop daysLeft (if best = 0 \<or> d < best then d else best) ds)"

fun most_urgent_loop :: "int \<Rightarrow> int list \<Rightarrow> int" where
  "most_urgent_loop best [] = best"
| "most_urgent_loop best (d # ds) =
     most_urgent_loop (if best = 0 \<or> d < best then d else best) ds"

definition CrossedThreshold :: "int \<Rightarrow> int list \<Rightarrow> int" where
  "CrossedThreshold daysLeft remindDays =
     (let best = crossed_loop daysLeft 0 remindDays
      in if best = 0 \<and> daysLeft \<le> 0 then most_urgent_loop best remindDays else best)"

definition DaysUntil :: "gotime \<Rightarrow> gotime \<Rightarrow> int" where
  "DaysUntil end now =
     (if IsZero end then 0
      else (let d = Sub end now; days = go_div d Day
            in if d > 0 \<and> go_mod d Day \<noteq> 0 then days + 1 else days))"

definition CalcAlertLevel :: "int \<Rightarrow> alert_level" where
  "CalcAlertLevel daysLeft =
     (if daysLeft \<le> 3 then LevelCritical
      else if daysLeft \<le> 7 then LevelWarning
      else if daysLeft \<le> 14 then LevelAttention
      else LevelNormal)"

definition NewAlert :: "reservation \<Rightarrow> gotime \<Rightarrow> int list \<Rightarrow> alert" where
  "NewAlert r now remindDays =
     (let days = DaysUntil (EndTime r) now
      in \<lparr>aRes = r, DaysLeft = days, Level = CalcAlertLevel days,
          Threshold = CrossedThreshold days remindDays\<rparr>)"

section \<open>The day count\<close>

text \<open>The duration from \<open>now\<close> to \<open>end\<close>, in whole days rounded up; the code's truncating
  division and its correction compute a ceiling on both sides of zero.\<close>

definition ceil_days :: "duration \<Rightarrow> int" where
  "ceil_days d = - ((- d) div Day)"

lemma ceil_days_le_iff: "ceil_days d \<le> k \<longleftrightarrow> d \<le> k * Day"
proof -
  define q r where "q = (- d) div Day" and "r = (- d) mod Day"
  have "- d = q * Day + r" "0 \<le> r" "r < Day"
    unfolding q_def r_def by (simp_all add: Day_def)
  then have "- q \<le> k \<longleftrightarrow> d \<le> k * Day" by (simp add: Day_def, linarith)
  then show ?thesis by (simp add: ceil_days_def q_def)
qed

lemma go_div_ceil:
  "(if d > 0 \<and> go_mod d Day \<noteq> 0 then go_div d Day + 1 else go_div d Day) = ceil_days d"
proof (cases "d > 0")
  case True
  have pos: "0 < Day" by (simp add: Day_def)
  have "ceil_days d = (if d mod Day = 0 then d div Day else d div Day + 1)"
    unfolding ceil_days_def by (simp add: zdiv_zminus1_eq_if pos less_imp_neq [symmetric])
  with True pos show ?thesis by (simp add: go_div_nonneg go_mod_nonneg)
next
  case False
  have pos: "0 < Day" by (simp add: Day_def)
  with False show ?thesis
    by (cases "d = 0") (auto simp: ceil_days_def go_div_neg go_div_def)
qed

lemma sat64_le: "k < 2 ^ 63 - 1 \<Longrightarrow> - (2 ^ 63) \<le> k \<Longrightarrow> sat64 x \<le> k \<longleftrightarrow> x \<le> k"
  by (auto simp: sat64_def)

lemma days_until_le:
  assumes "\<not> IsZero end" and "\<bar>k\<bar> \<le> 106751"
  shows "DaysUntil end now \<le> k \<longleftrightarrow> end \<le> now + k * Day"
proof -
  from assms(2) have "k * Day < 2 ^ 63 - 1" "- (2 ^ 63) \<le> k * Day" by (auto simp: Day_def)
  have "DaysUntil end now = ceil_days (Sub end now)"
    using assms(1) by (simp add: DaysUntil_def Let_def go_div_ceil)
  then have "DaysUntil end now \<le> k \<longleftrightarrow> Sub end now \<le> k * Day"
    by (simp add: ceil_days_le_iff)
  also have "\<dots> \<longleftrightarrow> end - now \<le> k * Day"
    unfolding Sub_def by (rule sat64_le) fact+
  finally show ?thesis by auto
qed

text \<open>
  For an expiry that is set, \<open>DaysUntil\<close> is the number of days left rounded up: it is
  at most \<open>k\<close> exactly when the expiry is at most \<open>k\<close> days away. The range of \<open>k\<close>
  is where \<open>k\<close> days still fit a 64-bit duration (about 292 years), beyond which Go's
  \<open>Sub\<close> saturates.
\<close>

theorem days_until_le_iff:
  assumes "\<not> IsZero end" and "\<bar>k\<bar> \<le> 106751"
  shows "DaysUntil end now \<le> k \<longleftrightarrow> end \<le> now + k * Day"
  using assms by (rule days_until_le)

lemma days_until_le_iff_witness:
  "DaysUntil (2 * Hour) 0 \<le> 1 \<and> \<not> DaysUntil (2 * Hour) 0 \<le> 0"
  using days_until_le_iff [of "2 * Hour" 1 0] days_until_le_iff [of "2 * Hour" 0 0]
  by (simp add: Hour_def Day_def IsZero_def)

lemma days_until_ceil: "\<not> IsZero end \<Longrightarrow> DaysUntil end now = ceil_days (Sub end now)"
  by (simp add: DaysUntil_def Let_def go_div_ceil)

section \<open>The threshold\<close>

definition min_or_0 :: "int set \<Rightarrow> int" where
  "min_or_0 A = (if A = {} then 0 else Min A)"

lemma crossed_loop_min:
  assumes "\<forall>d \<in> set ds. 0 < d" "0 \<le> best"
  shows "crossed_loop k best ds =
    min_or_0 ((if best = 0 then {} else {best}) \<union> {d \<in> set ds. k \<le> d})"
  using assms
proof (induction ds arbitrary: best)
  case Nil
  then show ?case by (simp add: min_or_0_def)
next
  case (Cons d ds)
  show ?case
  proof (cases "d < k")
    case True
    then have "{x \<in> set (d # ds). k \<le> x} = {x \<in> set ds. k \<le> x}" by auto
    with True Cons show ?thesis by simp
  next
    case False
    let ?S = "{x \<in> set ds. k \<le> x}"
    define best' where "best' = (if best = 0 \<or> d < best then d else best)"
    have "0 < best'" using Cons.prems by (auto simp: best'_def)
    then have "crossed_loop k best (d # ds) = Min (insert best' ?S)"
      using Cons False by (simp add: best'_def [symmetric] min_or_0_def)
    also have "\<dots> = min_or_0 ((if best = 0 then {} else {best}) \<union> insert d ?S)"
    proof (cases "best = 0")
      case True
      then show ?thesis by (simp add: best'_def min_or_0_def)
    next
      case False
      then have "best' = min best d" by (auto simp: best'_def)
      then show ?thesis using False
        by (cases "?S = {}") (simp_all only:, simp_all add: min_or_0_def min.assoc)
    qed
    also have "insert d ?S = {x \<in> set (d # ds). k \<le> x}" using False by auto
    finally show ?thesis .
  qed
qed

lemma crossed_threshold_eq:
  assumes "\<forall>d \<in> set remindDays. 0 < d"
  shows "CrossedThreshold daysLeft remindDays =
    (if \<exists>d \<in> set remindDays. daysLeft \<le> d then Min {d \<in> set remindDays. daysLeft \<le> d} else 0)"
proof -
  let ?S = "{d \<in> set remindDays. daysLeft \<le> d}"
  have loop: "crossed_loop daysLeft 0 remindDays = (if ?S = {} then 0 else Min ?S)"
    using crossed_loop_min [OF assms, of 0 daysLeft]
    by (simp only: min_or_0_def refl if_True Un_empty_left)
  have pos: "?S \<noteq> {} \<Longrightarrow> 0 < Min ?S" using assms by auto
  have empty: "?S = {} \<Longrightarrow> daysLeft \<le> 0 \<Longrightarrow> remindDays = []"
    using assms by (cases remindDays) auto
  show ?thesis
  proof (cases "?S = {}")
    case True
    with loop empty show ?thesis by (auto simp: CrossedThreshold_def)
  next
    case False
    with loop have "crossed_loop daysLeft 0 remindDays = Min ?S" by (simp only: if_False)
    with pos [OF False] have "CrossedThreshold daysLeft remindDays = Min ?S"
      by (simp add: CrossedThreshold_def Let_def)
    with False show ?thesis by auto
  qed
qed

text \<open>
  With the positive reminder points that the configuration check enforces,
  \<open>CrossedThreshold\<close> is the smallest reminder point that is at least the number of days
  left, and 0 when every reminder point is nearer than the expiry.
\<close>

theorem crossed_threshold_min:
  assumes "\<forall>d \<in> set remindDays. 0 < d"
  shows "CrossedThreshold daysLeft remindDays =
    (if \<exists>d \<in> set remindDays. daysLeft \<le> d then Min {d \<in> set remindDays. daysLeft \<le> d} else 0)"
  by (rule crossed_threshold_eq [OF assms])

lemma crossed_threshold_min_witness: "CrossedThreshold 20 [30, 14, 7, 3, 1] = 30"
proof -
  have "\<forall>d \<in> set [30, 14, 7, 3, 1 :: int]. 0 < d" by simp
  from crossed_threshold_min [OF this, of 20]
  have "CrossedThreshold 20 [30, 14, 7, 3, 1] = Min {d \<in> {30, 14, 7, 3, 1}. 20 \<le> d}" by simp
  also have "{d \<in> {30, 14, 7, 3, 1 :: int}. 20 \<le> d} = {30}" by auto
  finally show ?thesis by simp
qed

lemma crossed_threshold_bounds:
  assumes "\<forall>d \<in> set rs. 0 < d" "CrossedThreshold k rs \<noteq> 0"
  shows "CrossedThreshold k rs \<in> set rs" "k \<le> CrossedThreshold k rs" "0 < CrossedThreshold k rs"
proof -
  let ?S = "{d \<in> set rs. k \<le> d}"
  have "\<exists>d \<in> set rs. k \<le> d" using assms crossed_threshold_eq [of rs k] by presburger
  then have "CrossedThreshold k rs = Min ?S" "?S \<noteq> {}"
    using crossed_threshold_eq [OF assms(1), of k] by auto
  then have "CrossedThreshold k rs \<in> ?S" using Min_in [of ?S] by simp
  with assms(1) show "CrossedThreshold k rs \<in> set rs" "k \<le> CrossedThreshold k rs"
    "0 < CrossedThreshold k rs" by auto
qed

section \<open>The dedup key\<close>

lemma level_string_inject: "level_string l = level_string l' \<longleftrightarrow> l = l'"
  by (cases l; cases l') simp_all

lemma level_string_hd: "level_string l \<noteq> CHR ''t'' # s"
  by (cases l) simp_all

lemma notify_key_eq:
  "NotifyKey a = NotifyKey b \<longleftrightarrow>
     (if 0 < Threshold a then Threshold b = Threshold a
      else Threshold b \<le> 0 \<and> Level a = Level b)"
  using level_string_hd [of "Level a"] level_string_hd [of "Level b"]
  by (auto simp: NotifyKey_def itoa_inject level_string_inject dest: sym)

text \<open>
  Two alerts have the same dedup key exactly when they are the same reminder: the same
  crossed threshold, or, when neither has crossed one, the same level.
\<close>

theorem notify_key_eq_iff:
  "NotifyKey a = NotifyKey b \<longleftrightarrow>
     (if 0 < Threshold a then Threshold b = Threshold a
      else Threshold b \<le> 0 \<and> Level a = Level b)"
  by (rule notify_key_eq)

text \<open>
  Every configured reminder has an alert of its own: a resource that is exactly \<open>d\<close>
  days from its expiry crosses the configured threshold \<open>d\<close>, so no two configured
  reminders of one resource share a dedup key, even where their levels agree.
\<close>

theorem every_reminder_has_its_key:
  assumes "\<forall>d \<in> set remindDays. 0 < d"
    and "d1 \<in> set remindDays" and "d2 \<in> set remindDays"
    and "DaysUntil (EndTime r) now1 = d1" and "DaysUntil (EndTime r) now2 = d2"
  shows "Threshold (NewAlert r now1 remindDays) = d1 \<and>
    (NotifyKey (NewAlert r now1 remindDays) = NotifyKey (NewAlert r now2 remindDays) \<longleftrightarrow> d1 = d2)"
proof -
  have eq: "CrossedThreshold d remindDays = d" if "d \<in> set remindDays" for d
  proof -
    have "Min {x \<in> set remindDays. d \<le> x} = d" using that by (intro Min_eqI) auto
    with that show ?thesis using crossed_threshold_eq [OF assms(1), of d] by auto
  qed
  then have "Threshold (NewAlert r now1 remindDays) = d1" "Threshold (NewAlert r now2 remindDays) = d2"
    using assms by (simp_all add: NewAlert_def Let_def)
  moreover have "0 < d1" using assms by blast
  ultimately show ?thesis
    using notify_key_eq [of "NewAlert r now1 remindDays" "NewAlert r now2 remindDays"] by auto
qed

lemma every_reminder_has_its_key_witness:
  "NotifyKey (NewAlert (zero_reservation\<lparr>EndTime := 4 * Day\<rparr>) (Day) [3, 1]) \<noteq>
   NotifyKey (NewAlert (zero_reservation\<lparr>EndTime := 4 * Day\<rparr>) (3 * Day) [3, 1])"
proof -
  let ?r = "zero_reservation\<lparr>EndTime := 4 * Day\<rparr>"
  have "DaysUntil (EndTime ?r) Day = 3" "DaysUntil (EndTime ?r) (3 * Day) = 1"
    by code_simp+
  from every_reminder_has_its_key [OF _ _ _ this, of "[3, 1]"] show ?thesis by simp
qed

end
