(* ===== verification/Store.thy ===== *)
theory Store
  imports Reservation
begin

text \<open>
  The SQLite store of \<^verbatim>\<open>store/sqlite.go\<close>. A table is the list of its rows in rowid order,
  with distinct primary keys; timestamps are kept as the text the code writes, and read
  back with \<open>parseTime\<close>. The columns \<open>id\<close> and \<open>notified_at\<close> of \<^verbatim>\<open>notify_log\<close>, which
  nothing reads, are left out.

  Any statement can fail: \<open>faults n\<close> says whether the \<open>n\<close>-th statement sent to the
  database does, and \<open>dbStmts\<close> counts them. A failed statement changes nothing; a failed
  transaction is rolled back. \<open>datetime('now')\<close> is the text of the argument \<open>now\<close>.
  SQLite's \<open>julianday\<close> is the parameter \<open>jd\<close>, in milliseconds, \<open>None\<close> for \<open>NULL\<close>; what
  the code relies on is \<open>jd_canonical\<close>. Rows that \<open>ORDER BY\<close> does not separate are taken
  in rowid order.
\<close>

section \<open>Timestamps\<close>

definition formatTime :: "gotime \<Rightarrow> string" where
  "formatTime t = (if IsZero t then [] else format_sql t)"

definition parseTime :: "string \<Rightarrow> gotime option" where
  "parseTime s =
     (if s = [] then Some 0
      else case parse_sql s of Some t \<Rightarrow> Some t | None \<Rightarrow> parse_rfc3339 s)"

text \<open>The times the store can represent: the years of four digits.\<close>

lemma parseTime_formatTime: "four_digit_year t \<Longrightarrow> parseTime (formatTime t) = Some (truncate_second t)"
  by (simp add: formatTime_def parseTime_def parse_sql_format_sql IsZero_def truncate_second_def)

section \<open>Tables\<close>

record res_row =
  rrData :: reservation
  rrStart :: string
  rrEnd :: string
  rrUpdated :: string

record gpu_row =
  grData :: gpu_coverage
  grUpdated :: string

type_synonym log_key = "string \<times> string \<times> string"

record db =
  dbRes :: "res_row list"
  dbGpu :: "gpu_row list"
  dbLog :: "log_key list"
  dbStmts :: nat

type_synonym faults = "nat \<Rightarrow> bool"

definition row_id :: "res_row \<Rightarrow> string" where "row_id row = ID (rrData row)"
definition gpu_id :: "gpu_row \<Rightarrow> string" where "gpu_id row = gID (grData row)"

definition exec :: "faults \<Rightarrow> (db \<Rightarrow> db) \<Rightarrow> db \<Rightarrow> bool \<times> db" where
  "exec faults f d =
     (let n = dbStmts d
      in if faults n then (False, d\<lparr>dbStmts := Suc n\<rparr>) else (True, (f d)\<lparr>dbStmts := Suc n\<rparr>))"

text \<open>Statements one after the other, up to the first that fails.\<close>

fun exec_all :: "faults \<Rightarrow> (db \<Rightarrow> db) list \<Rightarrow> db \<Rightarrow> bool \<times> db" where
  "exec_all faults [] d = (True, d)"
| "exec_all faults (f # fs) d =
     (case exec faults f d of
        (False, d1) \<Rightarrow> (False, d1)
      | (True, d1) \<Rightarrow> exec_all faults fs d1)"

text \<open>A transaction: begin, the statements, commit; a deferred rollback restores the tables.\<close>

definition transaction :: "faults \<Rightarrow> (db \<Rightarrow> db) list \<Rightarrow> db \<Rightarrow> bool \<times> db" where
  "transaction faults fs d =
     (case exec_all faults ([id] @ fs @ [id]) d of
        (True, d1) \<Rightarrow> (True, d1)
      | (False, d1) \<Rightarrow> (False, d\<lparr>dbStmts := dbStmts d1\<rparr>))"

section \<open>Reservations\<close>

definition to_row :: "gotime \<Rightarrow> reservation \<Rightarrow> res_row" where
  "to_row now r =
     \<lparr>rrData = r\<lparr>StartTime := 0, EndTime := 0, UpdatedAt := 0\<rparr>, rrStart = formatTime (StartTime r),
      rrEnd = formatTime (EndTime r), rrUpdated = format_sql now\<rparr>"

text \<open>\<open>ON CONFLICT(id) DO UPDATE\<close>: the columns that are overwritten.\<close>

definition merge_row :: "res_row \<Rightarrow> res_row \<Rightarrow> res_row" where
  "merge_row old new =
     old\<lparr>rrData := (rrData old)
           \<lparr>Status := Status (rrData new), Quantity := Quantity (rrData new),
            UsedCount := UsedCount (rrData new), Description := Description (rrData new),
            HourlyRate := HourlyRate (rrData new), EquivCores := EquivCores (rrData new),
            CapacityUnit := CapacityUnit (rrData new)\<rparr>,
         rrEnd := rrEnd new, rrUpdated := rrUpdated new\<rparr>"

definition upsert_stmt :: "gotime \<Rightarrow> reservation \<Rightarrow> db \<Rightarrow> db" where
  "upsert_stmt now r d = d\<lparr>dbRes := upsert_key row_id merge_row (to_row now r) (dbRes d)\<rparr>"

definition delete_account_stmt :: "string \<Rightarrow> db \<Rightarrow> db" where
  "delete_account_stmt acct d = d\<lparr>dbRes := filter (\<lambda>row. AccountID (rrData row) \<noteq> acct) (dbRes d)\<rparr>"

definition Upsert :: "faults \<Rightarrow> gotime \<Rightarrow> reservation \<Rightarrow> db \<Rightarrow> bool \<times> db" where
  "Upsert faults now r d = exec faults (upsert_stmt now r) d"

definition ReplaceAccount :: "faults \<Rightarrow> gotime \<Rightarrow> string \<Rightarrow> reservation list \<Rightarrow> db \<Rightarrow> bool \<times> db" where
  "ReplaceAccount faults now acct items d =
     transaction faults (delete_account_stmt acct # map (upsert_stmt now) items) d"

definition DeleteByAccountID :: "faults \<Rightarrow> string \<Rightarrow> db \<Rightarrow> bool \<times> db" where
  "DeleteByAccountID faults acct d = exec faults (delete_account_stmt acct) d"

definition read_time :: "string \<Rightarrow> gotime" where
  "read_time s = (case parseTime s of Some t \<Rightarrow> t | None \<Rightarrow> 0)"

definition read_row :: "res_row \<Rightarrow> reservation" where
  "read_row row =
     (rrData row)\<lparr>StartTime := read_time (rrStart row), EndTime := read_time (rrEnd row),
       UpdatedAt := read_time (rrUpdated row)\<rparr>"

text \<open>A query: \<open>None\<close> when it fails.\<close>

definition queryReservations ::
  "faults \<Rightarrow> (res_row \<Rightarrow> bool) \<Rightarrow> (res_row \<Rightarrow> 'k :: linorder) \<Rightarrow> db \<Rightarrow> reservation list option \<times> db" where
  "queryReservations faults cond order d =
     (case exec faults id d of
        (False, d1) \<Rightarrow> (None, d1)
      | (True, d1) \<Rightarrow> (Some (map read_row (sort_key order (filter cond (dbRes d)))), d1))"

definition List :: "faults \<Rightarrow> string \<Rightarrow> string \<Rightarrow> db \<Rightarrow> reservation list option \<times> db" where
  "List faults typeFilter accountFilter d =
     queryReservations faults
       (\<lambda>row. (typeFilter \<noteq> [] \<longrightarrow> RType (rrData row) = typeFilter) \<and>
              (accountFilter \<noteq> [] \<longrightarrow> AccountID (rrData row) = accountFilter))
       rrEnd d"

definition inactive_statuses :: "string list" where
  "inactive_statuses = [''cancelled'', ''expired'', ''failed'', ''deleted'', ''retired'']"

definition ms_of :: "gotime \<Rightarrow> int" where
  "ms_of t = t div 1000000"

definition alert_due :: "(string \<Rightarrow> int option) \<Rightarrow> gotime \<Rightarrow> int \<Rightarrow> res_row \<Rightarrow> bool" where
  "alert_due jd now maxDays row \<longleftrightarrow>
     rrEnd row \<noteq> [] \<and>
     (case jd (rrEnd row) of
        None \<Rightarrow> False
      | Some e \<Rightarrow> ms_of now < e \<and> e \<le> ms_of now + maxDays * 86400000) \<and>
     Status (rrData row) \<notin> set inactive_statuses"

definition jd_order :: "(string \<Rightarrow> int option) \<Rightarrow> res_row \<Rightarrow> int" where
  "jd_order jd row = (case jd (rrEnd row) of None \<Rightarrow> 0 | Some e \<Rightarrow> e)"

text \<open>The database reads its clock at \<open>now\<close>, the program its own at \<open>now'\<close>.\<close>

definition GetAlerts ::
  "faults \<Rightarrow> (string \<Rightarrow> int option) \<Rightarrow> gotime \<Rightarrow> gotime \<Rightarrow> int \<Rightarrow> int list \<Rightarrow> db \<Rightarrow> alert list option \<times> db" where
  "GetAlerts faults jd now now' maxDays remindDays d =
     (case queryReservations faults (alert_due jd now maxDays) (jd_order jd) d of
        (None, d1) \<Rightarrow> (None, d1)
      | (Some rows, d1) \<Rightarrow> (Some (map (\<lambda>r. NewAlert r now' remindDays) rows), d1))"

section \<open>The notification log\<close>

definition log_key :: "string \<Rightarrow> string \<Rightarrow> gotime \<Rightarrow> log_key" where
  "log_key resId level endTime = (resId, level, formatTime endTime)"

definition HasNotified :: "faults \<Rightarrow> string \<Rightarrow> string \<Rightarrow> gotime \<Rightarrow> db \<Rightarrow> bool option \<times> db" where
  "HasNotified faults resId notifyKey endTime d =
     (case exec faults id d of
        (False, d1) \<Rightarrow> (None, d1)
      | (True, d1) \<Rightarrow> (Some (log_key resId notifyKey endTime \<in> set (dbLog d)), d1))"

text \<open>\<open>INSERT OR IGNORE\<close>\<close>

definition insert_log :: "log_key \<Rightarrow> db \<Rightarrow> db" where
  "insert_log k d = (if k \<in> set (dbLog d) then d else d\<lparr>dbLog := dbLog d @ [k]\<rparr>)"

definition alert_key :: "alert \<Rightarrow> log_key" where
  "alert_key a = log_key (ID (aRes a)) (NotifyKey a) (EndTime (aRes a))"

text \<open>The first statement prepares the insertion.\<close>

definition MarkNotifiedBatch :: "faults \<Rightarrow> alert list \<Rightarrow> db \<Rightarrow> bool \<times> db" where
  "MarkNotifiedBatch faults as d = transaction faults (id # map (\<lambda>a. insert_log (alert_key a)) as) d"

definition stale_log :: "(string \<Rightarrow> int option) \<Rightarrow> string \<Rightarrow> log_key \<Rightarrow> bool" where
  "stale_log jd cutoff k \<longleftrightarrow>
     (case k of (_, _, e) \<Rightarrow>
        e \<noteq> [] \<and> (case (jd e, jd cutoff) of (Some x, Some c) \<Rightarrow> x < c | _ \<Rightarrow> False))"

definition prune_log_stmt :: "(string \<Rightarrow> int option) \<Rightarrow> string \<Rightarrow> db \<Rightarrow> db" where
  "prune_log_stmt jd cutoff d = d\<lparr>dbLog := filter (\<lambda>k. \<not> stale_log jd cutoff k) (dbLog d)\<rparr>"

definition PruneNotifyLog ::
  "faults \<Rightarrow> (string \<Rightarrow> int option) \<Rightarrow> gotime \<Rightarrow> duration \<Rightarrow> db \<Rightarrow> nat option \<times> db" where
  "PruneNotifyLog faults jd now retain d =
     (let cutoff = formatTime (now - retain) in
      case exec faults (prune_log_stmt jd cutoff) d of
        (False, d1) \<Rightarrow> (None, d1)
      | (True, d1) \<Rightarrow> (Some (length (filter (stale_log jd cutoff) (dbLog d))), d1))"

section \<open>GPU coverage\<close>

definition to_gpu_row :: "gotime \<Rightarrow> gpu_coverage \<Rightarrow> gpu_row" where
  "to_gpu_row now g = \<lparr>grData = g\<lparr>gUpdatedAt := 0\<rparr>, grUpdated = format_sql now\<rparr>"

definition merge_gpu :: "gpu_row \<Rightarrow> gpu_row \<Rightarrow> gpu_row" where
  "merge_gpu old new =
     old\<lparr>grData := (grData old)
           \<lparr>gCoverage := gCoverage (grData new), gCoverageRef := gCoverageRef (grData new),
            gSPRate := gSPRate (grData new)\<rparr>,
         grUpdated := grUpdated new\<rparr>"

definition upsert_gpu_stmt :: "gotime \<Rightarrow> gpu_coverage \<Rightarrow> db \<Rightarrow> db" where
  "upsert_gpu_stmt now g d = d\<lparr>dbGpu := upsert_key gpu_id merge_gpu (to_gpu_row now g) (dbGpu d)\<rparr>"

definition delete_gpu_account_stmt :: "string \<Rightarrow> db \<Rightarrow> db" where
  "delete_gpu_account_stmt acct d = d\<lparr>dbGpu := filter (\<lambda>row. gAccountID (grData row) \<noteq> acct) (dbGpu d)\<rparr>"

definition UpsertGPUCoverage :: "faults \<Rightarrow> gotime \<Rightarrow> gpu_coverage \<Rightarrow> db \<Rightarrow> bool \<times> db" where
  "UpsertGPUCoverage faults now g d = exec faults (upsert_gpu_stmt now g) d"

definition ReplaceGPUCoverage :: "faults \<Rightarrow> gotime \<Rightarrow> string \<Rightarrow> gpu_coverage list \<Rightarrow> db \<Rightarrow> bool \<times> db" where
  "ReplaceGPUCoverage faults now acct items d =
     transaction faults (delete_gpu_account_stmt acct # map (upsert_gpu_stmt now) items) d"

definition DeleteGPUCoverageByAccountID :: "faults \<Rightarrow> string \<Rightarrow> db \<Rightarrow> bool \<times> db" where
  "DeleteGPUCoverageByAccountID faults acct d = exec faults (delete_gpu_account_stmt acct) d"

definition read_gpu :: "gpu_row \<Rightarrow> gpu_coverage" where
  "read_gpu row = (grData row)\<lparr>gUpdatedAt := read_time (grUpdated row)\<rparr>"

definition ListGPUCoverage :: "faults \<Rightarrow> string \<Rightarrow> db \<Rightarrow> gpu_coverage list option \<times> db" where
  "ListGPUCoverage faults accountFilter d =
     (case exec faults id d of
        (False, d1) \<Rightarrow> (None, d1)
      | (True, d1) \<Rightarrow>
          (Some (map read_gpu (sort_key (\<lambda>row. gCoverage (grData row))
             (filter (\<lambda>row. accountFilter \<noteq> [] \<longrightarrow> gAccountID (grData row) = accountFilter) (dbGpu d)))), d1))"

section \<open>Removed accounts\<close>

definition pruneMaxAccounts :: nat where "pruneMaxAccounts = 900"

definition prune_res_stmt :: "string list \<Rightarrow> db \<Rightarrow> db" where
  "prune_res_stmt keep d = d\<lparr>dbRes := filter (\<lambda>row. AccountID (rrData row) \<in> set keep) (dbRes d)\<rparr>"

definition prune_gpu_stmt :: "string list \<Rightarrow> db \<Rightarrow> db" where
  "prune_gpu_stmt keep d = d\<lparr>dbGpu := filter (\<lambda>row. gAccountID (grData row) \<in> set keep) (dbGpu d)\<rparr>"

text \<open>The number of rows deleted, and whether there was no error.\<close>

definition PruneAccounts :: "faults \<Rightarrow> string list \<Rightarrow> db \<Rightarrow> (nat \<times> bool) \<times> db" where
  "PruneAccounts faults keep d =
     (if keep = [] then ((0, True), d)
      else if length keep > pruneMaxAccounts then ((0, False), d)
      else case exec faults (prune_res_stmt keep) d of
             (False, d1) \<Rightarrow> ((0, False), d1)
           | (True, d1) \<Rightarrow>
               (let n = length (dbRes d) - length (dbRes d1) in
                case exec faults (prune_gpu_stmt keep) d1 of
                  (False, d2) \<Rightarrow> ((n, False), d2)
                | (True, d2) \<Rightarrow> ((n + (length (dbGpu d1) - length (dbGpu d2)), True), d2)))"

section \<open>Statements and transactions\<close>

text \<open>A statement works on the tables alone, whatever the number of statements before it.\<close>

definition table_stmt :: "(db \<Rightarrow> db) \<Rightarrow> bool" where
  "table_stmt f \<longleftrightarrow> (\<forall>d n. f (d\<lparr>dbStmts := n\<rparr>) = (f d)\<lparr>dbStmts := n\<rparr>)"

lemma table_stmts [simp]:
  "table_stmt id" "table_stmt (upsert_stmt now r)" "table_stmt (delete_account_stmt acct)"
  "table_stmt (insert_log k)" "table_stmt (prune_log_stmt jd c)" "table_stmt (upsert_gpu_stmt now g)"
  "table_stmt (delete_gpu_account_stmt acct)" "table_stmt (prune_res_stmt keep)"
  "table_stmt (prune_gpu_stmt keep)"
  by (simp_all add: table_stmt_def upsert_stmt_def delete_account_stmt_def insert_log_def
      prune_log_stmt_def upsert_gpu_stmt_def delete_gpu_account_stmt_def prune_res_stmt_def
      prune_gpu_stmt_def)

definition run_stmts :: "(db \<Rightarrow> db) list \<Rightarrow> db \<Rightarrow> db" where
  "run_stmts fs d = fold (\<lambda>f. f) fs d"

lemma run_stmts_simps [simp]:
  "run_stmts [] d = d" "run_stmts (f # fs) d = run_stmts fs (f d)"
  "run_stmts (fs @ gs) d = run_stmts gs (run_stmts fs d)"
  by (simp_all add: run_stmts_def)

lemma run_stmts_dbStmts:
  "\<forall>f \<in> set fs. table_stmt f \<Longrightarrow> run_stmts fs (d\<lparr>dbStmts := n\<rparr>) = (run_stmts fs d)\<lparr>dbStmts := n\<rparr>"
  by (induction fs arbitrary: d) (simp_all add: table_stmt_def)

lemma exec_result:
  "exec faults f d = (ok, d') \<Longrightarrow> d' = (if ok then f d else d)\<lparr>dbStmts := Suc (dbStmts d)\<rparr>"
  by (auto simp: exec_def Let_def split: if_splits)

lemma exec_all_True:
  "exec_all faults fs d = (True, d') \<Longrightarrow> \<forall>f \<in> set fs. table_stmt f \<Longrightarrow>
   d' = (run_stmts fs d)\<lparr>dbStmts := dbStmts d'\<rparr>"
proof (induction fs arbitrary: d)
  case (Cons f fs)
  then obtain d1 where d1: "exec faults f d = (True, d1)" "exec_all faults fs d1 = (True, d')"
    by (auto split: prod.splits bool.splits)
  from exec_result [OF d1(1)] have "d1 = (f d)\<lparr>dbStmts := Suc (dbStmts d)\<rparr>" by simp
  moreover from Cons.IH [OF d1(2)] Cons.prems(2) have "d' = (run_stmts fs d1)\<lparr>dbStmts := dbStmts d'\<rparr>" by simp
  ultimately show ?case using Cons.prems(2) by (simp add: run_stmts_dbStmts)
qed simp

lemma transaction_result:
  assumes "transaction faults fs d = (ok, d')" "\<forall>f \<in> set fs. table_stmt f"
  shows "d' = (if ok then run_stmts fs d else d)\<lparr>dbStmts := dbStmts d'\<rparr>"
proof -
  obtain b d1 where e: "exec_all faults ([id] @ fs @ [id]) d = (b, d1)" by (metis surj_pair)
  show ?thesis
  proof (cases b)
    case True
    with e assms have "d' = d1" "ok" by (simp_all add: transaction_def)
    moreover have "d1 = (run_stmts ([id] @ fs @ [id]) d)\<lparr>dbStmts := dbStmts d1\<rparr>"
      using e True assms(2) by (intro exec_all_True) auto
    ultimately show ?thesis by simp
  next
    case False
    with e assms(1) show ?thesis by (auto simp: transaction_def)
  qed
qed

section \<open>The tables as maps\<close>

definition db_wf :: "db \<Rightarrow> bool" where
  "db_wf d \<longleftrightarrow> distinct (map row_id (dbRes d)) \<and> distinct (map gpu_id (dbGpu d)) \<and> distinct (dbLog d)"

definition res_map :: "db \<Rightarrow> string \<Rightarrow> res_row option" where
  "res_map d i = find_key row_id i (dbRes d)"

definition gpu_map :: "db \<Rightarrow> string \<Rightarrow> gpu_row option" where
  "gpu_map d i = find_key gpu_id i (dbGpu d)"

lemma find_key_filter_rows:
  "distinct (map k rs) \<Longrightarrow> find_key k i (filter P rs) =
     (case find_key k i rs of None \<Rightarrow> None | Some r \<Rightarrow> if P r then Some r else None)"
proof (induction rs)
  case (Cons r rs)
  then show ?case using find_key_None [of k i rs] by (auto split: option.split)
qed simp

lemma row_id_simps [simp]:
  "row_id (to_row now r) = ID r" "row_id (merge_row old new) = row_id old"
  "gpu_id (to_gpu_row now g) = gID g" "gpu_id (merge_gpu gold gnew) = gpu_id gold"
  by (simp_all add: row_id_def gpu_id_def to_row_def merge_row_def to_gpu_row_def merge_gpu_def)

text \<open>The specification of an upsert and of a replacement, on maps.\<close>

definition spec_upsert :: "gotime \<Rightarrow> reservation \<Rightarrow> (string \<Rightarrow> res_row option) \<Rightarrow> string \<Rightarrow> res_row option" where
  "spec_upsert now r m =
     m(ID r := Some (case m (ID r) of None \<Rightarrow> to_row now r | Some old \<Rightarrow> merge_row old (to_row now r)))"

definition spec_delete :: "(res_row \<Rightarrow> bool) \<Rightarrow> (string \<Rightarrow> res_row option) \<Rightarrow> string \<Rightarrow> res_row option" where
  "spec_delete P m = (\<lambda>i. case m i of None \<Rightarrow> None | Some row \<Rightarrow> if P row then None else Some row)"

definition spec_replace ::
  "gotime \<Rightarrow> string \<Rightarrow> reservation list \<Rightarrow> (string \<Rightarrow> res_row option) \<Rightarrow> string \<Rightarrow> res_row option" where
  "spec_replace now acct items m =
     fold (spec_upsert now) items (spec_delete (\<lambda>row. AccountID (rrData row) = acct) m)"

lemma res_map_upsert: "res_map (upsert_stmt now r d) = spec_upsert now r (res_map d)"
  by (rule ext) (simp add: res_map_def upsert_stmt_def spec_upsert_def find_key_upsert_key)

lemma db_wf_upsert: "db_wf d \<Longrightarrow> db_wf (upsert_stmt now r d)"
  by (simp add: db_wf_def upsert_stmt_def distinct_upsert_key)

lemma res_map_delete:
  "db_wf d \<Longrightarrow> res_map (delete_account_stmt acct d) = spec_delete (\<lambda>row. AccountID (rrData row) = acct) (res_map d)"
  by (rule ext)
    (auto simp: res_map_def delete_account_stmt_def spec_delete_def db_wf_def find_key_filter_rows
      split: option.split)

lemma db_wf_delete: "db_wf d \<Longrightarrow> db_wf (delete_account_stmt acct d)"
  by (simp add: db_wf_def delete_account_stmt_def distinct_filter_keys)

lemma run_upserts:
  "res_map (run_stmts (map (upsert_stmt now) items) d) = fold (spec_upsert now) items (res_map d) \<and>
   dbGpu (run_stmts (map (upsert_stmt now) items) d) = dbGpu d \<and>
   dbLog (run_stmts (map (upsert_stmt now) items) d) = dbLog d \<and>
   (db_wf d \<longrightarrow> db_wf (run_stmts (map (upsert_stmt now) items) d))"
proof (induction items arbitrary: d)
  case (Cons r items)
  from Cons.IH [of "upsert_stmt now r d"] show ?case
    by (auto simp: res_map_upsert db_wf_upsert) (simp_all add: upsert_stmt_def)
qed simp

lemma db_wf_stmts [simp]: "db_wf (d\<lparr>dbStmts := n\<rparr>) = db_wf d" "res_map (d\<lparr>dbStmts := n\<rparr>) = res_map d"
  by (auto simp: db_wf_def res_map_def)

text \<open>
  C14. Replacing an account is atomic and does what it says: whatever statement of it fails, the
  call either reports success and the reservations are those of the other accounts with
  the new items merged in, one after the other, or it reports an error and all tables
  are as they were. The coverage rows and the notification log never change.
\<close>

theorem replace_account_refines:
  assumes "db_wf d" and "ReplaceAccount faults now acct items d = (ok, d')"
  shows "res_map d' = (if ok then spec_replace now acct items (res_map d) else res_map d) \<and>
    dbGpu d' = dbGpu d \<and> dbLog d' = dbLog d \<and> (\<not> ok \<longrightarrow> dbRes d' = dbRes d) \<and> db_wf d'"
proof -
  let ?fs = "delete_account_stmt acct # map (upsert_stmt now) items"
  have d': "d' = (if ok then run_stmts ?fs d else d)\<lparr>dbStmts := dbStmts d'\<rparr>"
    using assms(2) unfolding ReplaceAccount_def by (rule transaction_result) auto
  show ?thesis
  proof (cases ok)
    case True
    let ?e = "run_stmts ?fs d"
    have e: "d' = ?e\<lparr>dbStmts := dbStmts d'\<rparr>" using d' True by simp
    have "res_map ?e = spec_replace now acct items (res_map d)" "dbGpu ?e = dbGpu d" "dbLog ?e = dbLog d"
      "db_wf ?e"
      using run_upserts [of now items "delete_account_stmt acct d"] assms(1)
      by (simp_all add: res_map_delete db_wf_delete spec_replace_def) (simp_all add: delete_account_stmt_def)
    moreover have "res_map d' = res_map ?e" "dbGpu d' = dbGpu ?e" "dbLog d' = dbLog ?e" "db_wf d' = db_wf ?e"
      by (subst e, simp)+
    ultimately show ?thesis using True by simp
  next
    case False
    then have e: "d' = d\<lparr>dbStmts := dbStmts d'\<rparr>" using d' by simp
    have "res_map d' = res_map d" "dbGpu d' = dbGpu d" "dbLog d' = dbLog d" "db_wf d'" "dbRes d' = dbRes d"
      by (subst e, simp add: assms(1))+
    with False show ?thesis by simp
  qed
qed

definition sample_db :: db where
  "sample_db = \<lparr>dbRes = [], dbGpu = [], dbLog = [], dbStmts = 0\<rparr>"

definition sample_res :: "string \<Rightarrow> string \<Rightarrow> gotime \<Rightarrow> reservation" where
  "sample_res i acct t = zero_reservation\<lparr>ID := i, AccountID := acct, EndTime := t\<rparr>"

lemma replace_account_refines_witness:
  "\<exists>d'. ReplaceAccount (\<lambda>n. n = 3) 0 ''1'' [sample_res ''a'' ''1'' 5, sample_res ''b'' ''1'' 6]
      (sample_db\<lparr>dbRes := [to_row 0 (sample_res ''x'' ''1'' 7)]\<rparr>) = (False, d') \<and>
     dbRes d' = [to_row 0 (sample_res ''x'' ''1'' 7)]"
proof -
  let ?d = "sample_db\<lparr>dbRes := [to_row 0 (sample_res ''x'' ''1'' 7)]\<rparr>"
  let ?items = "[sample_res ''a'' ''1'' 5, sample_res ''b'' ''1'' 6]"
  have wf: "db_wf ?d" by (simp add: db_wf_def sample_db_def)
  obtain ok d' where r: "ReplaceAccount (\<lambda>n. n = 3) 0 ''1'' ?items ?d = (ok, d')" by (metis surj_pair)
  have "\<not> ok" using r by (auto simp: ReplaceAccount_def transaction_def exec_def sample_db_def
      delete_account_stmt_def upsert_stmt_def Let_def)
  with replace_account_refines [OF wf r] r show ?thesis by simp
qed


section \<open>Reading back what was written\<close>

text \<open>
  The times the text columns can hold: from the zero time to the end of year 9999. A column
  is canonical if it is empty or the rendering of such a time.
\<close>

definition storable :: "gotime \<Rightarrow> bool" where
  "storable t \<longleftrightarrow> 0 \<le> t \<and> four_digit_year t"

definition canonical_time :: "string \<Rightarrow> bool" where
  "canonical_time s \<longleftrightarrow>
     s = [] \<or> (case parse_sql s of None \<Rightarrow> False | Some t \<Rightarrow> storable t \<and> s = format_sql t)"

lemma truncate_second_simps [simp]:
  "truncate_second t div nano = t div nano" "truncate_second (truncate_second t) = truncate_second t"
  "day_of (truncate_second t) = day_of t" "second_of_day (truncate_second t) = second_of_day t"
  by (simp_all add: truncate_second_def nano_def day_of_def second_of_day_def)

lemma format_sql_truncate [simp]: "format_sql (truncate_second t) = format_sql t"
  by (simp add: format_sql_def format_date_def format_clock_def)

lemma storable_truncate: "storable t \<Longrightarrow> storable (truncate_second t)"
proof -
  assume t: "storable t"
  then have "0 \<le> t div nano" by (simp add: storable_def nano_def pos_imp_zdiv_nonneg_iff)
  then have "0 \<le> truncate_second t" by (simp add: truncate_second_def nano_def)
  with t show ?thesis by (simp add: storable_def four_digit_year_def Year_def)
qed

lemma canonical_formatTime: "storable t \<Longrightarrow> canonical_time (formatTime t)"
  using storable_truncate [of t]
  by (simp add: canonical_time_def formatTime_def storable_def parse_sql_format_sql)

lemma read_formatTime: "storable t \<Longrightarrow> read_time (formatTime t) = truncate_second t"
  by (simp add: read_time_def parseTime_formatTime storable_def)

lemma read_format_sql: "storable t \<Longrightarrow> read_time (format_sql t) = truncate_second t"
  by (simp add: read_time_def parseTime_def parse_sql_format_sql storable_def)

lemma canonical_timeE:
  assumes "canonical_time s"
  obtains "s = []" "read_time s = 0"
  | t where "storable t" "s = format_sql t" "read_time s = t" "truncate_second t = t"
proof (cases "s = []")
  case True
  with that(1) show thesis by (simp add: read_time_def parseTime_def)
next
  case False
  with assms obtain t where t: "parse_sql s = Some t" "storable t" "s = format_sql t"
    by (auto simp: canonical_time_def split: option.splits)
  from t have "truncate_second t = t" by (simp add: parse_sql_format_sql storable_def)
  moreover from t have "read_time s = t" by (simp add: read_time_def parseTime_def)
  ultimately show thesis using t by (intro that(2))
qed

lemma format_sql_le_read:
  assumes "storable t" "storable u" "truncate_second t = t" "truncate_second u = u"
    and "format_sql t \<le> format_sql u"
  shows "t \<le> u"
proof -
  from assms have "\<not> format_sql u < format_sql t" by simp
  with assms(1,2) have "t div nano \<le> u div nano" by (simp add: format_sql_less_iff storable_def)
  then have "truncate_second t \<le> truncate_second u" by (simp add: truncate_second_def nano_def)
  with assms show ?thesis by simp
qed

lemma read_time_mono:
  assumes "canonical_time s" "canonical_time s'" "s \<le> s'"
  shows "read_time s \<le> read_time s'"
proof (rule canonical_timeE [OF assms(1)])
  assume "s = []" "read_time s = 0"
  then show ?thesis
    by - (rule canonical_timeE [OF assms(2)], simp_all add: storable_def)
next
  fix t assume t: "storable t" "s = format_sql t" "read_time s = t" "truncate_second t = t"
  show ?thesis
  proof (rule canonical_timeE [OF assms(2)])
    assume "s' = []"
    with assms(3) t show ?thesis by (cases s) simp_all
  next
    fix u assume u: "storable u" "s' = format_sql u" "read_time s' = u" "truncate_second u = u"
    show ?thesis using format_sql_le_read [of t u] t u assms(3) by simp
  qed
qed

lemma sorted_map_mono:
  "sorted (map f xs) \<Longrightarrow> (\<And>x y. x \<in> set xs \<Longrightarrow> y \<in> set xs \<Longrightarrow> f x \<le> f y \<Longrightarrow> g x \<le> g y) \<Longrightarrow> sorted (map g xs)"
  unfolding sorted_map by (rule sorted_wrt_mono_rel)

definition stored_ok :: "db \<Rightarrow> bool" where
  "stored_ok d \<longleftrightarrow> (\<forall>row \<in> set (dbRes d). canonical_time (rrEnd row))"

lemma query_result:
  assumes "queryReservations faults cond order d = (Some rs, d')"
  shows "rs = map read_row (sort_key order (filter cond (dbRes d))) \<and> d' = d\<lparr>dbStmts := Suc (dbStmts d)\<rparr>"
  using assms by (auto simp: queryReservations_def exec_def Let_def split: if_splits)

lemma end_read_row [simp]: "EndTime (read_row row) = read_time (rrEnd row)"
  "ID (read_row row) = row_id row" "Status (read_row row) = Status (rrData row)"
  "AccountID (read_row row) = AccountID (rrData row)"
  by (simp_all add: read_row_def row_id_def)

lemma list_sorted:
  assumes "stored_ok d" and "List faults ty acct d = (Some rs, d')"
  shows "sorted (map EndTime rs)"
proof -
  let ?P = "\<lambda>row. (ty \<noteq> [] \<longrightarrow> RType (rrData row) = ty) \<and> (acct \<noteq> [] \<longrightarrow> AccountID (rrData row) = acct)"
  let ?rows = "sort_key rrEnd (filter ?P (dbRes d))"
  have "rs = map read_row ?rows" using query_result [OF assms(2) [unfolded List_def]] by simp
  moreover have "sorted (map (\<lambda>row. read_time (rrEnd row)) ?rows)"
    by (rule sorted_map_mono [where f = rrEnd]) (use assms(1) in \<open>auto simp: stored_ok_def intro: read_time_mono\<close>)
  ultimately show ?thesis by (simp add: comp_def)
qed


text \<open>A reservation as it comes back: its times to the second, and the time of the update.\<close>

definition as_stored :: "gotime \<Rightarrow> reservation \<Rightarrow> reservation" where
  "as_stored now r =
     r\<lparr>StartTime := truncate_second (StartTime r), EndTime := truncate_second (EndTime r),
       UpdatedAt := truncate_second now\<rparr>"

definition times_ok :: "reservation \<Rightarrow> bool" where
  "times_ok r \<longleftrightarrow> storable (StartTime r) \<and> storable (EndTime r)"

lemma read_row_to_row: "times_ok r \<Longrightarrow> storable now \<Longrightarrow> read_row (to_row now r) = as_stored now r"
  by (simp add: read_row_def to_row_def as_stored_def times_ok_def read_formatTime read_format_sql)

lemma canonical_to_row: "times_ok r \<Longrightarrow> canonical_time (rrEnd (to_row now r))"
  by (simp add: to_row_def times_ok_def canonical_formatTime)

lemma upsert_fresh: "k r \<notin> k ` set rs \<Longrightarrow> upsert_key k m r rs = rs @ [r]"
  by (induction rs) auto

lemma run_upserts_fresh:
  "distinct (map ID items) \<Longrightarrow> row_id ` set (dbRes d) \<inter> ID ` set items = {} \<Longrightarrow>
   dbRes (run_stmts (map (upsert_stmt now) items) d) = dbRes d @ map (to_row now) items"
proof (induction items arbitrary: d)
  case (Cons r items)
  have up: "dbRes (upsert_stmt now r d) = dbRes d @ [to_row now r]"
    using Cons.prems(2) by (simp add: upsert_stmt_def upsert_fresh)
  have "dbRes (run_stmts (map (upsert_stmt now) items) (upsert_stmt now r d)) =
      dbRes (upsert_stmt now r d) @ map (to_row now) items"
    using Cons.prems by (intro Cons.IH) (auto simp: up)
  with up show ?case by simp
qed simp

lemma replace_rows:
  assumes "ReplaceAccount faults now acct items d = (True, d')" and "distinct (map ID items)"
    and "\<forall>row \<in> set (dbRes d). row_id row \<in> ID ` set items \<longrightarrow> AccountID (rrData row) = acct"
  shows "dbRes d' = filter (\<lambda>row. AccountID (rrData row) \<noteq> acct) (dbRes d) @ map (to_row now) items"
proof -
  let ?fs = "delete_account_stmt acct # map (upsert_stmt now) items"
  have "d' = (if True then run_stmts ?fs d else d)\<lparr>dbStmts := dbStmts d'\<rparr>"
    using assms(1) unfolding ReplaceAccount_def by (rule transaction_result) auto
  then have e: "d' = (run_stmts ?fs d)\<lparr>dbStmts := dbStmts d'\<rparr>" by (simp only: if_True)
  have "dbRes d' = dbRes (run_stmts ?fs d)" by (subst e) simp
  also have "\<dots> = dbRes (delete_account_stmt acct d) @ map (to_row now) items"
    unfolding run_stmts_simps
    by (rule run_upserts_fresh [OF assms(2)]) (use assms(3) in \<open>auto simp: delete_account_stmt_def\<close>)
  finally show ?thesis by (simp add: delete_account_stmt_def)
qed

lemma replace_then_list_lemma:
  assumes replace: "ReplaceAccount faults now acct items d = (True, d1)"
    and list: "List faults [] acct d1 = (Some rs, d2)"
    and "acct \<noteq> []" "distinct (map ID items)" "storable now"
    and items: "\<forall>r \<in> set items. AccountID r = acct \<and> times_ok r"
    and "\<forall>row \<in> set (dbRes d). row_id row \<in> ID ` set items \<longrightarrow> AccountID (rrData row) = acct"
  shows "mset rs = mset (map (as_stored now) items) \<and> sorted (map EndTime rs)"
proof -
  let ?rows = "map (to_row now) items"
  have d1: "dbRes d1 = filter (\<lambda>row. AccountID (rrData row) \<noteq> acct) (dbRes d) @ ?rows"
    using replace_rows [OF replace] assms by blast
  have acct: "AccountID (rrData (to_row now r)) = AccountID r" for r by (simp add: to_row_def)
  have "filter (\<lambda>row. AccountID (rrData row) = acct) ?rows = ?rows"
    using items by (simp add: acct filter_True)
  with d1 have rows: "filter (\<lambda>row. AccountID (rrData row) = acct) (dbRes d1) = ?rows"
    by simp
  have rs: "rs = map read_row (sort_key rrEnd ?rows)"
    using query_result [OF list [unfolded List_def]] assms(3) by (simp add: rows)
  have "map read_row ?rows = map (as_stored now) items"
    using items assms(5) by (simp add: read_row_to_row)
  then have "mset rs = mset (map (as_stored now) items)"
    unfolding rs by (metis mset_map mset_sort)
  moreover have "sorted (map (\<lambda>row. read_time (rrEnd row)) (sort_key rrEnd ?rows))"
  proof (rule sorted_map_mono [where f = rrEnd])
    fix x y assume "x \<in> set (sort_key rrEnd ?rows)" "y \<in> set (sort_key rrEnd ?rows)" and le: "rrEnd x \<le> rrEnd y"
    then have "canonical_time (rrEnd x)" "canonical_time (rrEnd y)"
      using items by (auto simp: canonical_to_row)
    then show "read_time (rrEnd x) \<le> read_time (rrEnd y)" using le by (rule read_time_mono)
  qed simp
  ultimately show ?thesis by (simp add: rs comp_def)
qed

text \<open>
  What a sync writes is what the dashboard reads: after an account was replaced, listing
  that account gives exactly the new items, each with every field it had, its times to the
  second and the time of the update, in order of expiry, and nothing that was stored
  before. The item IDs are distinct and not in use by other accounts; times lie between the
  zero time and the end of year 9999.
\<close>

theorem replace_then_list:
  assumes "ReplaceAccount faults now acct items d = (True, d1)"
    and "List faults [] acct d1 = (Some rs, d2)"
    and "acct \<noteq> []" "distinct (map ID items)" "storable now"
    and "\<forall>r \<in> set items. AccountID r = acct \<and> times_ok r"
    and "\<forall>row \<in> set (dbRes d). row_id row \<in> ID ` set items \<longrightarrow> AccountID (rrData row) = acct"
  shows "mset rs = mset (map (as_stored now) items) \<and> sorted (map EndTime rs)"
  using assms by (rule replace_then_list_lemma)

lemma storable_0: "storable 0"
  by (simp add: storable_def) code_simp

lemma replace_then_list_witness:
  "\<exists>d1 rs d2. ReplaceAccount (\<lambda>n. False) 0 ''1'' [sample_res ''a'' ''1'' (7 * nano)]
      (sample_db\<lparr>dbRes := [to_row 0 (sample_res ''x'' ''1'' 0)]\<rparr>) = (True, d1) \<and>
     List (\<lambda>n. False) [] ''1'' d1 = (Some rs, d2) \<and>
     mset rs = {#as_stored 0 (sample_res ''a'' ''1'' (7 * nano))#}"
proof -
  let ?r = "sample_res ''a'' ''1'' (7 * nano)"
  let ?d = "sample_db\<lparr>dbRes := [to_row 0 (sample_res ''x'' ''1'' 0)]\<rparr>"
  have r: "ReplaceAccount (\<lambda>n. False) 0 ''1'' [?r] ?d = (True, snd (ReplaceAccount (\<lambda>n. False) 0 ''1'' [?r] ?d))"
    by (simp add: ReplaceAccount_def transaction_def exec_def Let_def)
  obtain d1 where d1: "ReplaceAccount (\<lambda>n. False) 0 ''1'' [?r] ?d = (True, d1)" using r by blast
  obtain rs d2 where l: "List (\<lambda>n. False) [] ''1'' d1 = (Some rs, d2)"
    by (simp add: List_def queryReservations_def exec_def Let_def)
  have "storable (7 * nano)" by (simp add: storable_def nano_def) code_simp
  then have ok: "times_ok ?r" by (simp add: times_ok_def sample_res_def zero_reservation_def storable_0)
  have "mset rs = mset (map (as_stored 0) [?r]) \<and> sorted (map EndTime rs)"
    by (rule replace_then_list [OF d1 l])
      (simp_all add: storable_0 ok, simp_all add: sample_res_def sample_db_def to_row_def row_id_def)
  with d1 l show ?thesis by auto
qed


section \<open>Due alerts\<close>

text \<open>
  What the code relies on of \<open>julianday\<close>: on the layout the code writes it gives the instant,
  here in milliseconds.
\<close>

definition jd_canonical :: "(string \<Rightarrow> int option) \<Rightarrow> bool" where
  "jd_canonical jd \<longleftrightarrow> (\<forall>t. four_digit_year t \<longrightarrow> jd (format_sql t) = Some (t div nano * 1000))"

definition due :: "gotime \<Rightarrow> int \<Rightarrow> reservation \<Rightarrow> bool" where
  "due now maxDays r \<longleftrightarrow>
     now < EndTime r \<and> EndTime r \<le> now + maxDays * Day \<and> Status r \<notin> set inactive_statuses"

lemma le_div_iff:
  fixes a c m :: int
  assumes "0 < c"
  shows "m \<le> a div c \<longleftrightarrow> m * c \<le> a"
proof
  assume "m \<le> a div c"
  note c = assms
  from c \<open>m \<le> a div c\<close> have "m * c \<le> a div c * c" by simp
  also have "\<dots> \<le> a" using c div_mult_mod_eq [of a c] pos_mod_sign [of c a] by linarith
  finally show "m * c \<le> a" .
next
  assume "m * c \<le> a"
  with assms show "m \<le> a div c" using zdiv_mono1 [of "m * c" a c] by simp
qed

lemma ms_bounds:
  assumes "truncate_second t = t"
  shows "ms_of now < t div nano * 1000 \<longleftrightarrow> now < t"
    "t div nano * 1000 \<le> ms_of now + k * 86400000 \<longleftrightarrow> t \<le> now + k * Day"
proof -
  define s where "s = t div nano"
  have t: "t = s * 1000000000" using assms by (simp add: s_def truncate_second_def nano_def)
  show "ms_of now < t div nano * 1000 \<longleftrightarrow> now < t"
    using le_div_iff [of 1000000 "s * 1000" now] unfolding ms_of_def s_def [symmetric]
    by (simp add: t not_le [symmetric] ac_simps)
  have "s * 1000 \<le> now div 1000000 + k * 86400000 \<longleftrightarrow> s * 1000 - k * 86400000 \<le> now div 1000000"
    by linarith
  also have "\<dots> \<longleftrightarrow> (s * 1000 - k * 86400000) * 1000000 \<le> now" by (simp only: le_div_iff)
  also have "\<dots> \<longleftrightarrow> t \<le> now + k * Day" by (simp add: t Day_def algebra_simps)
  finally show "t div nano * 1000 \<le> ms_of now + k * 86400000 \<longleftrightarrow> t \<le> now + k * Day"
    unfolding ms_of_def s_def [symmetric] .
qed

lemma alert_due_iff:
  assumes "jd_canonical jd" "canonical_time (rrEnd row)" "0 \<le> now"
  shows "alert_due jd now maxDays row \<longleftrightarrow> due now maxDays (read_row row)"
    and "alert_due jd now maxDays row \<Longrightarrow> jd_order jd row = EndTime (read_row row) div nano * 1000 \<and>
      truncate_second (EndTime (read_row row)) = EndTime (read_row row)"
proof -
  consider (empty) "rrEnd row = []" "read_time (rrEnd row) = 0"
    | (time) t where "storable t" "rrEnd row = format_sql t" "read_time (rrEnd row) = t" "truncate_second t = t"
    using assms(2) by (rule canonical_timeE) blast+
  then show "alert_due jd now maxDays row \<longleftrightarrow> due now maxDays (read_row row)"
    "alert_due jd now maxDays row \<Longrightarrow> jd_order jd row = EndTime (read_row row) div nano * 1000 \<and>
      truncate_second (EndTime (read_row row)) = EndTime (read_row row)"
  proof (atomize (full), cases)
    case empty
    with assms(3) show "(alert_due jd now maxDays row \<longleftrightarrow> due now maxDays (read_row row)) \<and>
      (alert_due jd now maxDays row \<longrightarrow> jd_order jd row = EndTime (read_row row) div nano * 1000 \<and>
      truncate_second (EndTime (read_row row)) = EndTime (read_row row))"
      by (simp add: alert_due_def due_def)
  next
    case time
    from assms(1) time(1,2) have "jd (rrEnd row) = Some (t div nano * 1000)"
      by (simp add: jd_canonical_def storable_def)
    with time ms_bounds [OF time(4)] show "(alert_due jd now maxDays row \<longleftrightarrow> due now maxDays (read_row row)) \<and>
      (alert_due jd now maxDays row \<longrightarrow> jd_order jd row = EndTime (read_row row) div nano * 1000 \<and>
      truncate_second (EndTime (read_row row)) = EndTime (read_row row))"
      by (simp add: alert_due_def due_def jd_order_def)
  qed
qed

lemma get_alerts_result:
  assumes "GetAlerts faults jd now now' maxDays remind d = (Some as, d')"
  shows "as = map (\<lambda>row. NewAlert (read_row row) now' remind)
      (sort_key (jd_order jd) (filter (alert_due jd now maxDays) (dbRes d)))"
    and "d' = d\<lparr>dbStmts := Suc (dbStmts d)\<rparr>"
proof -
  obtain rows where q: "queryReservations faults (alert_due jd now maxDays) (jd_order jd) d = (Some rows, d')"
    and as: "as = map (\<lambda>r. NewAlert r now' remind) rows"
    using assms by (auto simp: GetAlerts_def split: prod.splits option.splits)
  from query_result [OF q] show "as = map (\<lambda>row. NewAlert (read_row row) now' remind)
      (sort_key (jd_order jd) (filter (alert_due jd now maxDays) (dbRes d)))"
    "d' = d\<lparr>dbStmts := Suc (dbStmts d)\<rparr>"
    by (simp_all add: as comp_def)
qed

lemma aRes_NewAlert [simp]: "aRes (NewAlert r now remind) = r" "DaysLeft (NewAlert r now remind) = DaysUntil (EndTime r) now"
  by (simp_all add: NewAlert_def Let_def)

lemma get_alerts_lemma:
  assumes jd: "jd_canonical jd" "stored_ok d" "0 \<le> now"
    and get: "GetAlerts faults jd now now' maxDays remind d = (Some as, d')"
  shows "mset (map aRes as) = mset (filter (due now maxDays) (map read_row (dbRes d)))"
    and "sorted (map (\<lambda>a. EndTime (aRes a)) as)"
    and "a \<in> set as \<Longrightarrow> a = NewAlert (aRes a) now' remind \<and> due now maxDays (aRes a)"
proof -
  let ?rows = "sort_key (jd_order jd) (filter (alert_due jd now maxDays) (dbRes d))"
  note as = get_alerts_result(1) [OF get]
  have ok: "canonical_time (rrEnd row)" if "row \<in> set (dbRes d)" for row
    using that jd(2) by (simp add: stored_ok_def)
  have "filter (alert_due jd now maxDays) (dbRes d) = filter (\<lambda>row. due now maxDays (read_row row)) (dbRes d)"
    using alert_due_iff(1) [OF jd(1) ok jd(3)] by (rule filter_cong [OF refl])
  then have rows: "map read_row (filter (alert_due jd now maxDays) (dbRes d)) =
      filter (due now maxDays) (map read_row (dbRes d))"
    by (simp add: filter_map comp_def)
  have "map aRes as = map read_row ?rows" unfolding as by simp
  then have "mset (map aRes as) = mset (map read_row (filter (alert_due jd now maxDays) (dbRes d)))"
    by simp
  with rows show "mset (map aRes as) = mset (filter (due now maxDays) (map read_row (dbRes d)))"
    by simp
  have "sorted (map (\<lambda>row. EndTime (read_row row)) ?rows)"
  proof (rule sorted_map_mono [where f = "jd_order jd"])
    fix x y assume x: "x \<in> set ?rows" and y: "y \<in> set ?rows" and le: "jd_order jd x \<le> jd_order jd y"
    have "jd_order jd x = EndTime (read_row x) div nano * 1000" "truncate_second (EndTime (read_row x)) = EndTime (read_row x)"
      "jd_order jd y = EndTime (read_row y) div nano * 1000" "truncate_second (EndTime (read_row y)) = EndTime (read_row y)"
      using alert_due_iff(2) [OF jd(1) ok jd(3)] x y by auto
    then have le': "EndTime (read_row x) div nano \<le> EndTime (read_row y) div nano"
      and x': "EndTime (read_row x) = EndTime (read_row x) div nano * nano"
      and y': "EndTime (read_row y) = EndTime (read_row y) div nano * nano"
      using le by (simp_all only: truncate_second_def)
    show "EndTime (read_row x) \<le> EndTime (read_row y)"
      by (subst x', subst y') (use le' in \<open>simp add: nano_def\<close>)
  qed simp
  then show "sorted (map (\<lambda>a. EndTime (aRes a)) as)" unfolding as by (simp add: comp_def)
  assume "a \<in> set as"
  then obtain row where "row \<in> set (dbRes d)" "alert_due jd now maxDays row" "a = NewAlert (read_row row) now' remind"
    unfolding as by auto
  with alert_due_iff(1) [OF jd(1) ok jd(3)] show "a = NewAlert (aRes a) now' remind \<and> due now maxDays (aRes a)"
    by simp
qed


text \<open>
  C16. The alerts are exactly the stored reservations that expire within \<open>maxDays\<close> days and
  are in an active status, each once, soonest first, each derived from its reservation;
  as long as it has not expired meanwhile, the days left it shows are at least one and at
  most \<open>maxDays\<close>. An unset expiry never alerts.
\<close>

theorem get_alerts_exact:
  assumes "jd_canonical jd" "stored_ok d" "0 \<le> now" "now \<le> now'" "0 \<le> maxDays" "maxDays \<le> 106751"
    and "GetAlerts faults jd now now' maxDays remind d = (Some as, d')"
  shows "mset (map aRes as) = mset (filter (due now maxDays) (map read_row (dbRes d))) \<and>
    sorted (map (\<lambda>a. EndTime (aRes a)) as) \<and>
    (\<forall>a \<in> set as. a = NewAlert (aRes a) now' remind \<and> \<not> IsZero (EndTime (aRes a)) \<and>
       DaysLeft a \<le> maxDays \<and> (now' < EndTime (aRes a) \<longrightarrow> 1 \<le> DaysLeft a))"
proof (intro conjI ballI impI)
  note lem = get_alerts_lemma [OF assms(1-3,7)]
  show "mset (map aRes as) = mset (filter (due now maxDays) (map read_row (dbRes d)))" by (rule lem(1))
  show "sorted (map (\<lambda>a. EndTime (aRes a)) as)" by (rule lem(2))
  fix a assume "a \<in> set as"
  from lem(3) [OF this] have a: "a = NewAlert (aRes a) now' remind" and due: "due now maxDays (aRes a)"
    by blast+
  show "a = NewAlert (aRes a) now' remind" by (rule a)
  from due assms(3) show nz: "\<not> IsZero (EndTime (aRes a))" by (simp add: due_def IsZero_def)
  have days: "DaysLeft a = DaysUntil (EndTime (aRes a)) now'" by (subst a) simp
  have "EndTime (aRes a) \<le> now' + maxDays * Day" using due assms(4) by (simp add: due_def)
  then show "DaysLeft a \<le> maxDays"
    unfolding days using nz assms(5,6) by (subst days_until_le) simp_all
  assume "now' < EndTime (aRes a)"
  then have "\<not> DaysUntil (EndTime (aRes a)) now' \<le> 0" using nz by (subst days_until_le) simp_all
  then show "1 \<le> DaysLeft a" unfolding days by simp
qed

definition sample_jd :: "string \<Rightarrow> int option" where
  "sample_jd s = map_option (\<lambda>t. t div nano * 1000) (parse_sql s)"

lemma sample_jd: "jd_canonical sample_jd"
  by (simp add: jd_canonical_def sample_jd_def parse_sql_format_sql)

lemma storable_day: "storable Day"
  by (simp add: storable_def Day_def) code_simp

lemma get_alerts_exact_witness:
  "\<exists>as d'. GetAlerts (\<lambda>n. False) sample_jd 0 0 7 [3] (sample_db\<lparr>dbRes := [to_row 0 (sample_res ''a'' ''1'' Day)]\<rparr>) = (Some as, d') \<and>
     map aRes as = [read_row (to_row 0 (sample_res ''a'' ''1'' Day))]"
proof -
  let ?row = "to_row 0 (sample_res ''a'' ''1'' Day)"
  let ?d = "sample_db\<lparr>dbRes := [?row]\<rparr>"
  have t: "times_ok (sample_res ''a'' ''1'' Day)"
    by (simp add: times_ok_def sample_res_def zero_reservation_def storable_0 storable_day)
  then have ok: "stored_ok ?d" using canonical_to_row [OF t] by (simp add: stored_ok_def)
  obtain as d' where g: "GetAlerts (\<lambda>n. False) sample_jd 0 0 7 [3] ?d = (Some as, d')"
    by (simp add: GetAlerts_def queryReservations_def exec_def Let_def)
  have "EndTime (read_row ?row) = Day" "Status (read_row ?row) = []"
    using read_formatTime [OF storable_day]
    by (simp_all add: to_row_def sample_res_def zero_reservation_def)
      (simp add: truncate_second_def Day_def nano_def)
  then have "due 0 7 (read_row ?row)" by (simp add: due_def Day_def inactive_statuses_def)
  moreover have "mset (map aRes as) = mset (filter (due 0 7) (map read_row (dbRes ?d)))"
    using get_alerts_exact [OF sample_jd ok _ _ _ _ g] by simp
  ultimately have "mset (map aRes as) = {#read_row ?row#}" by simp
  then have "map aRes as = [read_row ?row]" by (simp only: mset_single_iff)
  with g show ?thesis by (intro exI [of _ as] exI [of _ d'] conjI)
qed

section \<open>Removing what is no longer configured\<close>

text \<open>
  Pruning never removes a row of an account that is still configured, and never
  touches the notification log. An empty list removes nothing, and so does a list too long for a
  query, with an error; otherwise, when no statement fails, exactly the rows of the listed
  accounts are left in both tables and the result counts the rest.
\<close>

theorem prune_accounts_exact:
  assumes "PruneAccounts faults keep d = ((n, ok), d')"
  shows "filter (\<lambda>row. AccountID (rrData row) \<in> set keep) (dbRes d') =
      filter (\<lambda>row. AccountID (rrData row) \<in> set keep) (dbRes d) \<and>
    filter (\<lambda>row. gAccountID (grData row) \<in> set keep) (dbGpu d') =
      filter (\<lambda>row. gAccountID (grData row) \<in> set keep) (dbGpu d) \<and>
    dbLog d' = dbLog d \<and>
    (keep = [] \<or> 900 < length keep \<longrightarrow> d' = d \<and> n = 0 \<and> (ok \<longleftrightarrow> keep = [])) \<and>
    (keep \<noteq> [] \<and> ok \<longrightarrow>
       (\<forall>row \<in> set (dbRes d'). AccountID (rrData row) \<in> set keep) \<and>
       (\<forall>row \<in> set (dbGpu d'). gAccountID (grData row) \<in> set keep) \<and>
       n = (length (dbRes d) - length (dbRes d')) + (length (dbGpu d) - length (dbGpu d')))"
  using assms
  by (simp add: PruneAccounts_def exec_def Let_def prune_res_stmt_def prune_gpu_stmt_def pruneMaxAccounts_def
      split: if_splits) (auto simp: prune_res_stmt_def prune_gpu_stmt_def)

lemma prune_accounts_exact_witness:
  "\<exists>n d'. PruneAccounts (\<lambda>n. False) [''1''] (sample_db\<lparr>dbRes := [to_row 0 (sample_res ''a'' ''1'' 5), to_row 0 (sample_res ''b'' ''2'' 5)]\<rparr>)
      = ((n, True), d') \<and> (\<forall>row \<in> set (dbRes d'). AccountID (rrData row) = ''1'')"
proof -
  let ?d = "sample_db\<lparr>dbRes := [to_row 0 (sample_res ''a'' ''1'' 5), to_row 0 (sample_res ''b'' ''2'' 5)]\<rparr>"
  obtain n d' where p: "PruneAccounts (\<lambda>n. False) [''1''] ?d = ((n, True), d')"
    by (simp add: PruneAccounts_def exec_def Let_def pruneMaxAccounts_def)
  from prune_accounts_exact [OF p] p show ?thesis by auto
qed

end
