(* ===== verification/Password.thy ===== *)
theory Password
  imports Prelude
begin

text \<open>
  Password hashing of \<^verbatim>\<open>auth/password.go\<close>, with the unpadded URL-safe base64 coding of
  Go's \<open>base64.RawURLEncoding\<close> it uses (also for session tokens). Byte strings are
  strings. PBKDF2 and the random source are parameters: \<open>kdf password salt iterations
  length\<close> is the result of \<open>pbkdf2.Key\<close>, and a read of \<open>crypto/rand\<close> is the bytes it
  returned, or \<open>None\<close> when it failed.
\<close>

section \<open>Base64\<close>

definition b64_alphabet :: string where
  "b64_alphabet = ''ABCDEFGHIJKLMNOPQRSTUVWXYZabcdefghijklmnopqrstuvwxyz0123456789-_''"

definition b64_char :: "nat \<Rightarrow> char" where
  "b64_char n = b64_alphabet ! n"

definition b64_val :: "char \<Rightarrow> nat option" where
  "b64_val c =
     (if 65 \<le> code c \<and> code c \<le> 90 then Some (code c - 65)
      else if 97 \<le> code c \<and> code c \<le> 122 then Some (code c - 71)
      else if 48 \<le> code c \<and> code c \<le> 57 then Some (code c + 4)
      else if c = CHR ''-'' then Some 62 else if c = CHR ''_'' then Some 63 else None)"

fun b64_groups :: "string \<Rightarrow> nat list" where
  "b64_groups [] = []"
| "b64_groups [a] = [code a div 4, code a mod 4 * 16]"
| "b64_groups [a, b] = [code a div 4, code a mod 4 * 16 + code b div 16, code b mod 16 * 4]"
| "b64_groups (a # b # c # r) =
     [code a div 4, code a mod 4 * 16 + code b div 16, code b mod 16 * 4 + code c div 64,
      code c mod 64] @ b64_groups r"

definition b64_encode :: "string \<Rightarrow> string" where
  "b64_encode s = map b64_char (b64_groups s)"

fun b64_bytes :: "nat list \<Rightarrow> string option" where
  "b64_bytes [] = Some []"
| "b64_bytes [w] = None"
| "b64_bytes [w, x] = Some [char_of (w * 4 + x div 16)]"
| "b64_bytes [w, x, y] =
     Some [char_of (w * 4 + x div 16), char_of (x mod 16 * 16 + y div 4)]"
| "b64_bytes (w # x # y # z # r) =
     map_option (\<lambda>s. [char_of (w * 4 + x div 16), char_of (x mod 16 * 16 + y div 4),
       char_of (y mod 4 * 64 + z)] @ s) (b64_bytes r)"

text \<open>The decoder skips line breaks and fails on any other character outside the alphabet.\<close>

definition b64_decode :: "string \<Rightarrow> string option" where
  "b64_decode s =
     Option.bind (those (map b64_val (filter (\<lambda>c. code c \<noteq> 10 \<and> code c \<noteq> 13) s))) b64_bytes"

lemma code_less_256 [simp]: "code c < 256"
  by (simp add: code_def)

lemma char_of_code [simp]: "char_of (code c) = c"
  by (simp add: code_def)

lemma b64_char_facts:
  "n < 64 \<Longrightarrow> b64_val (b64_char n) = Some n \<and> code (b64_char n) \<noteq> 10 \<and> code (b64_char n) \<noteq> 13
     \<and> b64_char n \<noteq> CHR ''$''"
proof -
  have "\<forall>n \<in> set [0..<64]. b64_val (b64_char n) = Some n \<and> code (b64_char n) \<noteq> 10 \<and>
      code (b64_char n) \<noteq> 13 \<and> b64_char n \<noteq> CHR ''$''"
    by code_simp
  then show "n < 64 \<Longrightarrow> ?thesis" by simp
qed

lemma b64_group_bounds:
  "a div 4 < 64" "a mod 4 * 16 + b div 16 < 64" "b mod 16 * 4 + c div 64 < 64"
  if "a < 256" "b < 256" "c < 256" for a b c :: nat
proof -
  have "b div 16 < 16" "c div 64 < 4" "a mod 4 < 4" "b mod 16 < 16" using that by auto
  then show "a mod 4 * 16 + b div 16 < 64" "b mod 16 * 4 + c div 64 < 64" by linarith+
  show "a div 4 < 64" using that by auto
qed

lemma b64_groups_range: "v \<in> set (b64_groups s) \<Longrightarrow> v < 64"
proof (induction s rule: b64_groups.induct)
  case (2 a)
  then show ?case using b64_group_bounds [where a = "code a" and b = 0 and c = 0] by auto
next
  case (3 a b)
  then show ?case
    using b64_group_bounds [where a = "code a" and b = "code b" and c = 0] by auto
next
  case (4 a b c r)
  then show ?case
    using b64_group_bounds(1,2,3) [OF code_less_256 [of a] code_less_256 [of b] code_less_256 [of c]]
    by auto
qed simp

lemma b64_byte_split:
  fixes a b c :: nat
  assumes "b < 256" "c < 256"
  shows "a div 4 * 4 + (a mod 4 * 16 + b div 16) div 16 = a"
    and "(a mod 4 * 16 + b div 16) mod 16 * 16 + (b mod 16 * 4 + c div 64) div 4 = b"
    and "(b mod 16 * 4 + c div 64) mod 4 * 64 + c mod 64 = c"
proof -
  have "b div 16 < 16" "c div 64 < 4" using assms by auto
  then show "a div 4 * 4 + (a mod 4 * 16 + b div 16) div 16 = a"
    "(a mod 4 * 16 + b div 16) mod 16 * 16 + (b mod 16 * 4 + c div 64) div 4 = b"
    "(b mod 16 * 4 + c div 64) mod 4 * 64 + c mod 64 = c" by simp_all
qed

lemma b64_bytes_groups: "b64_bytes (b64_groups s) = Some s"
proof (induction s rule: b64_groups.induct)
  case (2 a)
  show ?case using b64_byte_split(1) [where a = "code a" and b = 0 and c = 0] by simp
next
  case (3 a b)
  show ?case
    using b64_byte_split(1) [where a = "code a" and b = "code b" and c = 0]
      b64_byte_split(2) [where a = "code a" and b = "code b" and c = 0] by simp
next
  case (4 a b c r)
  then show ?case
    using b64_byte_split(1,2) [where a = "code a" and b = "code b" and c = "code c"]
      b64_byte_split(3) [where b = "code b" and c = "code c"] by simp
qed simp

lemma those_b64_val: "\<forall>v \<in> set vs. v < 64 \<Longrightarrow> those (map b64_val (map b64_char vs)) = Some vs"
  by (induction vs) (auto simp: b64_char_facts)

theorem b64_decode_encode: "b64_decode (b64_encode s) = Some s"
proof -
  have "filter (\<lambda>c. code c \<noteq> 10 \<and> code c \<noteq> 13) (b64_encode s) = b64_encode s"
    using b64_groups_range b64_char_facts
    by (auto simp: b64_encode_def filter_id_conv)
  then show ?thesis
    using those_b64_val [of "b64_groups s"] b64_groups_range
    by (simp add: b64_decode_def b64_encode_def b64_bytes_groups)
qed

lemma b64_encode_inject: "b64_encode s = b64_encode t \<longleftrightarrow> s = t"
  by (metis b64_decode_encode option.inject)

lemma b64_encode_no_dollar: "CHR ''$'' \<notin> set (b64_encode s)"
  using b64_groups_range b64_char_facts by (fastforce simp: b64_encode_def)

lemma b64_encode_empty [simp]: "b64_encode s = [] \<longleftrightarrow> s = []"
  by (cases s rule: b64_groups.cases) (simp_all add: b64_encode_def)

section \<open>Hashing and verifying\<close>

type_synonym kdf = "string \<Rightarrow> string \<Rightarrow> int \<Rightarrow> nat \<Rightarrow> string option"

datatype password_error =
  MalformedHash nat | UnsupportedAlgorithm string | MalformedIterations string
  | TooFewIterations int | MalformedSalt | MalformedKey | EmptyKey | KeyDerivationFailed
  | EmptyPassword | RandomFailed

definition hashAlgo :: string where "hashAlgo = ''pbkdf2-sha256''"
definition DefaultIterations :: int where "DefaultIterations = 600000"
definition keyLen :: nat where "keyLen = 32"
definition minIterations :: int where "minIterations = 10000"

abbreviation "dollar \<equiv> CHR ''$''"

definition hashPasswordWithIterations ::
  "kdf \<Rightarrow> string option \<Rightarrow> string \<Rightarrow> int \<Rightarrow> password_error + string" where
  "hashPasswordWithIterations kdf rnd password iter =
     (if password = [] then Inl EmptyPassword
      else case rnd of
        None \<Rightarrow> Inl RandomFailed
      | Some salt \<Rightarrow>
          (case kdf password salt iter keyLen of
             None \<Rightarrow> Inl KeyDerivationFailed
           | Some dk \<Rightarrow>
               Inr (hashAlgo @ [dollar] @ itoa iter @ [dollar] @ b64_encode salt @ [dollar] @
                 b64_encode dk)))"

definition HashPassword :: "kdf \<Rightarrow> string option \<Rightarrow> string \<Rightarrow> password_error + string" where
  "HashPassword kdf rnd password = hashPasswordWithIterations kdf rnd password DefaultIterations"

definition VerifyPassword :: "kdf \<Rightarrow> string \<Rightarrow> string \<Rightarrow> password_error + bool" where
  "VerifyPassword kdf encoded password =
     (case split_on dollar encoded of
        [algo, its, s, k] \<Rightarrow>
          if algo \<noteq> hashAlgo then Inl (UnsupportedAlgorithm algo)
          else case atoi its of
            None \<Rightarrow> Inl (MalformedIterations its)
          | Some iter \<Rightarrow>
              if iter < minIterations then Inl (TooFewIterations iter)
              else case b64_decode s of
                None \<Rightarrow> Inl MalformedSalt
              | Some salt \<Rightarrow>
                  (case b64_decode k of
                     None \<Rightarrow> Inl MalformedKey
                   | Some want \<Rightarrow>
                       if want = [] then Inl EmptyKey
                       else case kdf password salt iter (length want) of
                         None \<Rightarrow> Inl KeyDerivationFailed
                       | Some got \<Rightarrow> Inr (got = want))
      | parts \<Rightarrow> Inl (MalformedHash (length parts)))"

definition hashIterations :: "string \<Rightarrow> password_error + int" where
  "hashIterations encoded =
     (case split_on dollar encoded of
        [algo, its, s, k] \<Rightarrow>
          (case atoi its of None \<Rightarrow> Inl (MalformedIterations its) | Some iter \<Rightarrow> Inr iter)
      | parts \<Rightarrow> Inl (MalformedHash (length parts)))"

definition ValidateHash :: "kdf \<Rightarrow> string \<Rightarrow> password_error option" where
  "ValidateHash kdf encoded =
     (case VerifyPassword kdf encoded [] of Inl e \<Rightarrow> Some e | Inr _ \<Rightarrow> None)"

text \<open>\<open>pbkdf2.Key\<close> returns a key of the length asked for.\<close>

definition kdf_length :: "kdf \<Rightarrow> bool" where
  "kdf_length kdf \<longleftrightarrow> (\<forall>p s i n k. kdf p s i n = Some k \<longrightarrow> length k = n)"

lemma itoa_no_dollar: "dollar \<notin> set (itoa i)"
proof
  assume "dollar \<in> set (itoa i)"
  then obtain n where "dollar \<in> set (nat_digits n)" by (auto simp: itoa_def split: if_splits)
  then have "48 \<le> code dollar" using nat_digits_digits by blast
  then show False by (simp add: code_def)
qed

lemma split_hash:
  "split_on dollar (hashAlgo @ [dollar] @ itoa iter @ [dollar] @ b64_encode s @ [dollar] @
     b64_encode k) = [hashAlgo, itoa iter, b64_encode s, b64_encode k]"
  using itoa_no_dollar [of iter] b64_encode_no_dollar [of s] b64_encode_no_dollar [of k]
    split_on_append [of dollar hashAlgo]
  by (simp add: split_on_append split_on_single hashAlgo_def)

lemma hash_result:
  assumes "hashPasswordWithIterations kdf rnd password iter = Inr enc"
  obtains salt dk where "rnd = Some salt" "kdf password salt iter keyLen = Some dk"
    "password \<noteq> []"
    "split_on dollar enc = [hashAlgo, itoa iter, b64_encode salt, b64_encode dk]"
proof -
  from assms obtain salt dk where sd: "rnd = Some salt" "kdf password salt iter keyLen = Some dk"
    "password \<noteq> []"
    and enc: "enc = hashAlgo @ [dollar] @ itoa iter @ [dollar] @ b64_encode salt @ [dollar] @
      b64_encode dk"
    by (auto simp: hashPasswordWithIterations_def split: if_splits option.splits)
  have "split_on dollar enc = [hashAlgo, itoa iter, b64_encode salt, b64_encode dk]"
    unfolding enc by (rule split_hash)
  with sd show ?thesis by (rule that)
qed

lemma verify_hashed:
  assumes "kdf_length kdf"
    and "hashPasswordWithIterations kdf (Some salt) password iter = Inr enc"
    and "minIterations \<le> iter" and "iter < 2 ^ 63"
    and "kdf other salt iter keyLen = Some key"
  shows "VerifyPassword kdf enc other = Inr (kdf password salt iter keyLen = Some key) \<and>
    VerifyPassword kdf enc password = Inr True"
proof -
  from assms(2) obtain dk where dk: "kdf password salt iter keyLen = Some dk"
    "split_on dollar enc = [hashAlgo, itoa iter, b64_encode salt, b64_encode dk]"
    by (auto elim: hash_result)
  have len: "length dk = 32" using assms(1) dk(1) by (simp add: kdf_length_def keyLen_def)
  have "atoi (itoa iter) = Some iter" using assms(3,4) by (intro atoi_itoa) (auto simp: minIterations_def)
  with len dk assms(3,5) show ?thesis
    by (auto simp: VerifyPassword_def b64_decode_encode keyLen_def)
qed

text \<open>
  Hash and verify round trip. Verifying a password against a hash made by
  \<open>hashPasswordWithIterations\<close> compares the derived keys under the stored salt and
  iteration count: it never fails as malformed, it accepts the original password, and it
  accepts another one exactly when PBKDF2 maps both to the same key.
\<close>

theorem verify_hashed_password:
  assumes "kdf_length kdf"
    and "hashPasswordWithIterations kdf (Some salt) password iter = Inr enc"
    and "minIterations \<le> iter" and "iter < 2 ^ 63"
    and "kdf other salt iter keyLen = Some key"
  shows "VerifyPassword kdf enc other = Inr (kdf password salt iter keyLen = Some key) \<and>
    VerifyPassword kdf enc password = Inr True"
  by (rule verify_hashed [OF assms])

lemma verify_hashed_password_witness:
  "\<exists>enc. hashPasswordWithIterations (\<lambda>p s i n. Some (replicate n (hd p))) (Some ''salt'') ''pw'' 20000
      = Inr enc \<and>
    VerifyPassword (\<lambda>p s i n. Some (replicate n (hd p))) enc ''no'' = Inr False"
proof -
  let ?kdf = "\<lambda>p s i n. Some (replicate n (hd p)) :: string option"
  obtain enc where enc: "hashPasswordWithIterations ?kdf (Some ''salt'') ''pw'' 20000 = Inr enc"
    by (simp add: hashPasswordWithIterations_def)
  have "kdf_length ?kdf" by (simp add: kdf_length_def)
  from verify_hashed_password [OF this enc, of "''no''" "replicate 32 (CHR ''n'')"]
  have "VerifyPassword ?kdf enc ''no'' = Inr False" by (simp add: minIterations_def keyLen_def)
  with enc show ?thesis by blast
qed

lemma hash_iterations_hashed:
  assumes "hashPasswordWithIterations kdf rnd password iter = Inr enc"
    and "- (2 ^ 63) \<le> iter" "iter < 2 ^ 63"
  shows "hashIterations enc = Inr iter"
  using assms atoi_itoa [of iter] by (auto elim!: hash_result simp: hashIterations_def)

lemma validate_hash_iterations:
  "ValidateHash kdf enc = None \<Longrightarrow> \<exists>iter \<ge> minIterations. iter < 2 ^ 63 \<and> hashIterations enc = Inr iter"
proof -
  have "atoi s = Some i \<Longrightarrow> i < 2 ^ 63" for s i
    by (auto simp: atoi_def Let_def split: list.splits if_splits option.splits prod.splits)
  then show "ValidateHash kdf enc = None \<Longrightarrow>
      \<exists>iter \<ge> minIterations. iter < 2 ^ 63 \<and> hashIterations enc = Inr iter"
    by (fastforce simp: ValidateHash_def VerifyPassword_def hashIterations_def
        split: list.splits option.splits if_splits sum.splits)
qed

end
