(* ===== verification/Authenticator.thy ===== *)
theory Authenticator
  imports Password
begin

text \<open>
  The static user list of \<^verbatim>\<open>auth/authenticator.go\<close>. The users map is a list of entries with
  distinct keys (lowercased trimmed usernames). The reads of the random source are a
  function \<open>rnd\<close> from the number of the read to its result. The theorems say when a
  configuration is accepted, that \<open>Verify\<close> accepts exactly the configured credentials,
  and that the dummy hash for unknown users costs what the cheapest configured user costs.
\<close>

record User =
  Username :: string
  PasswordHash :: string
  Password :: string

record userEntry =
  username :: string
  hash :: string

record Authenticator =
  users :: "(string \<times> userEntry) list"
  dummyHash :: string

datatype auth_error =
  UsernameRequired nat | DuplicateUsername nat string | InvalidHash nat string password_error
  | HashingFailed nat string password_error | NoCredential nat string | NoUsers
  | DummyFailed password_error

definition user_key :: "string \<Rightarrow> string" where
  "user_key name = to_lower (trim_space name)"

text \<open>The hash a user is stored with; the number of random reads made so far goes along.\<close>

definition user_hash ::
  "kdf \<Rightarrow> (nat \<Rightarrow> string option) \<Rightarrow> nat \<Rightarrow> nat \<Rightarrow> User \<Rightarrow> auth_error + string \<times> nat" where
  "user_hash kdf rnd i reads u =
     (if PasswordHash u \<noteq> []
      then (case ValidateHash kdf (PasswordHash u) of
              Some e \<Rightarrow> Inl (InvalidHash i (trim_space (Username u)) e)
            | None \<Rightarrow> Inr (PasswordHash u, reads))
      else if Password u \<noteq> []
      then (case HashPassword kdf (rnd reads) (Password u) of
              Inl e \<Rightarrow> Inl (HashingFailed i (trim_space (Username u)) e)
            | Inr h \<Rightarrow> Inr (h, Suc reads))
      else Inl (NoCredential i (trim_space (Username u))))"

definition min_iter :: "int \<Rightarrow> string \<Rightarrow> int" where
  "min_iter minIter h =
     (case hashIterations h of
        Inr iter \<Rightarrow> if minIter = 0 \<or> iter < minIter then iter else minIter
      | Inl _ \<Rightarrow> minIter)"

text \<open>The loop over the configured users, from index \<open>i\<close> on.\<close>

fun add_users ::
  "kdf \<Rightarrow> (nat \<Rightarrow> string option) \<Rightarrow> nat \<Rightarrow> nat \<Rightarrow> (string \<times> userEntry) list \<Rightarrow> int \<Rightarrow> User list
   \<Rightarrow> auth_error + (string \<times> userEntry) list \<times> int \<times> nat" where
  "add_users kdf rnd i reads m minIter [] = Inr (m, minIter, reads)"
| "add_users kdf rnd i reads m minIter (u # us) =
     (let name = trim_space (Username u); key = to_lower name
      in if name = [] then Inl (UsernameRequired i)
         else if find_key fst key m \<noteq> None then Inl (DuplicateUsername i name)
         else case user_hash kdf rnd i reads u of
                Inl e \<Rightarrow> Inl e
              | Inr (h, reads') \<Rightarrow>
                  add_users kdf rnd (Suc i) reads' (m @ [(key, \<lparr>username = name, hash = h\<rparr>)])
                    (min_iter minIter h) us)"

definition NewAuthenticator ::
  "kdf \<Rightarrow> (nat \<Rightarrow> string option) \<Rightarrow> User list \<Rightarrow> auth_error + Authenticator" where
  "NewAuthenticator kdf rnd us =
     (case add_users kdf rnd 0 0 [] 0 us of
        Inl e \<Rightarrow> Inl e
      | Inr (m, minIter, reads) \<Rightarrow>
          if m = [] then Inl NoUsers
          else (case hashPasswordWithIterations kdf (rnd reads) ''smartrenew-dummy-password''
                       (if minIter = 0 then DefaultIterations else minIter) of
                  Inl e \<Rightarrow> Inl (DummyFailed e)
                | Inr dummy \<Rightarrow> Inr \<lparr>users = m, dummyHash = dummy\<rparr>))"

definition Verify :: "kdf \<Rightarrow> Authenticator \<Rightarrow> string \<Rightarrow> string \<Rightarrow> string \<times> bool" where
  "Verify kdf a name password =
     (case find_key fst (user_key name) (users a) of
        None \<Rightarrow> (let burn = VerifyPassword kdf (dummyHash a) password in ([], False))
      | Some (_, entry) \<Rightarrow>
          (case VerifyPassword kdf (hash entry) password of
             Inr True \<Rightarrow> (username entry, True)
           | _ \<Rightarrow> ([], False)))"

definition Usernames :: "Authenticator \<Rightarrow> string list" where
  "Usernames a = map (\<lambda>(_, e). username e) (users a)"

section \<open>What the loop builds\<close>

text \<open>
  \<open>stored kdf u h\<close>: \<open>h\<close> is a hash that user \<open>u\<close> may be stored with, the configured one or
  a fresh one of the plaintext password.
\<close>

definition stored :: "kdf \<Rightarrow> User \<Rightarrow> string \<Rightarrow> bool" where
  "stored kdf u h \<longleftrightarrow>
     (if PasswordHash u \<noteq> [] then h = PasswordHash u \<and> ValidateHash kdf h = None
      else \<exists>salt. HashPassword kdf salt (Password u) = Inr h)"

definition entry_of :: "kdf \<Rightarrow> User \<Rightarrow> string \<times> userEntry \<Rightarrow> bool" where
  "entry_of kdf u e \<longleftrightarrow>
     fst e = user_key (Username u) \<and> username (snd e) = trim_space (Username u) \<and>
     stored kdf u (hash (snd e))"

lemma user_hash_stored: "user_hash kdf rnd i reads u = Inr (h, reads') \<Longrightarrow> stored kdf u h"
  by (auto simp: user_hash_def stored_def split: if_splits option.splits sum.splits)

lemma add_users_entries:
  "add_users kdf rnd i reads m k us = Inr (m', k', reads') \<Longrightarrow> distinct (map fst m) \<Longrightarrow>
   distinct (map fst m') \<and>
   (\<exists>es. m' = m @ es \<and> list_all2 (entry_of kdf) us es \<and>
      k' = foldl min_iter k (map (hash \<circ> snd) es))"
proof (induction us arbitrary: i reads m k)
  case Nil
  then show ?case by auto
next
  case (Cons u us)
  let ?key = "user_key (Username u)" and ?name = "trim_space (Username u)"
  from Cons.prems(1) obtain h reads1 where h: "user_hash kdf rnd i reads u = Inr (h, reads1)"
    and new: "find_key fst ?key m = None"
    and rest: "add_users kdf rnd (Suc i) reads1 (m @ [(?key, \<lparr>username = ?name, hash = h\<rparr>)])
      (min_iter k h) us = Inr (m', k', reads')"
    by (auto simp: Let_def user_key_def simp del: not_None_eq split: if_splits sum.splits prod.splits)
  have "distinct (map fst (m @ [(?key, \<lparr>username = ?name, hash = h\<rparr>)]))"
    using new Cons.prems(2) by (auto simp: find_key_None)
  note IH = Cons.IH [OF rest this]
  then obtain es where
    "m' = (m @ [(?key, \<lparr>username = ?name, hash = h\<rparr>)]) @ es"
    "list_all2 (entry_of kdf) us es" "k' = foldl min_iter (min_iter k h) (map (hash \<circ> snd) es)"
    by blast
  moreover note IH [THEN conjunct1]
  moreover have "entry_of kdf u (?key, \<lparr>username = ?name, hash = h\<rparr>)"
    using user_hash_stored [OF h] by (simp add: entry_of_def)
  ultimately show ?case
    by (intro conjI exI [of _ "(?key, \<lparr>username = ?name, hash = h\<rparr>) # es"]) (simp_all add: comp_def)
qed

lemma new_authenticator_entries:
  assumes "NewAuthenticator kdf rnd us = Inr a"
  shows "distinct (map fst (users a))" "list_all2 (entry_of kdf) us (users a)" "us \<noteq> []"
    "\<exists>salt. hashPasswordWithIterations kdf salt ''smartrenew-dummy-password''
       (let k = foldl min_iter 0 (map (hash \<circ> snd) (users a))
        in if k = 0 then DefaultIterations else k) = Inr (dummyHash a)"
proof -
  from assms obtain m k reads where m: "add_users kdf rnd 0 0 [] 0 us = Inr (m, k, reads)"
    "m \<noteq> []" "users a = m"
    "hashPasswordWithIterations kdf (rnd reads) ''smartrenew-dummy-password''
       (if k = 0 then DefaultIterations else k) = Inr (dummyHash a)"
    by (auto simp: NewAuthenticator_def split: sum.splits prod.splits if_splits)
  from add_users_entries [OF m(1)] have "distinct (map fst m)" "list_all2 (entry_of kdf) us m"
    "k = foldl min_iter 0 (map (hash \<circ> snd) m)" by auto
  with m show "distinct (map fst (users a))" "list_all2 (entry_of kdf) us (users a)" "us \<noteq> []"
    "\<exists>salt. hashPasswordWithIterations kdf salt ''smartrenew-dummy-password''
       (let k = foldl min_iter 0 (map (hash \<circ> snd) (users a))
        in if k = 0 then DefaultIterations else k) = Inr (dummyHash a)"
    by (auto simp: Let_def)
qed

text \<open>
  C20. \<open>Verify\<close> is sound and complete for the configuration it was built from: it accepts
  a name and a password, returning the canonical username, exactly when some configured
  user has that name up to case and surrounding blanks and a stored hash (the configured
  one, or the one made from the plaintext at startup) verifies the password.
\<close>

theorem verify_iff:
  assumes "NewAuthenticator kdf rnd us = Inr a"
  shows "Verify kdf a name password = (canonical, True) \<longleftrightarrow>
    (\<exists>u e. u \<in> set us \<and> e \<in> set (users a) \<and> entry_of kdf u e \<and>
       user_key (Username u) = user_key name \<and> canonical = trim_space (Username u) \<and>
       VerifyPassword kdf (hash (snd e)) password = Inr True)"
    (is "?L \<longleftrightarrow> ?R")
proof
  assume ?L
  then obtain k entry where e: "find_key fst (user_key name) (users a) = Some (k, entry)"
    "VerifyPassword kdf (hash entry) password = Inr True" "canonical = username entry"
    by (auto simp: Verify_def split: option.splits sum.splits bool.splits)
  then have mem: "(k, entry) \<in> set (users a)" "k = user_key name" using find_key_Some by force+
  with new_authenticator_entries(2) [OF assms] obtain u where "u \<in> set us" "entry_of kdf u (k, entry)"
    by (metis in_set_conv_nth list_all2_conv_all_nth)
  with e mem show ?R by (auto simp: entry_of_def intro!: exI [of _ u])
next
  assume ?R
  then obtain u e where e: "e \<in> set (users a)" "entry_of kdf u e"
    "user_key (Username u) = user_key name" "canonical = trim_space (Username u)"
    "VerifyPassword kdf (hash (snd e)) password = Inr True" by blast
  then have "find_key fst (user_key name) (users a) = Some e"
    using find_key_mem [OF new_authenticator_entries(1) [OF assms] e(1)] by (simp add: entry_of_def)
  moreover obtain k entry where "e = (k, entry)" by (cases e)
  ultimately show ?L using e by (simp add: Verify_def entry_of_def)
qed

lemma verify_iff_witness:
  "\<exists>a. NewAuthenticator (\<lambda>p s i n. Some (replicate n (if p = ''pw'' then CHR ''k'' else CHR ''x'')))
        (\<lambda>_. Some ''salt'') [\<lparr>Username = '' Admin'', PasswordHash = [], Password = ''pw''\<rparr>] = Inr a \<and>
     fst (Verify (\<lambda>p s i n. Some (replicate n (if p = ''pw'' then CHR ''k'' else CHR ''x''))) a
       ''ADMIN'' ''pw'') = ''Admin''"
proof -
  let ?kdf = "\<lambda>p s i n. Some (replicate n (if p = ''pw'' then CHR ''k'' else CHR ''x'')) :: string option"
  let ?u = "\<lparr>Username = '' Admin'', PasswordHash = [], Password = ''pw''\<rparr>"
  have len: "kdf_length ?kdf" by (simp add: kdf_length_def)
  obtain h where h: "HashPassword ?kdf (Some ''salt'') ''pw'' = Inr h"
    by (simp add: HashPassword_def hashPasswordWithIterations_def)
  have ok: "VerifyPassword ?kdf h ''pw'' = Inr True"
    using verify_hashed [OF len, of "''salt''" "''pw''" DefaultIterations h "''pw''"] h
    by (simp add: HashPassword_def DefaultIterations_def minIterations_def)
  have names: "trim_space '' Admin'' = ''Admin''" "user_key '' Admin'' = ''admin''"
    "user_key ''ADMIN'' = ''admin''" "to_lower ''Admin'' = ''admin''" by code_simp+
  obtain dummy k where d: "min_iter 0 h = k" and
    "hashPasswordWithIterations ?kdf (Some ''salt'') ''smartrenew-dummy-password''
       (if k = 0 then DefaultIterations else k) = Inr dummy"
    by (simp add: hashPasswordWithIterations_def)
  then have a: "NewAuthenticator ?kdf (\<lambda>_. Some ''salt'') [?u] =
      Inr \<lparr>users = [(''admin'', \<lparr>username = ''Admin'', hash = h\<rparr>)], dummyHash = dummy\<rparr>"
    using h by (simp add: NewAuthenticator_def user_hash_def Let_def names)
  have "Verify ?kdf \<lparr>users = [(''admin'', \<lparr>username = ''Admin'', hash = h\<rparr>)], dummyHash = dummy\<rparr>
      ''ADMIN'' ''pw'' = (''Admin'', True)"
    using h ok names by (subst verify_iff [OF a]) (auto simp: entry_of_def stored_def)
  with a show ?thesis by auto
qed

section \<open>The dummy hash\<close>

lemma stored_iterations:
  assumes "stored kdf u h"
  shows "\<exists>iter. hashIterations h = Inr iter \<and> minIterations \<le> iter \<and> iter < 2 ^ 63"
proof (cases "PasswordHash u = []")
  case True
  with assms obtain salt where "HashPassword kdf salt (Password u) = Inr h" by (auto simp: stored_def)
  then have "hashIterations h = Inr DefaultIterations"
    by (auto simp: HashPassword_def DefaultIterations_def intro!: hash_iterations_hashed)
  then show ?thesis by (simp add: DefaultIterations_def minIterations_def)
next
  case False
  with assms validate_hash_iterations [of kdf h] show ?thesis by (auto simp: stored_def)
qed

lemma foldl_min_iter:
  assumes "\<forall>h \<in> set hs. \<exists>i. hashIterations h = Inr i \<and> 0 < i" "0 \<le> k"
  shows "foldl min_iter k hs =
    (if k = 0 \<and> hs = [] then 0
     else Min ((if k = 0 then {} else {k}) \<union> {i. \<exists>h \<in> set hs. hashIterations h = Inr i}))"
  using assms
proof (induction hs arbitrary: k)
  case Nil
  then show ?case by simp
next
  case (Cons h hs)
  obtain i where i: "hashIterations h = Inr i" "0 < i" using Cons.prems(1) by auto
  let ?S = "{i. \<exists>h \<in> set hs. hashIterations h = Inr i}"
  define k' where "k' = (if k = 0 \<or> i < k then i else k)"
  have "?S \<subseteq> (\<lambda>h. projr (hashIterations h)) ` set hs" by force
  then have fin: "finite ?S" by (rule finite_subset) simp
  have eq: "{i. \<exists>h \<in> set (h # hs). hashIterations h = Inr i} = insert i ?S" using i by auto
  have "0 < k'" using i Cons.prems(2) by (auto simp: k'_def)
  moreover have "foldl min_iter k (h # hs) = foldl min_iter k' hs"
    using i by (simp add: min_iter_def k'_def)
  ultimately have "foldl min_iter k (h # hs) = Min (insert k' ?S)"
    using Cons.IH [of k'] Cons.prems by simp
  also have "\<dots> = Min ((if k = 0 then {} else {k}) \<union> insert i ?S)"
  proof (cases "k = 0")
    case False
    then have km: "k' = min k i" by (auto simp: k'_def)
    from False fin show ?thesis
      unfolding km by (cases "?S = {}") (simp_all only:, simp_all add: min.assoc)
  qed (simp add: k'_def)
  finally show ?case unfolding eq by simp
qed

text \<open>
  No user enumeration by timing: the dummy hash that is verified for an unknown name
  carries the smallest iteration count among the stored hashes of the configured users,
  so it derives a key at the same cost.
\<close>

theorem dummy_hash_iterations:
  assumes "NewAuthenticator kdf rnd us = Inr a"
  shows "hashIterations (dummyHash a) =
    Inr (Min {i. \<exists>e \<in> set (users a). hashIterations (hash (snd e)) = Inr i})"
proof -
  note entries = new_authenticator_entries [OF assms]
  let ?hs = "map (hash \<circ> snd) (users a)"
  let ?S = "{i. \<exists>h \<in> set ?hs. hashIterations h = Inr i}"
  have st: "\<exists>i. hashIterations h = Inr i \<and> minIterations \<le> i \<and> i < 2 ^ 63" if "h \<in> set ?hs" for h
  proof -
    from that obtain e where e: "e \<in> set (users a)" "h = hash (snd e)" by auto
    with entries(2) obtain u where "entry_of kdf u e"
      by (metis in_set_conv_nth list_all2_conv_all_nth)
    then have "stored kdf u h" using e by (simp add: entry_of_def)
    then show ?thesis by (rule stored_iterations)
  qed
  have ne: "?hs \<noteq> []" using entries(2,3) by auto
  have "\<exists>i. hashIterations h = Inr i \<and> 0 < i" if "h \<in> set ?hs" for h
    using st [OF that] by (auto simp: minIterations_def)
  then have "foldl min_iter 0 ?hs = Min ?S"
    using foldl_min_iter [of ?hs 0] ne by (simp only: order_refl) simp
  moreover have "Min ?S \<in> ?S"
  proof (rule Min_in)
    have "?S \<subseteq> (\<lambda>h. projr (hashIterations h)) ` set ?hs" by force
    then show "finite ?S" by (rule finite_subset) simp
    from ne obtain h where h: "h \<in> set ?hs" by (cases ?hs) auto
    with st [OF h] show "?S \<noteq> {}" by blast
  qed
  then obtain h where "h \<in> set ?hs" "hashIterations h = Inr (Min ?S)" by blast
  with st [of h] have range: "minIterations \<le> Min ?S" "Min ?S < 2 ^ 63" by auto
  ultimately obtain salt where "hashPasswordWithIterations kdf salt ''smartrenew-dummy-password''
      (Min ?S) = Inr (dummyHash a)"
    using entries(4) by (auto simp: Let_def minIterations_def)
  from hash_iterations_hashed [OF this] range show ?thesis
    by (auto simp: minIterations_def)
qed

lemma dummy_hash_iterations_witness:
  "\<exists>a. NewAuthenticator (\<lambda>p s i n. Some (replicate n (CHR ''k''))) (\<lambda>_. Some ''salt'')
      [\<lparr>Username = ''ops'', PasswordHash = [], Password = ''pw''\<rparr>] = Inr a \<and>
    hashIterations (dummyHash a) = Inr (Min {i. \<exists>e \<in> set (users a). hashIterations (hash (snd e)) = Inr i})"
proof -
  let ?kdf = "\<lambda>p s i n. Some (replicate n (CHR ''k'')) :: string option"
  have "trim_space ''ops'' = ''ops''" by code_simp
  then obtain a where a: "NewAuthenticator ?kdf (\<lambda>_. Some ''salt'')
      [\<lparr>Username = ''ops'', PasswordHash = [], Password = ''pw''\<rparr>] = Inr a"
    by (simp add: NewAuthenticator_def user_hash_def Let_def HashPassword_def
        hashPasswordWithIterations_def)
  from a dummy_hash_iterations [OF a] show ?thesis by blast
qed

end
