(* ===== verification/Config.thy ===== *)
theory Config
  imports Authenticator GoTime
begin

text \<open>
  The configuration of \<^verbatim>\<open>config/config.go\<close> and \<^verbatim>\<open>config/resolve.go\<close>: the parsing of durations
  with their defaults, the validation, and the filling in of credentials and account ids.
  Environment variables are a function \<open>env\<close> (\<open>Getenv\<close>, empty if unset), the credential
  service is a function \<open>resolve\<close>. Reading the files and decoding JSON are not modelled. The fraction of
  a duration is computed exactly where the library uses \<open>float64\<close>.
\<close>

section \<open>Durations\<close>

text \<open>\<open>time.ParseDuration\<close>\<close>

definition is_digit :: "char \<Rightarrow> bool" where
  "is_digit c \<longleftrightarrow> digit_val c \<noteq> None"

definition digits_int :: "string \<Rightarrow> int" where
  "digits_int s = (case digits_val 0 s of Some n \<Rightarrow> int n | None \<Rightarrow> 0)"

text \<open>The digits after the point, until one more would overflow, and their scale.\<close>

fun leading_fraction :: "int \<Rightarrow> int \<Rightarrow> string \<Rightarrow> int \<times> int" where
  "leading_fraction x scale [] = (x, scale)"
| "leading_fraction x scale (c # cs) =
     (if x > (2 ^ 63 - 1) div 10 \<or> x * 10 + digits_int [c] > 2 ^ 63 then (x, scale)
      else leading_fraction (x * 10 + digits_int [c]) (scale * 10) cs)"

definition duration_unit :: "string \<Rightarrow> int option" where
  "duration_unit u =
     map_of [(''ns'', 1), (''us'', 1000), ([CHR 0xC2, CHR 0xB5, CHR ''s''], 1000),
       ([CHR 0xCE, CHR 0xBC, CHR ''s''], 1000), (''ms'', 1000000), (''s'', 1000000000),
       (''m'', 60 * 1000000000), (''h'', 3600 * 1000000000)] u"

text \<open>One number: its integer part, its fraction and scale, whether it has any digit, and the rest.\<close>

definition duration_number :: "string \<Rightarrow> int \<times> int \<times> int \<times> bool \<times> string" where
  "duration_number s =
     (let ds = takeWhile is_digit s; r = dropWhile is_digit s in
      case r of
        [] \<Rightarrow> (digits_int ds, 0, 1, ds \<noteq> [], [])
      | c # r1 \<Rightarrow>
          if c = CHR ''.'' then
            (let fs = takeWhile is_digit r1; (f, scale) = leading_fraction 0 1 fs
             in (digits_int ds, f, scale, ds \<noteq> [] \<or> fs \<noteq> [], dropWhile is_digit r1))
          else (digits_int ds, 0, 1, ds \<noteq> [], r))"

definition unit_char :: "char \<Rightarrow> bool" where
  "unit_char c \<longleftrightarrow> c \<noteq> CHR ''.'' \<and> \<not> is_digit c"

lemma duration_number_suffix: "length (snd (snd (snd (snd (duration_number s))))) \<le> length s"
proof -
  have le: "length (dropWhile is_digit xs) \<le> length xs" for xs :: string
    by (rule length_dropWhile_le)
  show ?thesis
  proof (cases "dropWhile is_digit s")
    case (Cons c r1)
    have "length (dropWhile is_digit r1) \<le> length s" using le [of s] le [of r1] Cons by simp
    then show ?thesis
      using Cons le [of s] by (simp add: duration_number_def Let_def split: prod.split)
  next
    case Nil
    show ?thesis unfolding duration_number_def Let_def Nil by simp
  qed
qed

lemma dropWhile_shorter: "takeWhile P xs \<noteq> [] \<Longrightarrow> length (dropWhile P xs) < length xs"
proof (cases xs)
  case (Cons x ys)
  assume "takeWhile P xs \<noteq> []"
  then show ?thesis using Cons length_dropWhile_le [of P ys] by (simp split: if_splits)
qed simp

lemma duration_step:
  assumes "(v, f, scale, b, r) = duration_number s" and "takeWhile unit_char r \<noteq> []"
  shows "length (dropWhile unit_char r) < length s"
proof -
  have "length r \<le> length s" using duration_number_suffix [of s] unfolding assms(1) [symmetric] by simp
  with dropWhile_shorter [OF assms(2)] show ?thesis by simp
qed

function parse_units :: "int \<Rightarrow> string \<Rightarrow> int option" where
  "parse_units d s =
     (if s = [] then Some d
      else if \<not> (hd s = CHR ''.'' \<or> is_digit (hd s)) then None
      else case duration_number s of (v, f, scale, some_digit, r) \<Rightarrow>
        if v > 2 ^ 63 \<or> \<not> some_digit then None
        else (let u = takeWhile unit_char r; r' = dropWhile unit_char r in
          if u = [] then None
          else case duration_unit u of
            None \<Rightarrow> None
          | Some unit \<Rightarrow>
              if v > 2 ^ 63 div unit then None
              else (let v' = v * unit + (if f > 0 then f * unit div scale else 0);
                        d' = (d + v') mod 2 ^ 64 in
                if v' > 2 ^ 63 \<or> d' > 2 ^ 63 then None else parse_units d' r')))"
  by pat_completeness auto

termination
proof (relation "measure (\<lambda>(d, s). length s)", goal_cases)
  case 2
  then show ?case by (simp only: prod.case in_measure) (metis duration_step)
qed simp

declare parse_units.simps [simp del]

definition ParseDuration :: "string \<Rightarrow> duration option" where
  "ParseDuration str =
     (let (neg, s) = (case str of
            [] \<Rightarrow> (False, [])
          | c # r \<Rightarrow> if c = CHR ''-'' then (True, r) else if c = CHR ''+'' then (False, r) else (False, str))
      in if s = ''0'' then Some 0
         else if s = [] then None
         else case parse_units 0 s of
           None \<Rightarrow> None
         | Some d \<Rightarrow> if neg then Some (- d) else if d > 2 ^ 63 - 1 then None else Some d)"

lemma parse_examples: "ParseDuration ''1h30m'' = Some (Hour + 30 * 60 * nano)"
  "ParseDuration ''-1.5s'' = Some (- 1500000000)" "ParseDuration ''6'' = None"
  by code_simp+


section \<open>The configuration\<close>

record account =
  acAlias :: string
  acAccountID :: string
  acAccessKey :: string
  acSecretKey :: string
  acRegions :: "string list"
  acSkipTypes :: "string list"
  acSNSOnly :: bool

fun skip_loop :: "string \<Rightarrow> string list \<Rightarrow> bool" where
  "skip_loop typeID [] = False"
| "skip_loop typeID (t # ts) = (if t = typeID then True else skip_loop typeID ts)"

definition ShouldSkip :: "account \<Rightarrow> string \<Rightarrow> bool" where
  "ShouldSkip a typeID = skip_loop typeID (acSkipTypes a)"

record notify_config =
  ncEnabled :: bool
  ncType :: string
  ncWebhookURL :: string
  ncTopicARN :: string
  ncRegion :: string
  ncAccountAlias :: string

text \<open>\<open>None\<close> is the \<open>nil\<close> of \<open>Enabled\<close>.\<close>

record auth_config =
  auEnabled :: "bool option"
  auUsers :: "User list"
  auUsersFile :: string
  auSessionTTL :: string
  auMaxLoginAttempts :: int
  auLockoutDuration :: string
  auCookieSecure :: bool

definition IsEnabled :: "auth_config option \<Rightarrow> bool" where
  "IsEnabled a =
     (case a of
        None \<Rightarrow> True
      | Some a \<Rightarrow> (case auEnabled a of None \<Rightarrow> True | Some b \<Rightarrow> b))"

definition duration_or :: "duration \<Rightarrow> string \<Rightarrow> duration" where
  "duration_or dflt s =
     (case ParseDuration s of Some d \<Rightarrow> if d > 0 then d else dflt | None \<Rightarrow> dflt)"

definition ParseSessionTTL :: "auth_config option \<Rightarrow> duration" where
  "ParseSessionTTL a =
     (case a of None \<Rightarrow> 12 * Hour | Some a \<Rightarrow> duration_or (12 * Hour) (auSessionTTL a))"

definition ParseLockoutDuration :: "auth_config option \<Rightarrow> duration" where
  "ParseLockoutDuration a =
     (case a of None \<Rightarrow> 15 * 60 * nano | Some a \<Rightarrow> duration_or (15 * 60 * nano) (auLockoutDuration a))"

definition MaxAttempts :: "auth_config option \<Rightarrow> int" where
  "MaxAttempts a =
     (case a of None \<Rightarrow> 5 | Some a \<Rightarrow> if auMaxLoginAttempts a > 0 then auMaxLoginAttempts a else 5)"

record config =
  cfAccounts :: "account list"
  cfAccountsFile :: string
  cfNotifiers :: "notify_config list"
  cfRemindDays :: "int list"
  cfSyncInterval :: string
  cfAlertInterval :: string
  cfListenAddr :: string
  cfDBPath :: string
  cfGPUCardCounts :: "(string \<times> int) list"
  cfAuth :: auth_config

definition DefaultConfig :: config where
  "DefaultConfig =
     \<lparr>cfAccounts = [], cfAccountsFile = [], cfNotifiers = [], cfRemindDays = [30, 14, 7, 3, 1],
      cfSyncInterval = ''6h'', cfAlertInterval = ''1h'', cfListenAddr = '':5000'',
      cfDBPath = ''/data/smartrenew.db'', cfGPUCardCounts = [],
      cfAuth = \<lparr>auEnabled = None, auUsers = [], auUsersFile = [], auSessionTTL = [],
        auMaxLoginAttempts = 0, auLockoutDuration = [], auCookieSecure = False\<rparr>\<rparr>"

fun max_loop :: "int \<Rightarrow> int list \<Rightarrow> int" where
  "max_loop largest [] = largest"
| "max_loop largest (d # ds) = max_loop (if d > largest then d else largest) ds"

definition MaxRemindDays :: "config \<Rightarrow> int" where
  "MaxRemindDays c = max_loop 30 (cfRemindDays c)"

definition ParseSyncInterval :: "config \<Rightarrow> duration" where
  "ParseSyncInterval c = duration_or (6 * Hour) (cfSyncInterval c)"

definition ParseAlertInterval :: "config \<Rightarrow> duration" where
  "ParseAlertInterval c = duration_or (1 * Hour) (cfAlertInterval c)"

section \<open>Validation\<close>

datatype config_error =
  NoAccounts
| AliasRequired nat
| KeysRequired nat string
| RegionRequired nat string
| WebhookRequired nat
| TopicRequired nat
| SNSRegionRequired nat
| RemindNotPositive int
| BadSyncInterval string
| BadAlertInterval string
| NoUsers
| BadSessionTTL string
| BadLockoutDuration string

fun validate_accounts :: "nat \<Rightarrow> account list \<Rightarrow> config_error option" where
  "validate_accounts i [] = None"
| "validate_accounts i (a # as) =
     (if acAlias a = [] then Some (AliasRequired i)
      else if acAccessKey a = [] \<or> acSecretKey a = [] then Some (KeysRequired i (acAlias a))
      else if acRegions a = [] then Some (RegionRequired i (acAlias a))
      else validate_accounts (Suc i) as)"

fun validate_notifiers :: "nat \<Rightarrow> notify_config list \<Rightarrow> config_error option" where
  "validate_notifiers i [] = None"
| "validate_notifiers i (n # ns) =
     (if \<not> ncEnabled n then validate_notifiers (Suc i) ns
      else if ncType n = ''lark'' \<and> ncWebhookURL n = [] then Some (WebhookRequired i)
      else if ncType n = ''sns'' \<and> ncTopicARN n = [] then Some (TopicRequired i)
      else if ncType n = ''sns'' \<and> ncRegion n = [] then Some (SNSRegionRequired i)
      else validate_notifiers (Suc i) ns)"

fun validate_remind :: "int list \<Rightarrow> config_error option" where
  "validate_remind [] = None"
| "validate_remind (d # ds) = (if d \<le> 0 then Some (RemindNotPositive d) else validate_remind ds)"

definition check_duration :: "(string \<Rightarrow> config_error) \<Rightarrow> string \<Rightarrow> config_error option" where
  "check_duration err s = (if s \<noteq> [] \<and> ParseDuration s = None then Some (err s) else None)"

definition validateAuth :: "auth_config \<Rightarrow> config_error option" where
  "validateAuth a =
     (if \<not> IsEnabled (Some a) then None
      else if auUsers a = [] then Some NoUsers
      else case check_duration BadSessionTTL (auSessionTTL a) of
        Some e \<Rightarrow> Some e
      | None \<Rightarrow> check_duration BadLockoutDuration (auLockoutDuration a))"

definition validate :: "config \<Rightarrow> config_error option" where
  "validate cfg =
     (if cfAccounts cfg = [] then Some NoAccounts
      else case validate_accounts 0 (cfAccounts cfg) of
        Some e \<Rightarrow> Some e
      | None \<Rightarrow>
      (case validate_notifiers 0 (cfNotifiers cfg) of
        Some e \<Rightarrow> Some e
      | None \<Rightarrow>
      (case validate_remind (cfRemindDays cfg) of
        Some e \<Rightarrow> Some e
      | None \<Rightarrow>
      (case check_duration BadSyncInterval (cfSyncInterval cfg) of
        Some e \<Rightarrow> Some e
      | None \<Rightarrow>
      (case check_duration BadAlertInterval (cfAlertInterval cfg) of
        Some e \<Rightarrow> Some e
      | None \<Rightarrow> validateAuth (cfAuth cfg))))))"

section \<open>Credentials and account ids\<close>

definition underscored :: "char set \<Rightarrow> string \<Rightarrow> string" where
  "underscored cs s = map (\<lambda>c. if c \<in> cs then CHR ''_'' else c) s"

definition resolveUserPasswords :: "(string \<Rightarrow> string) \<Rightarrow> User list \<Rightarrow> User list" where
  "resolveUserPasswords env us =
     map (\<lambda>u. if PasswordHash u \<noteq> [] \<or> Password u \<noteq> [] \<or> Username u = [] then u
              else (let h = env (''SMARTRENEW_USER_'' @
                      to_upper (underscored {CHR ''-'', CHR ''.'', CHR ''@''} (Username u)) @ ''_PASSWORD_HASH'')
                    in if h \<noteq> [] then u\<lparr>PasswordHash := h\<rparr> else u)) us"

definition resolveCredentials :: "(string \<Rightarrow> string) \<Rightarrow> account list \<Rightarrow> account list" where
  "resolveCredentials env as =
     map (\<lambda>a. if acAccessKey a \<noteq> [] \<and> acSecretKey a \<noteq> [] then a
              else (let envPrefix = ''SMARTRENEW_'' @ to_upper (underscored {CHR ''-''} (acAlias a));
                        a = (if acAccessKey a = [] then a\<lparr>acAccessKey := env (envPrefix @ ''_ACCESS_KEY'')\<rparr> else a)
                    in if acSecretKey a = [] then a\<lparr>acSecretKey := env (envPrefix @ ''_SECRET_KEY'')\<rparr> else a)) as"

text \<open>
  The accounts as they are left, the aliases that failed, and the alias the startup fails
  for, if any. The resolver gives an id or an error for an access key, secret key and region.
\<close>

fun resolve_loop ::
  "(string \<Rightarrow> string \<Rightarrow> string \<Rightarrow> string option) \<Rightarrow> string list \<Rightarrow> account list \<Rightarrow>
   account list \<times> string list \<times> string option" where
  "resolve_loop resolve degraded [] = ([], degraded, None)"
| "resolve_loop resolve degraded (a # as) =
     (if acAccountID a \<noteq> [] \<or> acRegions a = []
      then (case resolve_loop resolve degraded as of (as', r) \<Rightarrow> (a # as', r))
      else case resolve (acAccessKey a) (acSecretKey a) (hd (acRegions a)) of
        None \<Rightarrow>
          if acSNSOnly a
          then (case resolve_loop resolve (degraded @ [acAlias a]) as of (as', r) \<Rightarrow> (a # as', r))
          else (a # as, degraded, Some (acAlias a))
      | Some i \<Rightarrow> (case resolve_loop resolve degraded as of (as', r) \<Rightarrow> (a\<lparr>acAccountID := i\<rparr> # as', r)))"

definition ResolveAccountIDs ::
  "(string \<Rightarrow> string \<Rightarrow> string \<Rightarrow> string option) \<Rightarrow> account list \<Rightarrow>
   account list \<times> string list \<times> string option" where
  "ResolveAccountIDs resolve as = resolve_loop resolve [] as"

section \<open>Properties\<close>

lemma duration_or_pos: "0 < dflt \<Longrightarrow> 0 < duration_or dflt s"
  by (simp add: duration_or_def split: option.split)

text \<open>
  Whatever the configuration says, the scheduler's tickers (which panic otherwise), the
  session lifetime and the lockout get positive durations and the limiter a positive threshold.
\<close>

lemma configured_durations_positive:
  "0 < ParseSyncInterval c" "0 < ParseAlertInterval c" "0 < ParseSessionTTL a"
  "0 < ParseLockoutDuration a" "0 < MaxAttempts a"
  by (auto simp: ParseSyncInterval_def ParseAlertInterval_def ParseSessionTTL_def
      ParseLockoutDuration_def MaxAttempts_def duration_or_pos Hour_def nano_def split: option.split)

lemma max_loop_Max: "max_loop m ds = Max (insert m (set ds))"
proof (induction ds arbitrary: m)
  case (Cons d ds)
  have "max_loop m (d # ds) = Max (insert (max m d) (set ds))" by (simp add: Cons max_def)
  also have "\<dots> = Max (insert m (set (d # ds)))"
    by (cases "ds = []") (simp_all add: max.assoc)
  finally show ?case .
qed simp

lemma MaxRemindDays_ge: "d \<in> set (cfRemindDays c) \<Longrightarrow> d \<le> MaxRemindDays c" "30 \<le> MaxRemindDays c"
  by (simp_all add: MaxRemindDays_def max_loop_Max)

lemma max_remind_days_not_largest:
  "MaxRemindDays (DefaultConfig\<lparr>cfRemindDays := [7, 3]\<rparr>) = 30"
  by (simp add: MaxRemindDays_def)

lemma validate_remind_pos: "validate_remind ds = None \<longleftrightarrow> (\<forall>d \<in> set ds. 0 < d)"
  by (induction ds) auto

lemma validate_remind_days: "validate cfg = None \<Longrightarrow> \<forall>d \<in> set (cfRemindDays cfg). 0 < d"
  by (simp add: validate_def validate_remind_pos split: if_splits option.splits)

text \<open>What the resolution of one account may do.\<close>

definition needs_id :: "account \<Rightarrow> bool" where
  "needs_id a \<longleftrightarrow> acAccountID a = [] \<and> acRegions a \<noteq> []"

definition lookup_id :: "(string \<Rightarrow> string \<Rightarrow> string \<Rightarrow> string option) \<Rightarrow> account \<Rightarrow> string option" where
  "lookup_id resolve a = resolve (acAccessKey a) (acSecretKey a) (hd (acRegions a))"

definition with_id :: "(string \<Rightarrow> string \<Rightarrow> string \<Rightarrow> string option) \<Rightarrow> account \<Rightarrow> account" where
  "with_id resolve a =
     (if needs_id a then case lookup_id resolve a of Some i \<Rightarrow> a\<lparr>acAccountID := i\<rparr> | None \<Rightarrow> a else a)"

definition unresolved :: "(string \<Rightarrow> string \<Rightarrow> string \<Rightarrow> string option) \<Rightarrow> account \<Rightarrow> bool" where
  "unresolved resolve a \<longleftrightarrow> needs_id a \<and> lookup_id resolve a = None"

lemmas resolution_defs = needs_id_def lookup_id_def with_id_def unresolved_def

lemma resolve_loop_step:
  "resolve_loop resolve degraded (a # as) =
     (if unresolved resolve a \<and> \<not> acSNSOnly a then (a # as, degraded, Some (acAlias a))
      else (case resolve_loop resolve (degraded @ (if unresolved resolve a then [acAlias a] else [])) as of
              (as', r) \<Rightarrow> (with_id resolve a # as', r)))"
  by (cases "needs_id a"; cases "lookup_id resolve a") (auto simp: resolution_defs)

lemma resolve_loop_ok:
  "\<forall>a \<in> set as. unresolved resolve a \<longrightarrow> acSNSOnly a \<Longrightarrow>
   resolve_loop resolve degraded as =
     (map (with_id resolve) as, degraded @ map acAlias (filter (unresolved resolve) as), None)"
proof (induction as arbitrary: degraded)
  case (Cons a as)
  then show ?case by (simp add: resolve_loop_step del: resolve_loop.simps(2))
qed simp

lemma resolve_loop_fail:
  "\<forall>a \<in> set ok. unresolved resolve a \<longrightarrow> acSNSOnly a \<Longrightarrow> unresolved resolve b \<Longrightarrow> \<not> acSNSOnly b \<Longrightarrow>
   resolve_loop resolve degraded (ok @ b # bs) =
     (map (with_id resolve) ok @ b # bs, degraded @ map acAlias (filter (unresolved resolve) ok), Some (acAlias b))"
proof (induction ok arbitrary: degraded)
  case Nil
  then show ?case by (simp add: resolve_loop_step del: resolve_loop.simps(2))
next
  case (Cons a ok)
  then show ?case by (simp add: resolve_loop_step del: resolve_loop.simps(2))
qed

text \<open>
  Starting up fails exactly when the id of an account that is synced cannot be resolved,
  and names the first such account. Otherwise every account keeps the id it has or gets the one
  that was resolved, and the notifier-only accounts that could not be resolved are reported,
  all of them and in order.
\<close>

theorem resolve_account_ids_spec:
  "case ResolveAccountIDs resolve as of
     (as', degraded, None) \<Rightarrow>
       (\<forall>a \<in> set as. unresolved resolve a \<longrightarrow> acSNSOnly a) \<and>
       as' = map (with_id resolve) as \<and> degraded = map acAlias (filter (unresolved resolve) as)
   | (as', degraded, Some alias) \<Rightarrow>
       \<exists>ok b bs. as = ok @ b # bs \<and> unresolved resolve b \<and> \<not> acSNSOnly b \<and> alias = acAlias b \<and>
         (\<forall>a \<in> set ok. unresolved resolve a \<longrightarrow> acSNSOnly a) \<and> as' = map (with_id resolve) ok @ b # bs"
proof (cases "\<forall>a \<in> set as. unresolved resolve a \<longrightarrow> acSNSOnly a")
  case True
  then show ?thesis by (simp add: ResolveAccountIDs_def resolve_loop_ok)
next
  case False
  then have "\<exists>x \<in> set as. unresolved resolve x \<and> \<not> acSNSOnly x" by blast
  from split_list_first_prop [OF this] obtain ok b bs where as: "as = ok @ b # bs"
    and b: "unresolved resolve b" "\<not> acSNSOnly b" "\<forall>a \<in> set ok. unresolved resolve a \<longrightarrow> acSNSOnly a"
    by blast
  show ?thesis
    unfolding ResolveAccountIDs_def as resolve_loop_fail [OF b(3) b(1,2)] prod.case option.case
    using b by (intro exI [of _ ok] exI [of _ b] exI [of _ bs]) simp
qed

definition sample_account :: "string \<Rightarrow> string \<Rightarrow> bool \<Rightarrow> account" where
  "sample_account alias i sns =
     \<lparr>acAlias = alias, acAccountID = i, acAccessKey = ''k'', acSecretKey = ''s'', acRegions = [''r''],
      acSkipTypes = [], acSNSOnly = sns\<rparr>"

lemma resolve_account_ids_spec_witness:
  "fst (snd (ResolveAccountIDs (\<lambda>k s r. None) [sample_account ''a'' ''1'' False, sample_account ''n'' [] True])) = [''n''] \<and>
   snd (snd (ResolveAccountIDs (\<lambda>k s r. None) [sample_account ''a'' ''1'' False, sample_account ''n'' [] True])) = None"
proof -
  let ?as = "[sample_account ''a'' ''1'' False, sample_account ''n'' [] True]"
  obtain as' degraded e where r: "ResolveAccountIDs (\<lambda>k s r. None) ?as = (as', degraded, e)"
    by (metis prod_cases3)
  have none: "e = None"
    using resolve_account_ids_spec [of ?as "\<lambda>k s r. None"] unfolding r
    by (auto simp: resolution_defs sample_account_def Cons_eq_append_conv split: option.splits)
  then show ?thesis
    using resolve_account_ids_spec [of ?as "\<lambda>k s r. None"] unfolding r
    by (simp add: resolution_defs sample_account_def)
qed

end
