(* ===== verification/Scheduler.thy ===== *)
theory Scheduler
  imports Store Config
begin

text \<open>
  The scheduler of \<^verbatim>\<open>scheduler/scheduler.go\<close>: the synchronisation of all accounts into the
  store and the two kinds of notifications. What the provider fetches for the \<open>i\<close>-th
  account of the configuration is the argument \<open>fetch i\<close> (\<open>gpu_fetch i\<close>), items and errors;
  whether each notifier's sending succeeds is the list \<open>sends\<close>. Database faults are those of
  the store, and \<open>clock n\<close> is the database's time at its \<open>n\<close>-th statement. Logging is left out.
\<close>

section \<open>Synchronisation\<close>

datatype sync_error =
  FetchError string
| PruneError
| ReplaceError string
| UpsertError string
| ReplaceGPUError string
| UpsertGPUError string

type_synonym clock = "nat \<Rightarrow> gotime"

fun keep_loop :: "string list \<Rightarrow> account list \<Rightarrow> string list" where
  "keep_loop keep [] = keep"
| "keep_loop keep (a # as) =
     (if acSNSOnly a \<or> acAccountID a = [] then keep_loop keep as
      else keep_loop (keep @ [acAccountID a]) as)"

definition prune_removed :: "faults \<Rightarrow> account list \<Rightarrow> db \<Rightarrow> sync_error list \<times> db" where
  "prune_removed faults as d =
     (let keep = keep_loop [] as in
      if keep = [] then ([], d)
      else case PruneAccounts faults keep d of
             ((n, False), d1) \<Rightarrow> ([PruneError], d1)
           | ((n, True), d1) \<Rightarrow> ([], d1))"

text \<open>Merge what was fetched, item by item: the items stored, the errors.\<close>

fun upsert_each :: "faults \<Rightarrow> clock \<Rightarrow> reservation list \<Rightarrow> db \<Rightarrow> (nat \<times> sync_error list) \<times> db" where
  "upsert_each faults clock [] d = ((0, []), d)"
| "upsert_each faults clock (r # rs) d =
     (case Upsert faults (clock (dbStmts d)) r d of
        (False, d1) \<Rightarrow> (case upsert_each faults clock rs d1 of ((n, es), d2) \<Rightarrow> ((n, UpsertError (ID r) # es), d2))
      | (True, d1) \<Rightarrow> (case upsert_each faults clock rs d1 of ((n, es), d2) \<Rightarrow> ((Suc n, es), d2)))"

definition sync_reservations ::
  "faults \<Rightarrow> clock \<Rightarrow> account \<Rightarrow> reservation list \<Rightarrow> string list \<Rightarrow> db \<Rightarrow> (nat \<times> sync_error list) \<times> db" where
  "sync_reservations faults clock a items errs d =
     (if errs = [] \<and> items \<noteq> []
      then (case ReplaceAccount faults (clock (dbStmts d)) (acAccountID a) items d of
              (False, d1) \<Rightarrow> ((0, [ReplaceError (acAlias a)]), d1)
            | (True, d1) \<Rightarrow> ((length items, []), d1))
      else upsert_each faults clock items d)"

fun upsert_gpu_each :: "faults \<Rightarrow> clock \<Rightarrow> gpu_coverage list \<Rightarrow> db \<Rightarrow> sync_error list \<times> db" where
  "upsert_gpu_each faults clock [] d = ([], d)"
| "upsert_gpu_each faults clock (g # gs) d =
     (case UpsertGPUCoverage faults (clock (dbStmts d)) g d of
        (False, d1) \<Rightarrow> (case upsert_gpu_each faults clock gs d1 of (es, d2) \<Rightarrow> (UpsertGPUError (gID g) # es, d2))
      | (True, d1) \<Rightarrow> upsert_gpu_each faults clock gs d1)"

definition sync_gpu ::
  "faults \<Rightarrow> clock \<Rightarrow> account \<Rightarrow> gpu_coverage list \<Rightarrow> string list \<Rightarrow> db \<Rightarrow> sync_error list \<times> db" where
  "sync_gpu faults clock a items errs d =
     (if items = [] then ([], d)
      else if errs = []
      then (case ReplaceGPUCoverage faults (clock (dbStmts d)) (acAccountID a) items d of
              (False, d1) \<Rightarrow> ([ReplaceGPUError (acAlias a)], d1)
            | (True, d1) \<Rightarrow> ([], d1))
      else upsert_gpu_each faults clock items d)"

type_synonym 'a fetched = "nat \<Rightarrow> 'a list \<times> string list"

definition sync_account ::
  "faults \<Rightarrow> clock \<Rightarrow> account \<Rightarrow> reservation list \<times> string list \<Rightarrow> gpu_coverage list \<times> string list \<Rightarrow>
   db \<Rightarrow> (nat \<times> sync_error list) \<times> db" where
  "sync_account faults clock a fetched gpu_fetched d =
     (case fetched of (items, errs) \<Rightarrow>
      (case sync_reservations faults clock a items errs d of ((n, es), d1) \<Rightarrow>
      (case gpu_fetched of (gpus, gpu_errs) \<Rightarrow>
      (case sync_gpu faults clock a gpus gpu_errs d1 of (es', d2) \<Rightarrow>
         ((n, map FetchError errs @ es @ map FetchError gpu_errs @ es'), d2)))))"

fun sync_accounts ::
  "faults \<Rightarrow> clock \<Rightarrow> reservation fetched \<Rightarrow> gpu_coverage fetched \<Rightarrow> nat \<Rightarrow> account list \<Rightarrow> db \<Rightarrow>
   (nat \<times> sync_error list) \<times> db" where
  "sync_accounts faults clock fetch gpu_fetch i [] d = ((0, []), d)"
| "sync_accounts faults clock fetch gpu_fetch i (a # as) d =
     (if acSNSOnly a then sync_accounts faults clock fetch gpu_fetch (Suc i) as d
      else (case sync_account faults clock a (fetch i) (gpu_fetch i) d of ((n, es), d1) \<Rightarrow>
           (case sync_accounts faults clock fetch gpu_fetch (Suc i) as d1 of ((m, es'), d2) \<Rightarrow>
              ((n + m, es @ es'), d2))))"

definition SyncAll ::
  "faults \<Rightarrow> clock \<Rightarrow> reservation fetched \<Rightarrow> gpu_coverage fetched \<Rightarrow> account list \<Rightarrow> db \<Rightarrow>
   (nat \<times> sync_error list) \<times> db" where
  "SyncAll faults clock fetch gpu_fetch as d =
     (case prune_removed faults as d of (es, d1) \<Rightarrow>
     (case sync_accounts faults clock fetch gpu_fetch 0 as d1 of ((n, es'), d2) \<Rightarrow>
        ((n, es @ es'), d2)))"

section \<open>Notifications\<close>

text \<open>What a check handed to the notifiers, and whether it was then recorded.\<close>

datatype 'a outcome = NothingSent | AllFailed "'a list" | Sent "'a list" bool

fun drop_notified :: "faults \<Rightarrow> alert list \<Rightarrow> db \<Rightarrow> alert list \<times> db" where
  "drop_notified faults [] d = ([], d)"
| "drop_notified faults (a # as) d =
     (case HasNotified faults (ID (aRes a)) (NotifyKey a) (EndTime (aRes a)) d of
        (None, d1) \<Rightarrow> drop_notified faults as d1
      | (Some notified, d1) \<Rightarrow>
          (case drop_notified faults as d1 of (pending, d2) \<Rightarrow>
             (if notified then pending else a # pending, d2)))"

definition CheckAndNotify ::
  "faults \<Rightarrow> (string \<Rightarrow> int option) \<Rightarrow> config \<Rightarrow> gotime \<Rightarrow> gotime \<Rightarrow> bool list \<Rightarrow> db \<Rightarrow> alert outcome \<times> db" where
  "CheckAndNotify faults jd cfg now now' sends d =
     (if sends = [] then (NothingSent, d)
      else case GetAlerts faults jd now now' (MaxRemindDays cfg) (cfRemindDays cfg) d of
        (None, d1) \<Rightarrow> (NothingSent, d1)
      | (Some alerts, d1) \<Rightarrow>
          (case drop_notified faults alerts d1 of (pending, d2) \<Rightarrow>
             if pending = [] then (NothingSent, d2)
             else if True \<notin> set sends then (AllFailed pending, d2)
             else (case MarkNotifiedBatch faults pending d2 of (ok, d3) \<Rightarrow> (Sent pending ok, d3))))"

fun drop_gpu_notified :: "faults \<Rightarrow> gpu_coverage list \<Rightarrow> db \<Rightarrow> gpu_coverage list \<times> db" where
  "drop_gpu_notified faults [] d = ([], d)"
| "drop_gpu_notified faults (g # gs) d =
     (if gCoverage g \<noteq> CoverageOnDemand then drop_gpu_notified faults gs d
      else case HasNotified faults (gID g) (level_string LevelGPUOnDemand) 0 d of
        (None, d1) \<Rightarrow> drop_gpu_notified faults gs d1
      | (Some notified, d1) \<Rightarrow>
          (case drop_gpu_notified faults gs d1 of (od, d2) \<Rightarrow> (if notified then od else g # od, d2)))"

definition fake_alert :: "gpu_coverage \<Rightarrow> alert" where
  "fake_alert g =
     \<lparr>aRes = zero_reservation\<lparr>ID := gID g\<rparr>, DaysLeft = 0, Level = LevelGPUOnDemand, Threshold = 0\<rparr>"

definition CheckGPUODAndNotify ::
  "faults \<Rightarrow> bool list \<Rightarrow> db \<Rightarrow> gpu_coverage outcome \<times> db" where
  "CheckGPUODAndNotify faults sends d =
     (if sends = [] then (NothingSent, d)
      else case ListGPUCoverage faults [] d of
        (None, d1) \<Rightarrow> (NothingSent, d1)
      | (Some gpus, d1) \<Rightarrow>
          (case drop_gpu_notified faults gpus d1 of (od, d2) \<Rightarrow>
             if od = [] then (NothingSent, d2)
             else if True \<notin> set sends then (AllFailed od, d2)
             else (case MarkNotifiedBatch faults (map fake_alert od) d2 of (ok, d3) \<Rightarrow> (Sent od ok, d3))))"

definition notifyLogRetention :: duration where
  "notifyLogRetention = 90 * 24 * Hour"

definition pruneNotifyLog :: "faults \<Rightarrow> (string \<Rightarrow> int option) \<Rightarrow> gotime \<Rightarrow> db \<Rightarrow> db" where
  "pruneNotifyLog faults jd now d = snd (PruneNotifyLog faults jd now notifyLogRetention d)"

section \<open>The loop\<close>

text \<open>
  The jobs of the scheduler, run one at a time; a job carries what the outside world answers to it. The
  database and the program read their clocks at \<open>now\<close> and \<open>now'\<close>. A job gives the outcomes
  of the two checks.
\<close>

datatype job =
  Sync faults clock "reservation fetched" "gpu_coverage fetched"
| Check faults gotime gotime "bool list" "bool list"
| Prune faults gotime

fun job_step ::
  "config \<Rightarrow> (string \<Rightarrow> int option) \<Rightarrow> job \<Rightarrow> db \<Rightarrow> (alert outcome \<times> gpu_coverage outcome) \<times> db" where
  "job_step cfg jd (Sync faults clock fetch gpu_fetch) d =
     ((NothingSent, NothingSent), snd (SyncAll faults clock fetch gpu_fetch (cfAccounts cfg) d))"
| "job_step cfg jd (Check faults now now' sends gpu_sends) d =
     (case CheckAndNotify faults jd cfg now now' sends d of (out, d1) \<Rightarrow>
     (case CheckGPUODAndNotify faults gpu_sends d1 of (gpu_out, d2) \<Rightarrow> ((out, gpu_out), d2)))"
| "job_step cfg jd (Prune faults now) d = ((NothingSent, NothingSent), pruneNotifyLog faults jd now d)"

fun run_jobs ::
  "config \<Rightarrow> (string \<Rightarrow> int option) \<Rightarrow> job list \<Rightarrow> db \<Rightarrow> (alert outcome \<times> gpu_coverage outcome) list \<times> db" where
  "run_jobs cfg jd [] d = ([], d)"
| "run_jobs cfg jd (j # js) d =
     (case job_step cfg jd j d of (out, d1) \<Rightarrow>
     (case run_jobs cfg jd js d1 of (outs, d2) \<Rightarrow> (out # outs, d2)))"

text \<open>
  The goroutine of \<open>StartCron\<close>: at the start a synchronisation, the checks and the pruning; then
  at each tick of the one timer a synchronisation and the pruning, and at each tick of the
  other the checks. The arguments are what the jobs meet.
\<close>

datatype tick =
  SyncTick faults clock "reservation fetched" "gpu_coverage fetched" gotime
| AlertTick faults gotime gotime "bool list" "bool list"

fun tick_jobs :: "tick \<Rightarrow> job list" where
  "tick_jobs (SyncTick faults clock fetch gpu_fetch now) = [Sync faults clock fetch gpu_fetch, Prune faults now]"
| "tick_jobs (AlertTick faults now now' sends gpu_sends) = [Check faults now now' sends gpu_sends]"

definition StartCron ::
  "config \<Rightarrow> (string \<Rightarrow> int option) \<Rightarrow> faults \<Rightarrow> clock \<Rightarrow> reservation fetched \<Rightarrow> gpu_coverage fetched \<Rightarrow>
   gotime \<Rightarrow> gotime \<Rightarrow> gotime \<Rightarrow> bool list \<Rightarrow> bool list \<Rightarrow> tick list \<Rightarrow> db \<Rightarrow>
   (alert outcome \<times> gpu_coverage outcome) list \<times> db" where
  "StartCron cfg jd faults clock fetch gpu_fetch now now' now'' sends gpu_sends ticks d =
     run_jobs cfg jd
       ([Sync faults clock fetch gpu_fetch, Check faults now now' sends gpu_sends, Prune faults now''] @
        concat (map tick_jobs ticks)) d"

section \<open>Safe mode\<close>

text \<open>
  What a synchronisation may do to a stored row: merge an item with its ID into it, keeping
  its ID and its account. \<open>survives ids row d\<close>: the row is still there, and unchanged unless its ID is in
  \<open>ids\<close>.
\<close>

definition survives :: "string set \<Rightarrow> res_row \<Rightarrow> db \<Rightarrow> bool" where
  "survives ids row d \<longleftrightarrow>
     (\<exists>row' \<in> set (dbRes d). row_id row' = row_id row \<and> AccountID (rrData row') = AccountID (rrData row)) \<and>
     (row_id row \<notin> ids \<longrightarrow> row \<in> set (dbRes d))"

lemma survives_refl: "row \<in> set (dbRes d) \<Longrightarrow> survives ids row d"
  by (auto simp: survives_def)

lemma survives_tables: "dbRes d' = dbRes d \<Longrightarrow> survives ids row d' = survives ids row d"
  by (simp add: survives_def)

lemma upsert_key_keeps:
  "x \<in> set xs \<Longrightarrow> x \<in> set (upsert_key k m r xs) \<or> k x = k r \<and> m x r \<in> set (upsert_key k m r xs)"
  by (induction xs) auto

lemma merge_row_account [simp]: "AccountID (rrData (merge_row old new)) = AccountID (rrData old)"
  by (simp add: merge_row_def)

lemma survives_upsert:
  assumes "survives ids row d" "ID r \<in> ids"
  shows "survives ids row (upsert_stmt now r d)"
proof -
  let ?up = "upsert_key row_id merge_row (to_row now r) (dbRes d)"
  have keeps: "x \<in> set ?up \<or> row_id x = ID r \<and> merge_row x (to_row now r) \<in> set ?up" if "x \<in> set (dbRes d)" for x
    using upsert_key_keeps [OF that, of row_id merge_row "to_row now r"] by simp
  from assms(1) obtain row' where row': "row' \<in> set (dbRes d)" "row_id row' = row_id row"
    "AccountID (rrData row') = AccountID (rrData row)" and same: "row_id row \<notin> ids \<longrightarrow> row \<in> set (dbRes d)"
    by (auto simp: survives_def)
  have "\<exists>x \<in> set ?up. row_id x = row_id row \<and> AccountID (rrData x) = AccountID (rrData row)"
    using keeps [OF row'(1)] row'(2,3) by (metis merge_row_account row_id_simps(2))
  moreover have "row_id row \<notin> ids \<longrightarrow> row \<in> set ?up"
    using same keeps [of row] assms(2) by auto
  ultimately show ?thesis by (simp add: survives_def upsert_stmt_def)
qed

lemma survives_delete:
  "survives ids row d \<Longrightarrow> AccountID (rrData row) \<noteq> acct \<Longrightarrow> survives ids row (delete_account_stmt acct d)"
  by (auto simp: survives_def delete_account_stmt_def)

lemma survives_prune:
  "survives ids row d \<Longrightarrow> AccountID (rrData row) \<in> set keep \<Longrightarrow> survives ids row (prune_res_stmt keep d)"
  by (auto simp: survives_def prune_res_stmt_def)

lemma snd_each [simp]:
  "snd (upsert_each faults clock (r # rs) d) =
     snd (upsert_each faults clock rs (snd (Upsert faults (clock (dbStmts d)) r d)))"
  "snd (upsert_gpu_each faults clock (g # gs) d) =
     snd (upsert_gpu_each faults clock gs (snd (UpsertGPUCoverage faults (clock (dbStmts d)) g d)))"
  by (simp_all split: prod.split bool.split)

declare upsert_each.simps(2) [simp del] upsert_gpu_each.simps(2) [simp del]

lemma gpu_stmts_tables [simp]:
  "dbRes (upsert_gpu_stmt now g d) = dbRes d" "dbRes (delete_gpu_account_stmt acct d) = dbRes d"
  "dbRes (prune_gpu_stmt keep d) = dbRes d" "dbLog (prune_gpu_stmt keep d) = dbLog d"
  "dbLog (upsert_gpu_stmt now g d) = dbLog d" "dbLog (delete_gpu_account_stmt acct d) = dbLog d"
  "dbLog (upsert_stmt now r d) = dbLog d" "dbLog (delete_account_stmt acct d) = dbLog d"
  "dbLog (prune_res_stmt keep d) = dbLog d"
  "dbRes (insert_log k d) = dbRes d" "dbRes (prune_log_stmt jd c d) = dbRes d"
  by (simp_all add: upsert_gpu_stmt_def delete_gpu_account_stmt_def prune_gpu_stmt_def upsert_stmt_def
      delete_account_stmt_def prune_res_stmt_def insert_log_def prune_log_stmt_def)

lemma run_stmts_same:
  "\<forall>f \<in> set fs. \<forall>e. tab (f e) = tab e \<Longrightarrow> tab (run_stmts fs d) = tab d"
  by (induction fs arbitrary: d) auto

text \<open>The operations that leave the reservations, or the log, alone.\<close>

lemma exec_same:
  assumes "\<And>e. tab (f e) = tab e" "\<And>e n. tab (e\<lparr>dbStmts := n\<rparr>) = tab e"
  shows "tab (snd (exec faults f d)) = tab d"
  using assms by (simp add: exec_def Let_def)

lemma transaction_same:
  assumes "\<forall>f \<in> set fs. table_stmt f \<and> (\<forall>e. tab (f e) = tab e)" "\<And>e n. tab (e\<lparr>dbStmts := n\<rparr>) = tab e"
  shows "tab (snd (transaction faults fs d)) = tab d"
proof -
  obtain ok d' where t: "transaction faults fs d = (ok, d')" by (metis surj_pair)
  have e: "d' = (if ok then run_stmts fs d else d)\<lparr>dbStmts := dbStmts d'\<rparr>"
    using t by (rule transaction_result) (use assms(1) in blast)
  have "tab d' = tab (if ok then run_stmts fs d else d)" by (subst e) (rule assms(2))
  with t run_stmts_same [of fs tab d] assms(1) show ?thesis by simp
qed

lemma upsert_gpu_each_same:
  "dbRes (snd (upsert_gpu_each faults clock gs d)) = dbRes d \<and> dbLog (snd (upsert_gpu_each faults clock gs d)) = dbLog d"
proof (induction gs arbitrary: d)
  case (Cons g gs)
  have "dbRes (snd (UpsertGPUCoverage faults (clock (dbStmts d)) g d)) = dbRes d"
    "dbLog (snd (UpsertGPUCoverage faults (clock (dbStmts d)) g d)) = dbLog d"
    unfolding UpsertGPUCoverage_def by (rule exec_same; simp)+
  with Cons.IH show ?case by simp
qed simp

lemma sync_gpu_same:
  "dbRes (snd (sync_gpu faults clock a items errs d)) = dbRes d" 
  "dbLog (snd (sync_gpu faults clock a items errs d)) = dbLog d"
proof -
  have "dbRes (snd (ReplaceGPUCoverage faults now acct items d)) = dbRes d"
    "dbLog (snd (ReplaceGPUCoverage faults now acct items d)) = dbLog d" for now acct
    unfolding ReplaceGPUCoverage_def by (rule transaction_same; auto)+
  then show "dbRes (snd (sync_gpu faults clock a items errs d)) = dbRes d"
    "dbLog (snd (sync_gpu faults clock a items errs d)) = dbLog d"
    using upsert_gpu_each_same [of faults clock items d]
    by (simp_all add: sync_gpu_def split: prod.split bool.split) (metis snd_conv)+
qed


lemma snd_sync [simp]:
  "snd (sync_account faults clock a fetched gpu_fetched d) =
     snd (sync_gpu faults clock a (fst gpu_fetched) (snd gpu_fetched)
       (snd (sync_reservations faults clock a (fst fetched) (snd fetched) d)))"
  "snd (sync_accounts faults clock fetch gpu_fetch i (a # as) d) =
     snd (sync_accounts faults clock fetch gpu_fetch (Suc i) as
       (if acSNSOnly a then d else snd (sync_account faults clock a (fetch i) (gpu_fetch i) d)))"
  "snd (SyncAll faults clock fetch gpu_fetch as d) =
     snd (sync_accounts faults clock fetch gpu_fetch 0 as (snd (prune_removed faults as d)))"
  "snd (prune_removed faults as d) =
     (if keep_loop [] as = [] then d else snd (PruneAccounts faults (keep_loop [] as) d))"
  by (simp_all add: sync_account_def SyncAll_def prune_removed_def Let_def split: prod.split bool.split)

declare sync_accounts.simps(2) [simp del]

lemma keep_loop_eq: "keep_loop keep as = keep @ map acAccountID (filter (\<lambda>a. \<not> acSNSOnly a \<and> acAccountID a \<noteq> []) as)"
  by (induction as arbitrary: keep) auto

text \<open>An account that is not replaced: the fetch had an error, or found nothing.\<close>

definition merged_only :: "string \<Rightarrow> reservation fetched \<Rightarrow> nat \<Rightarrow> account list \<Rightarrow> bool" where
  "merged_only acct fetch i as \<longleftrightarrow>
     (\<forall>j < length as. \<not> acSNSOnly (as ! j) \<and> acAccountID (as ! j) = acct \<longrightarrow>
        snd (fetch (i + j)) \<noteq> [] \<or> fst (fetch (i + j)) = [])"

definition fetched_ids :: "reservation fetched \<Rightarrow> string set" where
  "fetched_ids fetch = {ID r |i r. r \<in> set (fst (fetch i))}"

text \<open>
  What the synchronisation needs of a property of the reservations so that it keeps it: it is kept
  by the upsert of an item and by the deletion of an account.
\<close>

locale table_invariant =
  fixes inv :: "db \<Rightarrow> bool" and good :: "reservation \<Rightarrow> bool" and removable :: "string \<Rightarrow> bool"
  assumes same_rows: "dbRes d' = dbRes d \<Longrightarrow> inv d \<Longrightarrow> inv d'"
    and upsert: "inv d \<Longrightarrow> good r \<Longrightarrow> inv (upsert_stmt now r d)"
    and delete: "inv d \<Longrightarrow> removable acct \<Longrightarrow> inv (delete_account_stmt acct d)"
begin

lemma run: "inv d \<Longrightarrow> \<forall>r \<in> set items. good r \<Longrightarrow> inv (run_stmts (map (upsert_stmt now) items) d)"
  by (induction items arbitrary: d) (simp_all add: upsert)

lemma result: "d' = (if ok then e else d)\<lparr>dbStmts := n\<rparr> \<Longrightarrow> inv d \<Longrightarrow> inv e \<Longrightarrow> inv d'"
  by (rule same_rows [of d' "if ok then e else d"]) simp_all

lemma Upsert:
  assumes "inv d" "good r"
  shows "inv (snd (Upsert faults now r d))"
proof -
  obtain ok d' where u: "Upsert faults now r d = (ok, d')" by (metis surj_pair)
  from exec_result [OF u [unfolded Upsert_def]] assms(1) upsert [OF assms] have "inv d'" by (rule result)
  with u show ?thesis by simp
qed

lemma ReplaceAccount:
  assumes "inv d" "\<forall>r \<in> set items. good r" "removable acct"
  shows "inv (snd (ReplaceAccount faults now acct items d))"
proof -
  obtain ok d' where u: "ReplaceAccount faults now acct items d = (ok, d')" by (metis surj_pair)
  have "d' = (if ok then run_stmts (delete_account_stmt acct # map (upsert_stmt now) items) d else d)\<lparr>dbStmts := dbStmts d'\<rparr>"
    using u unfolding ReplaceAccount_def by (rule transaction_result) auto
  moreover have "inv (run_stmts (delete_account_stmt acct # map (upsert_stmt now) items) d)"
    using run [OF delete [OF assms(1,3)] assms(2)] by simp
  ultimately have "inv d'" using assms(1) result by blast
  with u show ?thesis by simp
qed

lemma upsert_each:
  "inv d \<Longrightarrow> \<forall>r \<in> set items. good r \<Longrightarrow> inv (snd (upsert_each faults clock items d))"
  by (induction items arbitrary: d) (simp_all add: Upsert)

lemma sync_reservations:
  assumes "inv d" "\<forall>r \<in> set items. good r" "errs = [] \<and> items \<noteq> [] \<longrightarrow> removable (acAccountID a)"
  shows "inv (snd (sync_reservations faults clock a items errs d))"
proof (cases "errs = [] \<and> items \<noteq> []")
  case True
  have "snd (sync_reservations faults clock a items errs d) =
      snd (ReplaceAccount faults (clock (dbStmts d)) (acAccountID a) items d)"
    using True by (simp add: sync_reservations_def split: prod.split bool.split)
  with True assms ReplaceAccount show ?thesis by simp
next
  case False
  with upsert_each [OF assms(1,2)] show ?thesis by (auto simp: sync_reservations_def)
qed

lemma sync_accounts:
  assumes "inv d"
    and "\<forall>j < length as. \<not> acSNSOnly (as ! j) \<longrightarrow> (\<forall>r \<in> set (fst (fetch (i + j))). good r) \<and>
      (snd (fetch (i + j)) = [] \<and> fst (fetch (i + j)) \<noteq> [] \<longrightarrow> removable (acAccountID (as ! j)))"
  shows "inv (snd (sync_accounts faults clock fetch gpu_fetch i as d))"
  using assms
proof (induction as arbitrary: i d)
  case (Cons a as)
  let ?e = "if acSNSOnly a then d else snd (sync_account faults clock a (fetch i) (gpu_fetch i) d)"
  have "inv ?e"
  proof (cases "acSNSOnly a")
    case False
    with Cons.prems(2) [rule_format, of 0] have
      "inv (snd (sync_reservations faults clock a (fst (fetch i)) (snd (fetch i)) d))"
      by (intro sync_reservations [OF Cons.prems(1)]) simp_all
    then show ?thesis using False by simp (rule same_rows [OF sync_gpu_same(1)])
  qed (use Cons.prems in simp)
  moreover have "\<forall>j < length as. \<not> acSNSOnly (as ! j) \<longrightarrow> (\<forall>r \<in> set (fst (fetch (Suc i + j))). good r) \<and>
      (snd (fetch (Suc i + j)) = [] \<and> fst (fetch (Suc i + j)) \<noteq> [] \<longrightarrow> removable (acAccountID (as ! j)))"
    using Cons.prems(2) by auto
  ultimately have "inv (snd (sync_accounts faults clock fetch gpu_fetch (Suc i) as ?e))" by (rule Cons.IH)
  then show ?case by (simp only: snd_sync(2))
qed simp

end

interpretation surviving: table_invariant "survives ids row" "\<lambda>r. ID r \<in> ids" "\<lambda>acct. AccountID (rrData row) \<noteq> acct"
  for ids row
  by unfold_locales (simp add: survives_def, erule (1) survives_upsert, erule (1) survives_delete)

lemma sync_keeps_rows:
  assumes "survives (fetched_ids fetch) row d" "merged_only (AccountID (rrData row)) fetch 0 as"
  shows "survives (fetched_ids fetch) row (snd (sync_accounts faults clock fetch gpu_fetch 0 as d))"
  using assms(2) by (intro surviving.sync_accounts [OF assms(1)]) (auto simp: merged_only_def fetched_ids_def)

lemma survives_PruneAccounts:
  assumes "row \<in> set (dbRes d)" "AccountID (rrData row) \<in> set keep"
  shows "row \<in> set (dbRes (snd (PruneAccounts faults keep d)))"
  using assms
  by (simp add: PruneAccounts_def exec_def Let_def prune_res_stmt_def prune_gpu_stmt_def)

lemma prune_log [simp]: "dbLog (snd (PruneAccounts faults keep d)) = dbLog d"
  by (simp add: PruneAccounts_def exec_def Let_def split: prod.split)

lemma SyncAll_keeps_rows:
  assumes "row \<in> set (dbRes d)"
    and "\<exists>a \<in> set as. acAccountID a = AccountID (rrData row) \<and> \<not> acSNSOnly a \<and> acAccountID a \<noteq> []"
    and "merged_only (AccountID (rrData row)) fetch 0 as"
  shows "survives (fetched_ids fetch) row (snd (SyncAll faults clock fetch gpu_fetch as d))"
proof -
  obtain a where a: "a \<in> set as" "\<not> acSNSOnly a" "acAccountID a \<noteq> []" "acAccountID a = AccountID (rrData row)"
    using assms(2) by blast
  have "acAccountID a \<in> set (keep_loop [] as)"
    unfolding keep_loop_eq set_append set_map by (intro UnI2 imageI) (simp add: a(1-3))
  with a have "AccountID (rrData row) \<in> set (keep_loop [] as)" by simp
  then have "row \<in> set (dbRes (snd (prune_removed faults as d)))"
    using assms(1) survives_PruneAccounts by simp
  then show ?thesis
    unfolding snd_sync(3) by (rule sync_keeps_rows [OF survives_refl assms(3)])
qed

text \<open>
  C8. A sync never loses what it could not refresh: as long as an account is configured, each
  of its reservations survives a synchronisation that could not fetch the account completely,
  whatever fails in the database and whatever is fetched for the others; it is unchanged unless an
  item with its ID was fetched. The same holds when the fetch succeeded but found nothing.
\<close>

theorem sync_safe_mode:
  assumes "row \<in> set (dbRes d)"
    and "\<exists>a \<in> set as. acAccountID a = AccountID (rrData row) \<and> \<not> acSNSOnly a \<and> acAccountID a \<noteq> []"
    and "merged_only (AccountID (rrData row)) fetch 0 as"
  shows "survives (fetched_ids fetch) row (snd (SyncAll faults clock fetch gpu_fetch as d))"
  using assms by (rule SyncAll_keeps_rows)

lemma sync_safe_mode_witness:
  "survives (fetched_ids (\<lambda>i. ([sample_res ''b'' ''1'' 9], [''denied'']))) (to_row 0 (sample_res ''a'' ''1'' 5))
     (snd (SyncAll (\<lambda>n. False) (\<lambda>n. 0) (\<lambda>i. ([sample_res ''b'' ''1'' 9], [''denied''])) (\<lambda>i. ([], []))
        [sample_account ''main'' ''1'' False] (sample_db\<lparr>dbRes := [to_row 0 (sample_res ''a'' ''1'' 5)]\<rparr>)))"
  by (rule sync_safe_mode)
    (simp_all add: sample_db_def sample_account_def to_row_def sample_res_def merged_only_def)

section \<open>A complete synchronisation\<close>

text \<open>The rows of one account, and how the operations on others leave them.\<close>

definition rows_of :: "string \<Rightarrow> db \<Rightarrow> res_row list" where
  "rows_of acct d = filter (\<lambda>row. AccountID (rrData row) = acct) (dbRes d)"

definition ids_apart :: "string set \<Rightarrow> string \<Rightarrow> db \<Rightarrow> bool" where
  "ids_apart ids acct d \<longleftrightarrow> (\<forall>row \<in> set (dbRes d). row_id row \<in> ids \<longrightarrow> AccountID (rrData row) = acct)"

lemma rows_of_stmts [simp]: "rows_of acct (d\<lparr>dbStmts := n\<rparr>) = rows_of acct d"
  "ids_apart ids acct (d\<lparr>dbStmts := n\<rparr>) = ids_apart ids acct d"
  by (simp_all add: rows_of_def ids_apart_def)

lemma upsert_other:
  assumes "ID r \<notin> ids" "AccountID r \<noteq> acct" "row_id ` set (rows_of acct d) \<subseteq> ids" "ids_apart ids acct d"
  shows "rows_of acct (upsert_stmt now r d) = rows_of acct d \<and> ids_apart ids acct (upsert_stmt now r d)"
proof -
  have "filter (\<lambda>row. AccountID (rrData row) = acct) (upsert_key row_id merge_row (to_row now r) xs) =
      filter (\<lambda>row. AccountID (rrData row) = acct) xs \<and>
      (\<forall>row \<in> set (upsert_key row_id merge_row (to_row now r) xs). row_id row \<in> ids \<longrightarrow> AccountID (rrData row) = acct)"
    if "\<forall>row \<in> set xs. row_id row \<in> ids \<longleftrightarrow> AccountID (rrData row) = acct \<and> row_id row \<in> ids"
       "\<forall>row \<in> set xs. AccountID (rrData row) = acct \<longrightarrow> row_id row \<in> ids" for xs
    using that
  proof (induction xs)
    case Nil
    then show ?case using assms(1,2) by (simp add: to_row_def row_id_def)
  next
    case (Cons x xs)
    then show ?case using assms(1,2) by auto
  qed
  from this [of "dbRes d"] assms(3,4) show ?thesis
    by (auto simp: rows_of_def ids_apart_def upsert_stmt_def)
qed


lemma exec_all_ok: "\<forall>n. \<not> faults n \<Longrightarrow> fst (exec_all faults fs d)"
  by (induction fs arbitrary: d) (simp_all add: exec_def Let_def)

lemma transaction_ok: "\<forall>n. \<not> faults n \<Longrightarrow> \<exists>d'. transaction faults fs d = (True, d')"
proof -
  assume "\<forall>n. \<not> faults n"
  then have "fst (exec_all faults ([id] @ fs @ [id]) d)" by (rule exec_all_ok)
  then obtain d' where "exec_all faults ([id] @ fs @ [id]) d = (True, d')" by (metis prod.collapse)
  then show ?thesis by (simp only: transaction_def prod.case bool.case) simp
qed

lemma sync_accounts_append:
  "snd (sync_accounts faults clock fetch gpu_fetch i (as @ bs) d) =
   snd (sync_accounts faults clock fetch gpu_fetch (i + length as) bs
     (snd (sync_accounts faults clock fetch gpu_fetch i as d)))"
  by (induction as arbitrary: i d) simp_all

lemma upsert_key_set: "x \<in> set (upsert_key k m r xs) \<Longrightarrow> x = r \<or> x \<in> set xs \<or> (\<exists>y \<in> set xs. k y = k r \<and> x = m y r)"
  by (induction xs) (auto split: if_splits)

lemma ids_apart_upsert: "ids_apart ids acct d \<Longrightarrow> ID r \<notin> ids \<Longrightarrow> ids_apart ids acct (upsert_stmt now r d)"
proof -
  assume "ids_apart ids acct d" "ID r \<notin> ids"
  then have "row_id row \<in> ids \<longrightarrow> AccountID (rrData row) = acct"
    if "row \<in> set (upsert_key row_id merge_row (to_row now r) (dbRes d))" for row
    using upsert_key_set [OF that] by (auto simp: ids_apart_def)
  then show ?thesis by (simp add: ids_apart_def upsert_stmt_def)
qed

definition settled :: "string set \<Rightarrow> string \<Rightarrow> res_row list \<Rightarrow> db \<Rightarrow> bool" where
  "settled ids acct rows d \<longleftrightarrow> rows_of acct d = rows \<and> row_id ` set rows \<subseteq> ids \<and> ids_apart ids acct d"

interpretation apart: table_invariant "ids_apart ids acct" "\<lambda>r. ID r \<notin> ids" "\<lambda>b. True" for ids acct
  by unfold_locales (simp add: ids_apart_def, erule (1) ids_apart_upsert, simp add: ids_apart_def delete_account_stmt_def)

interpretation settled: table_invariant "settled ids acct rows" "\<lambda>r. ID r \<notin> ids \<and> AccountID r \<noteq> acct" "\<lambda>b. b \<noteq> acct"
  for ids acct rows
proof unfold_locales
  fix d and d' :: db
  assume "dbRes d' = dbRes d" "settled ids acct rows d"
  then show "settled ids acct rows d'" by (simp add: settled_def rows_of_def ids_apart_def)
next
  fix d :: db and r :: reservation and now
  assume "settled ids acct rows d" "ID r \<notin> ids \<and> AccountID r \<noteq> acct"
  with upsert_other [of r ids acct d now] show "settled ids acct rows (upsert_stmt now r d)"
    by (simp add: settled_def)
next
  fix d b assume "settled ids acct rows d" "b \<noteq> acct"
  then show "settled ids acct rows (delete_account_stmt b d)"
    by (auto simp: settled_def rows_of_def ids_apart_def delete_account_stmt_def conj_commute intro: filter_cong)
qed

lemma ids_apart_prune: "ids_apart ids acct d \<Longrightarrow> ids_apart ids acct (snd (PruneAccounts faults keep d))"
  by (auto simp: ids_apart_def PruneAccounts_def exec_def Let_def prune_res_stmt_def prune_gpu_stmt_def)

lemma replace_settles:
  assumes "\<forall>n. \<not> faults n" "distinct (map ID items)" "\<forall>r \<in> set items. AccountID r = acct"
    and "ids_apart (ID ` set items) acct d"
  shows "settled (ID ` set items) acct (map (to_row now) items) (snd (ReplaceAccount faults now acct items d))"
proof -
  obtain d' where d': "ReplaceAccount faults now acct items d = (True, d')"
    using transaction_ok [OF assms(1)] unfolding ReplaceAccount_def by blast
  have rows: "dbRes d' = filter (\<lambda>row. AccountID (rrData row) \<noteq> acct) (dbRes d) @ map (to_row now) items"
    using replace_rows [OF d' assms(2)] assms(4) by (simp add: ids_apart_def)
  have acct: "AccountID (rrData (to_row now r)) = acct" if "r \<in> set items" for r
    using that assms(3) by (simp add: to_row_def)
  then have "rows_of acct d' = map (to_row now) items"
    unfolding rows_of_def rows by (simp add: filter_map filter_True)
  moreover have "ids_apart (ID ` set items) acct d'"
    using assms(4) acct by (auto simp: ids_apart_def rows)
  ultimately show ?thesis by (auto simp: d' settled_def)
qed

text \<open>
  When nothing fails in the database, an account whose fetch succeeded ends up with exactly what was
  fetched, in whatever place of the configuration it stands and whatever happens to the other
  accounts: the rows that no longer exist in the cloud account are gone, the others are as
  fetched. Accounts have different ids, items carry the id of their account, and IDs of
  items are not shared between accounts.
\<close>

theorem sync_refreshes:
  assumes "\<forall>n. \<not> faults n" and "as = as1 @ a # as2" and "\<not> acSNSOnly a"
    and "fetch (length as1) = (items, [])" "items \<noteq> []" "distinct (map ID items)"
    and "\<forall>r \<in> set items. AccountID r = acAccountID a"
    and others: "\<forall>j < length as. j \<noteq> length as1 \<and> \<not> acSNSOnly (as ! j) \<longrightarrow> acAccountID (as ! j) \<noteq> acAccountID a \<and>
      (\<forall>r \<in> set (fst (fetch j)). AccountID r = acAccountID (as ! j) \<and> ID r \<notin> ID ` set items)"
    and "ids_apart (ID ` set items) (acAccountID a) d"
  shows "\<exists>n. rows_of (acAccountID a) (snd (SyncAll faults clock fetch gpu_fetch as d)) = map (to_row (clock n)) items"
proof -
  let ?ids = "ID ` set items" and ?acct = "acAccountID a"
  let ?d0 = "snd (prune_removed faults as d)"
  let ?d1 = "snd (sync_accounts faults clock fetch gpu_fetch 0 as1 ?d0)"
  let ?d2 = "snd (sync_account faults clock a (fetch (length as1)) (gpu_fetch (length as1)) ?d1)"
  have "ids_apart ?ids ?acct ?d0" using assms(9) by (simp add: ids_apart_prune)
  then have apart: "ids_apart ?ids ?acct ?d1"
  proof (rule apart.sync_accounts, intro allI impI conjI ballI)
    fix j r assume j: "j < length as1" "\<not> acSNSOnly (as1 ! j)" "r \<in> set (fst (fetch (0 + j)))"
    with others [rule_format, of j] show "ID r \<notin> ?ids" by (simp add: assms(2) nth_append)
  qed simp
  let ?now = "clock (dbStmts ?d1)"
  have "settled ?ids ?acct (map (to_row ?now) items) (snd (ReplaceAccount faults ?now ?acct items ?d1))"
    by (rule replace_settles [OF assms(1,6,7) apart])
  moreover have "dbRes ?d2 = dbRes (snd (ReplaceAccount faults ?now ?acct items ?d1))"
    using assms(4,5) by (simp add: sync_gpu_same(1)) (simp add: sync_reservations_def split: prod.split bool.split)
  ultimately have "settled ?ids ?acct (map (to_row ?now) items) ?d2" by (rule settled.same_rows [rotated])
  then have "settled ?ids ?acct (map (to_row ?now) items)
      (snd (sync_accounts faults clock fetch gpu_fetch (Suc (length as1)) as2 ?d2))"
  proof (rule settled.sync_accounts, intro allI impI)
    fix j assume j: "j < length as2" "\<not> acSNSOnly (as2 ! j)"
    with others [rule_format, of "Suc (length as1) + j"]
    show "(\<forall>r \<in> set (fst (fetch (Suc (length as1) + j))). ID r \<notin> ?ids \<and> AccountID r \<noteq> ?acct) \<and>
      (snd (fetch (Suc (length as1) + j)) = [] \<and> fst (fetch (Suc (length as1) + j)) \<noteq> [] \<longrightarrow> acAccountID (as2 ! j) \<noteq> ?acct)"
      by (simp add: assms(2) nth_append)
  qed
  then have "settled ?ids ?acct (map (to_row ?now) items) (snd (SyncAll faults clock fetch gpu_fetch as d))"
    using assms(3) by (simp add: assms(2) sync_accounts_append del: snd_sync(1,4))
  then show ?thesis unfolding settled_def by blast
qed

lemma sync_refreshes_witness:
  "\<exists>n. rows_of ''1'' (snd (SyncAll (\<lambda>n. False) (\<lambda>n. int n) (\<lambda>i. ([sample_res ''1_b'' ''1'' 9], [])) (\<lambda>i. ([], []))
      [sample_account ''main'' ''1'' False] (sample_db\<lparr>dbRes := [to_row 0 (sample_res ''1_a'' ''1'' 5)]\<rparr>))) =
    map (to_row (int n)) [sample_res ''1_b'' ''1'' 9]"
proof -
  have a: "acAccountID (sample_account ''main'' ''1'' False) = ''1''" by (simp add: sample_account_def)
  have "\<exists>n. rows_of (acAccountID (sample_account ''main'' ''1'' False)) (snd (SyncAll (\<lambda>n. False) (\<lambda>n. int n)
      (\<lambda>i. ([sample_res ''1_b'' ''1'' 9], [])) (\<lambda>i. ([], [])) [sample_account ''main'' ''1'' False]
      (sample_db\<lparr>dbRes := [to_row 0 (sample_res ''1_a'' ''1'' 5)]\<rparr>))) =
    map (to_row (int n)) [sample_res ''1_b'' ''1'' 9]"
    by (rule sync_refreshes [where ?as1.0 = "[]" and ?as2.0 = "[]"])
      (simp_all add: a, simp_all add: sample_account_def sample_db_def ids_apart_def to_row_def row_id_def sample_res_def)
  then show ?thesis unfolding a .
qed

end
