(* ===== verification/Reminders.thy ===== *)
theory Reminders
  imports Scheduler
begin

text \<open>
  What the notifications of \<^verbatim>\<open>scheduler/scheduler.go\<close> promise: a check sends exactly the due
  reminders that are not in the log, a failed sending is retried, and over any sequence of
  the loop's events no reminder is delivered twice. The log is an interface with three
  laws, which the store's statements satisfy.
\<close>

section \<open>A log of deliveries\<close>

text \<open>
  Keys are marked and pruned; a key is alive at a time if no pruning up to that time
  may drop it.
\<close>

locale reminder_log =
  fixes has :: "'k \<Rightarrow> 'd \<Rightarrow> bool" and mark :: "'k list \<Rightarrow> 'd \<Rightarrow> 'd" and prune :: "'t::linorder \<Rightarrow> 'd \<Rightarrow> 'd"
    and alive :: "'t \<Rightarrow> 'k \<Rightarrow> bool" and valid :: "'t \<Rightarrow> bool"
  assumes has_mark: "has k (mark ks d) \<longleftrightarrow> k \<in> set ks \<or> has k d"
    and prune_alive: "valid t \<Longrightarrow> has k d \<Longrightarrow> alive t k \<Longrightarrow> has k (prune t d)"
    and alive_antimono: "t \<le> u \<Longrightarrow> alive u k \<Longrightarrow> alive t k"
begin

text \<open>All keys delivered so far are in the log or can never be due again.\<close>

lemma covered_keep:
  assumes "\<forall>k \<in> D. has k d \<or> \<not> alive t k" "t \<le> u" "\<And>k. has k d' = has k d"
  shows "\<forall>k \<in> D. has k d' \<or> \<not> alive u k"
  using assms alive_antimono by blast

lemma covered_mark:
  assumes "\<forall>k \<in> D. has k d \<or> \<not> alive t k" "t \<le> u"
  shows "\<forall>k \<in> D \<union> set ks. has k (mark ks d) \<or> \<not> alive u k"
  using assms alive_antimono has_mark by blast

lemma covered_prune:
  assumes "\<forall>k \<in> D. has k d \<or> \<not> alive t k" "t \<le> u" "valid u"
  shows "\<forall>k \<in> D. has k (prune u d) \<or> \<not> alive u k"
  using assms alive_antimono prune_alive by blast

lemma fresh:
  assumes "\<forall>k \<in> D. has k d \<or> \<not> alive t k" "t \<le> u" "\<forall>k \<in> set ks. alive u k \<and> \<not> has k d"
  shows "set ks \<inter> D = {}"
  using assms alive_antimono by blast

end

section \<open>The log of the store\<close>

definition mark_keys :: "log_key list \<Rightarrow> db \<Rightarrow> db" where
  "mark_keys ks d = run_stmts (map insert_log ks) d"

definition prune_keys :: "(string \<Rightarrow> int option) \<Rightarrow> gotime \<Rightarrow> db \<Rightarrow> db" where
  "prune_keys jd t d = prune_log_stmt jd (formatTime (t - notifyLogRetention)) d"

text \<open>A clock whose reading less the retention is still a time the store can write.\<close>

definition clock_ok :: "gotime \<Rightarrow> bool" where
  "clock_ok t \<longleftrightarrow> notifyLogRetention < t \<and> storable (t - notifyLogRetention)"

definition log_alive :: "(string \<Rightarrow> int option) \<Rightarrow> gotime \<Rightarrow> log_key \<Rightarrow> bool" where
  "log_alive jd t k \<longleftrightarrow>
     (\<forall>u. clock_ok u \<and> u \<le> t \<longrightarrow> \<not> stale_log jd (formatTime (u - notifyLogRetention)) k)"

lemma set_insert_log: "set (dbLog (insert_log k d)) = insert k (set (dbLog d))"
  by (auto simp: insert_log_def)

lemma set_mark_keys: "set (dbLog (mark_keys ks d)) = set ks \<union> set (dbLog d)"
  unfolding mark_keys_def by (induction ks arbitrary: d) (auto simp: set_insert_log)

lemma mark_keys_rows [simp]: "dbRes (mark_keys ks d) = dbRes d" "dbGpu (mark_keys ks d) = dbGpu d"
  unfolding mark_keys_def by (induction ks arbitrary: d) (simp_all add: insert_log_def)

interpretation notify_log: reminder_log "\<lambda>k d. k \<in> set (dbLog d)" mark_keys "prune_keys jd" "log_alive jd" clock_ok
  for jd
proof unfold_locales
  fix k ks and d :: db show "k \<in> set (dbLog (mark_keys ks d)) \<longleftrightarrow> k \<in> set ks \<or> k \<in> set (dbLog d)"
    by (auto simp: set_mark_keys)
next
  fix t k and d :: db assume "clock_ok t" "k \<in> set (dbLog d)" "log_alive jd t k"
  then show "k \<in> set (dbLog (prune_keys jd t d))"
    by (auto simp: prune_keys_def prune_log_stmt_def log_alive_def)
next
  fix t u k assume "t \<le> u" "log_alive jd u k"
  then show "log_alive jd t k" by (auto simp: log_alive_def)
qed

text \<open>The key of a reminder that is due is alive.\<close>

lemma due_alive:
  assumes jd: "jd_canonical jd" and t: "0 \<le> t" and e: "storable e" "t < e"
  shows "log_alive jd t (i, l, formatTime e)"
  unfolding log_alive_def
proof (intro allI impI)
  fix u assume u: "clock_ok u \<and> u \<le> t"
  let ?c = "u - notifyLogRetention"
  have ne: "\<not> IsZero e" "\<not> IsZero ?c" using u t e(2) by (simp_all add: IsZero_def clock_ok_def)
  have "jd (formatTime e) = Some (e div nano * 1000)" "jd (formatTime ?c) = Some (?c div nano * 1000)"
    using jd e(1) u ne by (simp_all add: jd_canonical_def formatTime_def storable_def clock_ok_def)
  moreover have "?c \<le> e" using u e(2) by (simp add: notifyLogRetention_def Hour_def)
  then have "?c div nano \<le> e div nano" by (simp add: nano_def zdiv_mono1)
  ultimately show "\<not> stale_log jd (formatTime ?c) (i, l, formatTime e)" by (simp add: stale_log_def)
qed

lemma gpu_alive: "log_alive jd t (i, l, formatTime 0)"
  by (simp add: log_alive_def stale_log_def formatTime_def IsZero_def)

section \<open>What a check sends\<close>

lemma query_unchanged: "snd (exec faults id d) = d\<lparr>dbStmts := Suc (dbStmts d)\<rparr>"
  by (simp add: exec_def Let_def)

lemma HasNotified_db: "snd (HasNotified faults i l e d) = d\<lparr>dbStmts := Suc (dbStmts d)\<rparr>"
  by (simp add: HasNotified_def exec_def Let_def)

lemma HasNotified_Some: "HasNotified faults i l e d = (Some b, d') \<Longrightarrow> b = (log_key i l e \<in> set (dbLog d))"
  by (simp add: HasNotified_def exec_def Let_def split: if_splits)

lemma drop_notified_result:
  "\<exists>n. snd (drop_notified faults as d) = d\<lparr>dbStmts := n\<rparr> \<and>
     set (fst (drop_notified faults as d)) \<subseteq> {a \<in> set as. alert_key a \<notin> set (dbLog d)} \<and>
     (distinct (map alert_key as) \<longrightarrow> distinct (map alert_key (fst (drop_notified faults as d))))"
proof (induction as arbitrary: d)
  case (Cons a as)
  obtain r d1 where h: "HasNotified faults (ID (aRes a)) (NotifyKey a) (EndTime (aRes a)) d = (r, d1)"
    by (metis surj_pair)
  have d1: "d1 = d\<lparr>dbStmts := Suc (dbStmts d)\<rparr>" using HasNotified_db h by (metis snd_conv)
  have r: "r = Some b \<Longrightarrow> b = (alert_key a \<in> set (dbLog d))" for b
    using HasNotified_Some h unfolding alert_key_def by blast
  obtain pending d2 where rec: "drop_notified faults as d1 = (pending, d2)" by (metis surj_pair)
  note IH = Cons.IH [of d1, unfolded rec fst_conv snd_conv]
  have snd: "snd (drop_notified faults (a # as) d) = d2"
    by (simp add: h rec split: option.split)
  have fst: "fst (drop_notified faults (a # as) d) =
      (if r = Some False then a # pending else pending)"
    by (simp add: h rec split: option.split)
  have new: "r = Some False \<Longrightarrow> alert_key a \<notin> set (dbLog d)" using r [of False] by simp
  have "dbLog d1 = dbLog d" by (simp add: d1)
  then show ?case unfolding fst snd using IH new by (auto simp: d1)
next
  case Nil
  show ?case by (intro exI [of _ "dbStmts d"]) simp
qed

lemma MarkNotifiedBatch_db:
  assumes "MarkNotifiedBatch faults as d = (ok, d')"
  shows "d' = (if ok then mark_keys (map alert_key as) d else d)\<lparr>dbStmts := dbStmts d'\<rparr>"
proof -
  have "d' = (if ok then run_stmts (id # map (\<lambda>a. insert_log (alert_key a)) as) d else d)\<lparr>dbStmts := dbStmts d'\<rparr>"
    using assms unfolding MarkNotifiedBatch_def by (rule transaction_result) auto
  moreover have "run_stmts (id # map (\<lambda>a. insert_log (alert_key a)) as) d = mark_keys (map alert_key as) d"
    by (simp add: mark_keys_def comp_def)
  ultimately show ?thesis by (simp only:)
qed

lemma marked: "d' = (if ok then e\<lparr>dbStmts := m\<rparr> else d\<lparr>dbStmts := m\<rparr>)\<lparr>dbStmts := k\<rparr> \<Longrightarrow>
    \<exists>n. d' = (if ok then e else d)\<lparr>dbStmts := n\<rparr>"
  for e d d' :: db
  by (rule exI [of _ k]) (cases ok; simp)

text \<open>The keys that were delivered, and whether they were recorded.\<close>

fun sent_keys :: "('a \<Rightarrow> log_key) \<Rightarrow> 'a outcome \<Rightarrow> log_key list" where
  "sent_keys key (Sent as ok) = map key as"
| "sent_keys key _ = []"

fun recorded :: "'a outcome \<Rightarrow> bool" where
  "recorded (Sent as ok) = ok"
| "recorded _ = True"

text \<open>What either check does to the tables.\<close>

definition check_effect :: "('a \<Rightarrow> log_key) \<Rightarrow> 'a list \<Rightarrow> 'a outcome \<Rightarrow> db \<Rightarrow> db \<Rightarrow> bool" where
  "check_effect key candidates out d d' \<longleftrightarrow>
     (\<exists>n. d' = (if recorded out then mark_keys (sent_keys key out) d else d)\<lparr>dbStmts := n\<rparr>) \<and>
     (distinct (map key candidates) \<longrightarrow> distinct (sent_keys key out)) \<and>
     (\<forall>k \<in> set (sent_keys key out). k \<in> key ` set candidates \<and> k \<notin> set (dbLog d))"

lemma mark_keys_Nil [simp]: "mark_keys [] d = d"
  by (simp add: mark_keys_def)

lemma mark_keys_stmts: "mark_keys ks (d\<lparr>dbStmts := n\<rparr>) = (mark_keys ks d)\<lparr>dbStmts := n\<rparr>"
  unfolding mark_keys_def by (rule run_stmts_dbStmts) auto

lemma check_effect_nothing:
  "check_effect key candidates NothingSent d (d\<lparr>dbStmts := n\<rparr>)"
  "check_effect key candidates (AllFailed as) d (d\<lparr>dbStmts := n\<rparr>)"
  by (auto simp: check_effect_def)


text \<open>The end of both checks: send what is pending, record it when some notifier succeeded.\<close>

lemma send_effect:
  assumes result: "(out, d') =
      (if pending = [] then (NothingSent, d\<lparr>dbStmts := n\<rparr>)
       else if True \<notin> set sends then (AllFailed pending, d\<lparr>dbStmts := n\<rparr>)
       else case MarkNotifiedBatch faults (map f pending) (d\<lparr>dbStmts := n\<rparr>) of (ok, d3) \<Rightarrow> (Sent pending ok, d3))"
    and pending: "\<forall>a \<in> set pending. a \<in> set candidates \<and> alert_key (f a) \<notin> set (dbLog d)"
      "distinct (map (\<lambda>a. alert_key (f a)) candidates) \<longrightarrow> distinct (map (\<lambda>a. alert_key (f a)) pending)"
  shows "check_effect (\<lambda>a. alert_key (f a)) candidates out d d'"
proof (cases "pending = [] \<or> True \<notin> set sends")
  case True
  with result have "out = NothingSent \<or> out = AllFailed pending" "d' = d\<lparr>dbStmts := n\<rparr>"
    by (auto split: if_splits)
  then show ?thesis using check_effect_nothing by metis
next
  case False
  obtain ok where m: "MarkNotifiedBatch faults (map f pending) (d\<lparr>dbStmts := n\<rparr>) = (ok, d')"
    and out: "out = Sent pending ok"
    using result False by (auto split: prod.splits if_splits)
  have "\<exists>n. d' = (if ok then mark_keys (map alert_key (map f pending)) d else d)\<lparr>dbStmts := n\<rparr>"
    using MarkNotifiedBatch_db [OF m] unfolding mark_keys_stmts by (rule marked)
  with pending show ?thesis by (auto simp: check_effect_def out comp_def)
qed

lemma CheckAndNotify_effect:
  assumes "CheckAndNotify faults jd cfg now now' sends d = (out, d')"
  shows "\<exists>alerts. (\<forall>a \<in> set alerts. \<exists>row \<in> set (dbRes d). alert_due jd now (MaxRemindDays cfg) row \<and>
        a = NewAlert (read_row row) now' (cfRemindDays cfg)) \<and>
      (distinct (map row_id (dbRes d)) \<longrightarrow> distinct (map alert_key alerts)) \<and>
      check_effect alert_key alerts out d d'"
proof (cases "sends = []")
  case True
  with assms have "out = NothingSent" "d' = d\<lparr>dbStmts := dbStmts d\<rparr>" by (simp_all add: CheckAndNotify_def)
  then show ?thesis using check_effect_nothing(1) [of alert_key "[]" d "dbStmts d"] by (intro exI [of _ "[]"]) simp
next
  case False
  obtain got d1 where got: "GetAlerts faults jd now now' (MaxRemindDays cfg) (cfRemindDays cfg) d = (got, d1)"
    by (metis surj_pair)
  show ?thesis
  proof (cases got)
    case None
    with assms False got have "out = NothingSent" "d' = d1" by (simp_all add: CheckAndNotify_def)
    moreover have "d1 = d\<lparr>dbStmts := Suc (dbStmts d)\<rparr>"
      using got None query_unchanged [of faults d]
      by (auto simp: GetAlerts_def queryReservations_def split: prod.splits bool.splits option.splits)
    ultimately show ?thesis using check_effect_nothing(1) [of alert_key "[]" d] by (intro exI [of _ "[]"]) simp
  next
    case (Some alerts)
    note res = get_alerts_result [OF got [unfolded Some]]
    obtain pending d2 where p: "drop_notified faults alerts d1 = (pending, d2)" by (metis surj_pair)
    note drop = drop_notified_result [of faults alerts d1, unfolded p fst_conv snd_conv]
    then obtain n where d2: "d2 = d\<lparr>dbStmts := n\<rparr>" by (auto simp: res(2))
    have "check_effect (\<lambda>a. alert_key (id a)) alerts out d d'"
      by (rule send_effect [where n = n and pending = pending and sends = sends and faults = faults])
        (use assms False got Some p d2 drop res(2) in \<open>auto simp: CheckAndNotify_def\<close>)
    then have "check_effect alert_key alerts out d d'" by simp
    moreover have "\<forall>a \<in> set alerts. \<exists>row \<in> set (dbRes d). alert_due jd now (MaxRemindDays cfg) row \<and>
        a = NewAlert (read_row row) now' (cfRemindDays cfg)"
      unfolding res(1) by auto
    moreover have "distinct (map alert_key alerts)" if "distinct (map row_id (dbRes d))"
    proof -
      have "map (fst \<circ> alert_key) alerts = map row_id (sort_key (jd_order jd) (filter (alert_due jd now (MaxRemindDays cfg)) (dbRes d)))"
        unfolding res(1) by (simp add: alert_key_def log_key_def)
      moreover have "distinct \<dots>" using that by (simp add: distinct_map inj_on_def)
      ultimately have "distinct (map fst (map alert_key alerts))" by (simp add: comp_def)
      then show ?thesis by (simp only: distinct_map)
    qed
    ultimately show ?thesis by blast
  qed
qed

text \<open>The same for the coverage check.\<close>

definition gpu_key :: "gpu_coverage \<Rightarrow> log_key" where
  "gpu_key g = (gID g, ''gpu_od'', formatTime 0)"

lemma alert_key_fake [simp]: "alert_key (fake_alert g) = gpu_key g"
  by (simp add: alert_key_def log_key_def fake_alert_def gpu_key_def NotifyKey_def zero_reservation_def)

lemma drop_gpu_notified_result:
  "\<exists>n. snd (drop_gpu_notified faults gs d) = d\<lparr>dbStmts := n\<rparr> \<and>
     set (fst (drop_gpu_notified faults gs d)) \<subseteq>
       {g \<in> set gs. gCoverage g = CoverageOnDemand \<and> gpu_key g \<notin> set (dbLog d)} \<and>
     (distinct (map gpu_key gs) \<longrightarrow> distinct (map gpu_key (fst (drop_gpu_notified faults gs d))))"
proof (induction gs arbitrary: d)
  case Nil
  show ?case by (intro exI [of _ "dbStmts d"]) simp
next
  case (Cons g gs)
  show ?case
  proof (cases "gCoverage g = CoverageOnDemand")
    case False
    with Cons.IH [of d] show ?thesis by auto
  next
    case True
    obtain r d1 where h: "HasNotified faults (gID g) ''gpu_od'' 0 d = (r, d1)" by (metis surj_pair)
    have d1: "d1 = d\<lparr>dbStmts := Suc (dbStmts d)\<rparr>" using HasNotified_db h by (metis snd_conv)
    have r: "r = Some b \<Longrightarrow> b = (gpu_key g \<in> set (dbLog d))" for b
      using HasNotified_Some h unfolding gpu_key_def log_key_def by blast
    obtain pending d2 where rec: "drop_gpu_notified faults gs d1 = (pending, d2)" by (metis surj_pair)
    note IH = Cons.IH [of d1, unfolded rec fst_conv snd_conv]
    have snd: "snd (drop_gpu_notified faults (g # gs) d) = d2"
      by (simp add: h rec True split: option.split)
    have fst: "fst (drop_gpu_notified faults (g # gs) d) = (if r = Some False then g # pending else pending)"
      by (simp add: h rec True split: option.split)
    have new: "r = Some False \<Longrightarrow> gpu_key g \<notin> set (dbLog d)" using r [of False] by simp
    have "dbLog d1 = dbLog d" by (simp add: d1)
    then show ?thesis unfolding fst snd using IH new True by (auto simp: d1)
  qed
qed

lemma CheckGPUODAndNotify_effect:
  assumes "CheckGPUODAndNotify faults sends d = (out, d')"
  shows "\<exists>gpus. (distinct (map gpu_id (dbGpu d)) \<longrightarrow> distinct (map gpu_key gpus)) \<and>
      check_effect gpu_key gpus out d d'"
proof (cases "sends = []")
  case True
  with assms have "out = NothingSent" "d' = d\<lparr>dbStmts := dbStmts d\<rparr>" by (simp_all add: CheckGPUODAndNotify_def)
  then show ?thesis using check_effect_nothing(1) [of gpu_key "[]" d "dbStmts d"] by (intro exI [of _ "[]"]) simp
next
  case False
  obtain got d1 where got: "ListGPUCoverage faults [] d = (got, d1)" by (metis surj_pair)
  have d1: "d1 = d\<lparr>dbStmts := Suc (dbStmts d)\<rparr>"
    using got query_unchanged [of faults d] by (auto simp: ListGPUCoverage_def split: prod.splits bool.splits)
  show ?thesis
  proof (cases got)
    case None
    with assms False got have "out = NothingSent" "d' = d1" by (simp_all add: CheckGPUODAndNotify_def)
    then show ?thesis using check_effect_nothing(1) [of gpu_key "[]" d] d1 by (intro exI [of _ "[]"]) simp
  next
    case (Some gpus)
    have gpus: "gpus = map read_gpu (sort_key (\<lambda>row. gCoverage (grData row)) (dbGpu d))"
      using got Some by (simp add: ListGPUCoverage_def exec_def Let_def split: if_splits)
    obtain pending d2 where p: "drop_gpu_notified faults gpus d1 = (pending, d2)" by (metis surj_pair)
    note drop = drop_gpu_notified_result [of faults gpus d1, unfolded p fst_conv snd_conv]
    then obtain n where d2: "d2 = d\<lparr>dbStmts := n\<rparr>" by (auto simp: d1)
    have "check_effect (\<lambda>g. alert_key (fake_alert g)) gpus out d d'"
      by (rule send_effect [where n = n and pending = pending and sends = sends and faults = faults])
        (use assms False got Some p d2 drop d1 in \<open>auto simp: CheckGPUODAndNotify_def\<close>)
    then have "check_effect gpu_key gpus out d d'" by simp
    moreover have "distinct (map gpu_key gpus)" if "distinct (map gpu_id (dbGpu d))"
    proof -
      have "map (fst \<circ> gpu_key) gpus = map gpu_id (sort_key (\<lambda>row. gCoverage (grData row)) (dbGpu d))"
        unfolding gpus by (simp add: gpu_key_def read_gpu_def gpu_id_def)
      moreover have "distinct \<dots>" using that by (simp add: distinct_map inj_on_def)
      ultimately have "distinct (map fst (map gpu_key gpus))" by (simp add: comp_def)
      then show ?thesis by (simp only: distinct_map)
    qed
    ultimately show ?thesis by blast
  qed
qed


section \<open>No reminder twice\<close>

definition tables_ok :: "db \<Rightarrow> bool" where
  "tables_ok d \<longleftrightarrow> stored_ok d \<and> distinct (map row_id (dbRes d)) \<and> distinct (map gpu_id (dbGpu d))"

interpretation storing: table_invariant
  "\<lambda>d. stored_ok d \<and> distinct (map row_id (dbRes d))" times_ok "\<lambda>b. True"
proof unfold_locales
  fix d and r :: reservation and now
  assume d: "stored_ok d \<and> distinct (map row_id (dbRes d))" and r: "times_ok r"
  have "canonical_time (rrEnd row)" if "row \<in> set (dbRes (upsert_stmt now r d))" for row
  proof -
    from that upsert_key_set have "row = to_row now r \<or> row \<in> set (dbRes d) \<or> (\<exists>y. row = merge_row y (to_row now r))"
      unfolding upsert_stmt_def by fastforce
    with d canonical_to_row [OF r, of now] show ?thesis by (auto simp: stored_ok_def merge_row_def)
  qed
  moreover have "distinct (map row_id (dbRes (upsert_stmt now r d)))"
    using d by (simp add: upsert_stmt_def distinct_upsert_key)
  ultimately show "stored_ok (upsert_stmt now r d) \<and> distinct (map row_id (dbRes (upsert_stmt now r d)))"
    by (simp add: stored_ok_def)
qed (auto simp: stored_ok_def delete_account_stmt_def distinct_filter_keys)

lemma reservation_stmts_gpu [simp]:
  "dbGpu (upsert_stmt now r d) = dbGpu d" "dbGpu (delete_account_stmt acct d) = dbGpu d"
  by (simp_all add: upsert_stmt_def delete_account_stmt_def)

lemma sync_reservations_same:
  "dbGpu (snd (sync_reservations faults clock a items errs d)) = dbGpu d \<and>
   dbLog (snd (sync_reservations faults clock a items errs d)) = dbLog d"
proof (cases "errs = [] \<and> items \<noteq> []")
  case True
  have "dbGpu (snd (ReplaceAccount faults now acct items d)) = dbGpu d"
    "dbLog (snd (ReplaceAccount faults now acct items d)) = dbLog d" for now acct
    unfolding ReplaceAccount_def by (rule transaction_same; auto)+
  with True show ?thesis
    by (simp add: sync_reservations_def split: prod.split bool.split) (metis snd_conv)
next
  case False
  have "dbGpu (snd (upsert_each faults clock items d)) = dbGpu d \<and> dbLog (snd (upsert_each faults clock items d)) = dbLog d"
  proof (induction items arbitrary: d)
    case (Cons r items)
    have "dbGpu (snd (Upsert faults (clock (dbStmts d)) r d)) = dbGpu d"
      "dbLog (snd (Upsert faults (clock (dbStmts d)) r d)) = dbLog d"
      unfolding Upsert_def by (rule exec_same; simp)+
    with Cons.IH show ?case by simp
  qed simp
  with False show ?thesis by (auto simp: sync_reservations_def)
qed

text \<open>The coverage rows keep distinct IDs.\<close>

definition gpu_distinct :: "db \<Rightarrow> bool" where
  "gpu_distinct d \<longleftrightarrow> distinct (map gpu_id (dbGpu d))"

lemma gpu_distinct_stmts [simp]:
  "gpu_distinct (d\<lparr>dbStmts := n\<rparr>) = gpu_distinct d"
  "gpu_distinct d \<Longrightarrow> gpu_distinct (upsert_gpu_stmt now g d)"
  "gpu_distinct d \<Longrightarrow> gpu_distinct (delete_gpu_account_stmt acct d)"
  by (simp_all add: gpu_distinct_def upsert_gpu_stmt_def distinct_upsert_key delete_gpu_account_stmt_def
      distinct_filter_keys)

lemma gpu_distinct_run: "gpu_distinct d \<Longrightarrow> gpu_distinct (run_stmts (map (upsert_gpu_stmt now) gs) d)"
  by (induction gs arbitrary: d) simp_all

lemma gpu_distinct_sync_gpu:
  assumes "gpu_distinct d"
  shows "gpu_distinct (snd (sync_gpu faults clock a items errs d))"
proof -
  have replace: "gpu_distinct (snd (ReplaceGPUCoverage faults now acct items d))" for now acct
  proof -
    obtain ok d' where u: "ReplaceGPUCoverage faults now acct items d = (ok, d')" by (metis surj_pair)
    have "d' = (if ok then run_stmts (delete_gpu_account_stmt acct # map (upsert_gpu_stmt now) items) d else d)\<lparr>dbStmts := dbStmts d'\<rparr>"
      using u unfolding ReplaceGPUCoverage_def by (rule transaction_result) auto
    then obtain n where d': "d' = (if ok then run_stmts (delete_gpu_account_stmt acct # map (upsert_gpu_stmt now) items) d else d)\<lparr>dbStmts := n\<rparr>"
      by blast
    show ?thesis unfolding u snd_conv d' using assms by (simp add: gpu_distinct_run)
  qed
  have each: "gpu_distinct (snd (upsert_gpu_each faults clock gs e))" if "gpu_distinct e" for gs e
    using that
  proof (induction gs arbitrary: e)
    case (Cons g gs)
    have "gpu_distinct (snd (UpsertGPUCoverage faults (clock (dbStmts e)) g e))"
      using Cons.prems by (simp add: UpsertGPUCoverage_def exec_def Let_def)
    with Cons.IH show ?case by simp
  qed simp
  show ?thesis
    using assms each [OF assms, of items] replace [of "clock (dbStmts d)" "acAccountID a"]
    by (simp add: sync_gpu_def split: prod.split bool.split) (metis snd_conv)
qed

lemma sync_accounts_tables:
  "gpu_distinct d \<Longrightarrow> gpu_distinct (snd (sync_accounts faults clock fetch gpu_fetch i as d)) \<and>
     dbLog (snd (sync_accounts faults clock fetch gpu_fetch i as d)) = dbLog d"
proof (induction as arbitrary: i d)
  case (Cons a as)
  let ?e = "snd (sync_reservations faults clock a (fst (fetch i)) (snd (fetch i)) d)"
  have "gpu_distinct ?e" "dbLog ?e = dbLog d"
    using Cons.prems sync_reservations_same by (simp_all add: gpu_distinct_def)
  with Cons show ?case by (simp add: gpu_distinct_sync_gpu sync_gpu_same(2))
qed simp

lemma prune_tables:
  "tables_ok d \<Longrightarrow> tables_ok (snd (PruneAccounts faults keep d))"
  by (auto simp: tables_ok_def stored_ok_def PruneAccounts_def exec_def Let_def prune_res_stmt_def
      prune_gpu_stmt_def distinct_filter_keys)

definition fetch_ok :: "reservation fetched \<Rightarrow> bool" where
  "fetch_ok fetch \<longleftrightarrow> (\<forall>i. \<forall>r \<in> set (fst (fetch i)). times_ok r)"

lemma SyncAll_tables:
  assumes "tables_ok d" "fetch_ok fetch"
  shows "tables_ok (snd (SyncAll faults clock fetch gpu_fetch as d))"
    and "dbLog (snd (SyncAll faults clock fetch gpu_fetch as d)) = dbLog d"
proof -
  let ?d0 = "snd (prune_removed faults as d)"
  have d0: "tables_ok ?d0" "dbLog ?d0 = dbLog d" using assms(1) by (simp_all add: prune_tables)
  then have "gpu_distinct ?d0" by (simp add: tables_ok_def gpu_distinct_def)
  note gpu = sync_accounts_tables [OF this, of faults clock fetch gpu_fetch 0 as]
  have "stored_ok (snd (sync_accounts faults clock fetch gpu_fetch 0 as ?d0)) \<and>
      distinct (map row_id (dbRes (snd (sync_accounts faults clock fetch gpu_fetch 0 as ?d0))))"
    using d0(1) assms(2) by (intro storing.sync_accounts) (auto simp: tables_ok_def fetch_ok_def)
  with gpu d0(2) show "tables_ok (snd (SyncAll faults clock fetch gpu_fetch as d))"
    "dbLog (snd (SyncAll faults clock fetch gpu_fetch as d)) = dbLog d"
    unfolding snd_sync(3) by (simp_all add: tables_ok_def gpu_distinct_def)
qed


text \<open>The keys two outcomes delivered, and the order of the clock readings over a list of jobs.\<close>

definition out_keys :: "alert outcome \<times> gpu_coverage outcome \<Rightarrow> log_key list" where
  "out_keys out = sent_keys alert_key (fst out) @ sent_keys gpu_key (snd out)"

fun jobs_ok :: "gotime \<Rightarrow> job list \<Rightarrow> bool" where
  "jobs_ok t [] = True"
| "jobs_ok t (Sync faults clock fetch gpu_fetch # js) = (fetch_ok fetch \<and> jobs_ok t js)"
| "jobs_ok t (Check faults now now' sends gpu_sends # js) = (t \<le> now \<and> jobs_ok now js)"
| "jobs_ok t (Prune faults now # js) = (t \<le> now \<and> clock_ok now \<and> jobs_ok now js)"

definition covered :: "(string \<Rightarrow> int option) \<Rightarrow> log_key set \<Rightarrow> gotime \<Rightarrow> db \<Rightarrow> bool" where
  "covered jd D t d \<longleftrightarrow> (\<forall>k \<in> D. k \<in> set (dbLog d) \<or> \<not> log_alive jd t k)"

lemma covered_effect:
  assumes "check_effect key candidates out d d'" "recorded out"
    and "\<forall>k \<in> key ` set candidates. log_alive jd now k" "distinct (map key candidates)"
    and cov: "covered jd D t d" and "t \<le> now"
  shows "distinct (sent_keys key out)" "set (sent_keys key out) \<inter> D = {}"
    "covered jd (D \<union> set (sent_keys key out)) now d'" "tables_ok d' = tables_ok d"
    "dbGpu d' = dbGpu d"
proof -
  from assms(1,2) obtain n where d': "d' = (mark_keys (sent_keys key out) d)\<lparr>dbStmts := n\<rparr>"
    by (auto simp: check_effect_def)
  show "distinct (sent_keys key out)" using assms(1,4) by (simp add: check_effect_def)
  have "\<forall>k \<in> set (sent_keys key out). log_alive jd now k \<and> k \<notin> set (dbLog d)"
    using assms(1,3) unfolding check_effect_def by blast
  with notify_log.fresh [OF cov [unfolded covered_def] assms(6)] show "set (sent_keys key out) \<inter> D = {}"
    by simp
  from notify_log.covered_mark [OF cov [unfolded covered_def] assms(6), of "sent_keys key out"]
  show "covered jd (D \<union> set (sent_keys key out)) now d'" by (simp add: covered_def d')
  show "tables_ok d' = tables_ok d" "dbGpu d' = dbGpu d" by (simp_all add: d' tables_ok_def stored_ok_def)
qed

lemma due_keys_alive:
  assumes "jd_canonical jd" "stored_ok d" "0 \<le> now"
    and "row \<in> set (dbRes d)" "alert_due jd now maxDays row"
  shows "log_alive jd now (alert_key (NewAlert (read_row row) now' remind))"
proof -
  have can: "canonical_time (rrEnd row)" using assms(2,4) by (simp add: stored_ok_def)
  from alert_due_iff(1) [OF assms(1) can assms(3)] assms(5) have e: "now < read_time (rrEnd row)"
    by (simp add: due_def)
  have "storable (read_time (rrEnd row))"
    by (rule canonical_timeE [OF can]) (use e assms(3) in simp_all)
  from due_alive [OF assms(1,3) this e] show ?thesis by (simp add: alert_key_def log_key_def)
qed

lemma covered_check:
  assumes "job_step cfg jd (Check faults now now' sends gpu_sends) d = (out, d')"
    and "recorded (fst out)" "recorded (snd out)" "jd_canonical jd" "tables_ok d" "covered jd D t d" "t \<le> now" "0 \<le> now"
  shows "distinct (out_keys out)" "set (out_keys out) \<inter> D = {}" "covered jd (D \<union> set (out_keys out)) now d'" "tables_ok d'"
proof -
  obtain a d1 where a: "CheckAndNotify faults jd cfg now now' sends d = (a, d1)" by (metis surj_pair)
  obtain g where g: "CheckGPUODAndNotify faults gpu_sends d1 = (g, d')" and out: "out = (a, g)"
    using assms(1) a by (auto split: prod.splits)
  have rows: "stored_ok d" "distinct (map row_id (dbRes d))" using assms(5) by (simp_all add: tables_ok_def)
  from CheckAndNotify_effect [OF a] obtain alerts where
    from_rows: "\<forall>x \<in> set alerts. \<exists>row \<in> set (dbRes d). alert_due jd now (MaxRemindDays cfg) row \<and>
      x = NewAlert (read_row row) now' (cfRemindDays cfg)"
    and "distinct (map row_id (dbRes d)) \<longrightarrow> distinct (map alert_key alerts)" and eff: "check_effect alert_key alerts a d d1"
    by blast
  then have dist: "distinct (map alert_key alerts)" using rows(2) by blast
  have alive: "\<forall>k \<in> alert_key ` set alerts. log_alive jd now k"
    using from_rows due_keys_alive [OF assms(4) rows(1) assms(8)] by fastforce
  have ra: "recorded a" and rg: "recorded g" using assms(2,3) by (simp_all add: out)
  note one = covered_effect [OF eff ra alive dist assms(6,7)]
  from CheckGPUODAndNotify_effect [OF g] obtain gpus where
    "distinct (map gpu_id (dbGpu d1)) \<longrightarrow> distinct (map gpu_key gpus)" and geff: "check_effect gpu_key gpus g d1 d'"
    by blast
  then have gdist: "distinct (map gpu_key gpus)" using assms(5) one(5) by (simp add: tables_ok_def)
  have galive: "\<forall>k \<in> gpu_key ` set gpus. log_alive jd now k" by (auto simp: gpu_key_def gpu_alive)
  note two = covered_effect [OF geff rg galive gdist one(3) order_refl]
  show "distinct (out_keys out)" using one(1) two(1,2) by (auto simp: out_keys_def out)
  show "set (out_keys out) \<inter> D = {}" using one(2) two(2) by (auto simp: out_keys_def out)
  show "covered jd (D \<union> set (out_keys out)) now d'" using two(3) by (simp add: out_keys_def out Un_assoc)
  show "tables_ok d'" using assms(5) one(4) two(4) by simp
qed

lemma pruneNotifyLog_cases:
  "pruneNotifyLog faults jd now d = d\<lparr>dbStmts := Suc (dbStmts d)\<rparr> \<or>
   pruneNotifyLog faults jd now d = (prune_keys jd now d)\<lparr>dbStmts := Suc (dbStmts d)\<rparr>"
  by (simp add: pruneNotifyLog_def PruneNotifyLog_def exec_def Let_def prune_keys_def)

lemma pruneNotifyLog_tables: "tables_ok (pruneNotifyLog faults jd now d) = tables_ok d"
  using pruneNotifyLog_cases [of faults jd now d]
  by (auto simp: tables_ok_def stored_ok_def prune_keys_def prune_log_stmt_def)

lemma covered_pruning:
  assumes "tables_ok d" "covered jd D t d" "t \<le> now" "clock_ok now"
  shows "covered jd D now (pruneNotifyLog faults jd now d) \<and> tables_ok (pruneNotifyLog faults jd now d)"
proof -
  note pruneNotifyLog_cases [of faults jd now d]
  moreover have "covered jd D now d"
    using notify_log.covered_keep [OF assms(2) [unfolded covered_def] assms(3) refl] by (simp add: covered_def)
  moreover have "covered jd D now (prune_keys jd now d)"
    using notify_log.covered_prune [OF assms(2) [unfolded covered_def] assms(3,4)] by (simp add: covered_def)
  ultimately show ?thesis
    using assms(1) pruneNotifyLog_tables by (auto simp: covered_def)
qed

lemma run_jobs_covered:
  "run_jobs cfg jd js d = (outs, d') \<Longrightarrow> jd_canonical jd \<Longrightarrow> tables_ok d \<Longrightarrow> covered jd D t d \<Longrightarrow> 0 \<le> t \<Longrightarrow>
   jobs_ok t js \<Longrightarrow> \<forall>out \<in> set outs. recorded (fst out) \<and> recorded (snd out) \<Longrightarrow>
   distinct (concat (map out_keys outs)) \<and> set (concat (map out_keys outs)) \<inter> D = {}"
proof (induction js arbitrary: d outs D t)
  case (Cons j js)
  obtain out d1 where step: "job_step cfg jd j d = (out, d1)" by (metis surj_pair)
  obtain outs' where run: "run_jobs cfg jd js d1 = (outs', d')" and outs: "outs = out # outs'"
    using Cons.prems(1) step by (auto split: prod.splits)
  note rest = Cons.IH [OF run Cons.prems(2)]
  show ?case
  proof (cases j)
    case (Sync faults clock fetch gpu_fetch)
    with Cons.prems step have ok: "fetch_ok fetch" "jobs_ok t js" and o: "out_keys out = []"
      and d1: "d1 = snd (SyncAll faults clock fetch gpu_fetch (cfAccounts cfg) d)"
      by (auto simp: out_keys_def simp del: snd_sync)
    have "tables_ok d1" "covered jd D t d1"
      unfolding d1 using SyncAll_tables [OF Cons.prems(3) ok(1)] Cons.prems(4) by (simp_all only: covered_def)
    with rest [of D t] Cons.prems ok o show ?thesis by (simp add: outs)
  next
    case (Check faults now now' sends gpu_sends)
    with Cons.prems have t: "t \<le> now" "0 \<le> now" "jobs_ok now js" and r: "recorded (fst out)" "recorded (snd out)"
      by (auto simp: outs)
    note chk = covered_check [OF step [unfolded Check] r Cons.prems(2,3,4) t(1,2)]
    from rest [OF chk(4,3) t(2,3)] Cons.prems(7) have
      "distinct (concat (map out_keys outs'))" "set (concat (map out_keys outs')) \<inter> (D \<union> set (out_keys out)) = {}"
      by (simp_all add: outs)
    with chk(1,2) show ?thesis by (auto simp: outs)
  next
    case (Prune faults now)
    with Cons.prems have t: "t \<le> now" "clock_ok now" "jobs_ok now js" by auto
    from Prune step have o: "out_keys out = []" and d1: "d1 = pruneNotifyLog faults jd now d"
      by (auto simp: out_keys_def)
    have "covered jd D now d1" "tables_ok d1"
      unfolding d1 using covered_pruning [OF Cons.prems(3,4) t(1,2)] by blast+
    with rest [of D now] t Cons.prems o show ?thesis by (simp add: outs)
  qed
qed simp

text \<open>
  C7. No reminder is delivered twice. Over any sequence of synchronisations, checks and prunings, in any order,
  whatever is fetched, whichever notifiers and database statements fail: as long as every
  batch that was delivered could be recorded, all delivered reminders have different dedup
  keys (the resource, the reminder and the expiry date, or the uncovered instance). The
  clock does not run backwards, and stored times are in the range of the layout.
\<close>

theorem no_reminder_twice:
  assumes "run_jobs cfg jd js d = (outs, d')" and "jd_canonical jd" and "tables_ok d" and "jobs_ok 0 js"
    and "\<forall>out \<in> set outs. recorded (fst out) \<and> recorded (snd out)"
  shows "distinct (concat (map out_keys outs))"
  using run_jobs_covered [OF assms(1-3) _ order_refl assms(4,5), of "{}"] by (simp add: covered_def)

lemma MarkNotifiedBatch_ok: "\<forall>n. \<not> faults n \<Longrightarrow> MarkNotifiedBatch faults as d = (ok, d') \<Longrightarrow> ok"
  using transaction_ok [of faults "id # map (\<lambda>a. insert_log (alert_key a)) as" d]
  unfolding MarkNotifiedBatch_def by (metis prod.inject)

lemma recorded_ok:
  assumes "\<forall>n. \<not> faults n"
  shows "recorded (fst (CheckAndNotify faults jd cfg now now' sends d))"
    "recorded (fst (CheckGPUODAndNotify faults gpu_sends d))"
  using MarkNotifiedBatch_ok [OF assms]
  by (auto simp: CheckAndNotify_def CheckGPUODAndNotify_def split: prod.split option.split)

lemma no_reminder_twice_witness:
  "\<exists>outs d'. run_jobs DefaultConfig sample_jd [Check (\<lambda>n. False) 0 0 [True] [True], Check (\<lambda>n. False) 5 5 [True] [True]]
      (sample_db\<lparr>dbRes := [to_row 0 (sample_res ''a'' ''1'' Day)]\<rparr>) = (outs, d') \<and>
     length outs = 2 \<and> distinct (concat (map out_keys outs))"
proof -
  let ?d = "sample_db\<lparr>dbRes := [to_row 0 (sample_res ''a'' ''1'' Day)]\<rparr>"
  let ?js = "[Check (\<lambda>n. False) 0 0 [True] [True], Check (\<lambda>n. False) 5 5 [True] [True]]"
  have t: "times_ok (sample_res ''a'' ''1'' Day)"
    by (simp add: times_ok_def sample_res_def zero_reservation_def storable_0 storable_day)
  then have ok: "tables_ok ?d"
    using canonical_to_row [OF t] by (simp add: tables_ok_def stored_ok_def sample_db_def)
  have rec: "recorded (fst out) \<and> recorded (snd out)"
    if step: "job_step DefaultConfig sample_jd (Check (\<lambda>n. False) i k [True] [True]) d = (out, d')" for i k d out d'
  proof -
    obtain a d1 where a: "CheckAndNotify (\<lambda>n. False) sample_jd DefaultConfig i k [True] d = (a, d1)" by (metis surj_pair)
    obtain g d2 where g: "CheckGPUODAndNotify (\<lambda>n. False) [True] d1 = (g, d2)" by (metis surj_pair)
    from step a g have "out = (a, g)" by simp
    moreover have "recorded a" "recorded g"
      using recorded_ok(1) [of "\<lambda>n. False" sample_jd DefaultConfig i k "[True]" d]
        recorded_ok(2) [of "\<lambda>n. False" "[True]" d1] by (simp_all only: a g fst_conv simp_thms)
    ultimately show ?thesis by simp
  qed
  obtain o1 d1 where s1: "job_step DefaultConfig sample_jd (Check (\<lambda>n. False) 0 0 [True] [True]) ?d = (o1, d1)"
    by (metis surj_pair)
  obtain o2 d2 where s2: "job_step DefaultConfig sample_jd (Check (\<lambda>n. False) 5 5 [True] [True]) d1 = (o2, d2)"
    by (metis surj_pair)
  have r: "run_jobs DefaultConfig sample_jd ?js ?d = ([o1, o2], d2)"
    by (simp add: s1 s2 del: job_step.simps)
  have outs: "\<forall>out \<in> set [o1, o2]. recorded (fst out) \<and> recorded (snd out)"
    using rec [OF s1] rec [OF s2] by simp
  have "distinct (concat (map out_keys [o1, o2]))"
    by (rule no_reminder_twice [OF r sample_jd ok _ outs]) simp
  with r show ?thesis by (intro exI [of _ "[o1, o2]"] exI [of _ d2]) simp
qed

section \<open>Exactly what is due\<close>

fun handed :: "'a outcome \<Rightarrow> 'a list" where
  "handed NothingSent = []"
| "handed (AllFailed as) = as"
| "handed (Sent as ok) = as"

lemma drop_notified_exact:
  assumes "\<forall>n. \<not> faults n"
  shows "drop_notified faults as d = (filter (\<lambda>a. alert_key a \<notin> set (dbLog d)) as, d\<lparr>dbStmts := dbStmts d + length as\<rparr>)"
proof (induction as arbitrary: d)
  case (Cons a as)
  have "HasNotified faults (ID (aRes a)) (NotifyKey a) (EndTime (aRes a)) d =
      (Some (alert_key a \<in> set (dbLog d)), d\<lparr>dbStmts := Suc (dbStmts d)\<rparr>)"
    using assms by (simp add: HasNotified_def exec_def Let_def alert_key_def)
  then show ?case by (simp add: Cons.IH)
qed simp

definition wanted :: "config \<Rightarrow> gotime \<Rightarrow> gotime \<Rightarrow> db \<Rightarrow> reservation list" where
  "wanted cfg now now' d =
     filter (\<lambda>r. due now (MaxRemindDays cfg) r \<and> alert_key (NewAlert r now' (cfRemindDays cfg)) \<notin> set (dbLog d))
       (map read_row (dbRes d))"

lemma check_exact_lemma:
  assumes ok: "\<forall>n. \<not> faults n" and jd: "jd_canonical jd" "stored_ok d" "0 \<le> now" and "sends \<noteq> []"
    and check: "CheckAndNotify faults jd cfg now now' sends d = (out, d')"
  shows "mset (map aRes (handed out)) = mset (wanted cfg now now' d) \<and>
    (\<forall>a \<in> set (handed out). a = NewAlert (aRes a) now' (cfRemindDays cfg)) \<and>
    set (dbLog d') = set (dbLog d) \<union> (if True \<in> set sends then alert_key ` set (handed out) else {})"
proof -
  let ?fresh = "\<lambda>r. alert_key (NewAlert r now' (cfRemindDays cfg)) \<notin> set (dbLog d)"
  obtain alerts d1 where got: "GetAlerts faults jd now now' (MaxRemindDays cfg) (cfRemindDays cfg) d = (Some alerts, d1)"
    using ok by (simp add: GetAlerts_def queryReservations_def exec_def Let_def)
  note res = get_alerts_lemma [OF jd got]
  have d1: "dbLog d1 = dbLog d" using get_alerts_result(2) [OF got] by simp
  define pending where "pending = filter (\<lambda>a. alert_key a \<notin> set (dbLog d)) alerts"
  have drop: "drop_notified faults alerts d1 = (pending, d1\<lparr>dbStmts := dbStmts d1 + length alerts\<rparr>)"
    using drop_notified_exact [OF ok] by (simp add: d1 pending_def)
  have sent: "handed out = pending \<and>
    set (dbLog d') = set (dbLog d) \<union> (if True \<in> set sends then alert_key ` set pending else {})"
  proof (cases "pending = [] \<or> True \<notin> set sends")
    case True
    with check assms(5) got drop show ?thesis
      by (auto simp: CheckAndNotify_def d1 split: if_splits)
  next
    case False
    obtain ok' where m: "MarkNotifiedBatch faults pending (d1\<lparr>dbStmts := dbStmts d1 + length alerts\<rparr>) = (ok', d')"
      and out: "out = Sent pending ok'"
      using check assms(5) got drop False by (auto simp: CheckAndNotify_def split: prod.splits if_splits)
    have ok': ok' using MarkNotifiedBatch_ok [OF ok m] .
    have "\<exists>n. d' = (if ok' then mark_keys (map alert_key pending) d1 else d1)\<lparr>dbStmts := n\<rparr>"
      using MarkNotifiedBatch_db [OF m] unfolding mark_keys_stmts by (rule marked)
    then have "dbLog d' = dbLog (mark_keys (map alert_key pending) d1)" using ok' by auto
    then show ?thesis using False by (simp add: out set_mark_keys d1 Un_commute)
  qed
  have key: "alert_key a \<notin> set (dbLog d) \<longleftrightarrow> ?fresh (aRes a)" if "a \<in> set alerts" for a
    using res(3) [OF that] by metis
  have "pending = filter (\<lambda>a. ?fresh (aRes a)) alerts"
    unfolding pending_def using key by (rule filter_cong [OF refl])
  then have "map aRes pending = filter ?fresh (map aRes alerts)" by (simp add: filter_map comp_def)
  then have "mset (map aRes pending) = filter_mset ?fresh (mset (map aRes alerts))" by simp
  also have "\<dots> = mset (wanted cfg now now' d)"
    unfolding res(1) wanted_def by (simp add: filter_filter conj_commute flip: mset_filter)
  finally show ?thesis using sent res(3) by (auto simp: pending_def)
qed

text \<open>
  C15. A check that runs without database faults hands to the notifiers exactly the reservations that are
  due and whose reminder is not in the log, each once. If some notifier accepts them, all of
  them are in the log afterwards; if all fail, the log is as it was, and the next check
  finds them again.
\<close>

theorem check_exact:
  assumes "\<forall>n. \<not> faults n" "jd_canonical jd" "stored_ok d" "0 \<le> now" "sends \<noteq> []"
    and "CheckAndNotify faults jd cfg now now' sends d = (out, d')"
  shows "mset (map aRes (handed out)) = mset (wanted cfg now now' d) \<and>
    (\<forall>a \<in> set (handed out). a = NewAlert (aRes a) now' (cfRemindDays cfg)) \<and>
    set (dbLog d') = set (dbLog d) \<union> (if True \<in> set sends then alert_key ` set (handed out) else {})"
  using assms by (rule check_exact_lemma)

lemma check_exact_witness:
  "\<exists>out d'. CheckAndNotify (\<lambda>n. False) sample_jd DefaultConfig 0 0 [False, True]
      (sample_db\<lparr>dbRes := [to_row 0 (sample_res ''a'' ''1'' Day)]\<rparr>) = (out, d') \<and>
     mset (map aRes (handed out)) = mset (wanted DefaultConfig 0 0 (sample_db\<lparr>dbRes := [to_row 0 (sample_res ''a'' ''1'' Day)]\<rparr>))"
proof -
  let ?d = "sample_db\<lparr>dbRes := [to_row 0 (sample_res ''a'' ''1'' Day)]\<rparr>"
  have t: "times_ok (sample_res ''a'' ''1'' Day)"
    by (simp add: times_ok_def sample_res_def zero_reservation_def storable_0 storable_day)
  have ok: "stored_ok ?d" using canonical_to_row [OF t] by (simp add: stored_ok_def)
  obtain out d' where c: "CheckAndNotify (\<lambda>n. False) sample_jd DefaultConfig 0 0 [False, True] ?d = (out, d')"
    by (metis surj_pair)
  have "mset (map aRes (handed out)) = mset (wanted DefaultConfig 0 0 ?d)"
    using check_exact [OF _ sample_jd ok _ _ c] by simp
  with c show ?thesis by blast
qed

section \<open>The tables stay well-formed\<close>

lemma effect_tables: "check_effect key candidates out d d' \<Longrightarrow> dbRes d' = dbRes d \<and> dbGpu d' = dbGpu d"
  by (auto simp: check_effect_def)

definition job_ok :: "job \<Rightarrow> bool" where
  "job_ok j = (case j of Sync faults clock fetch gpu_fetch \<Rightarrow> fetch_ok fetch | _ \<Rightarrow> True)"

lemma job_step_tables:
  assumes "job_step cfg jd j d = (out, d')" "tables_ok d" "job_ok j"
  shows "tables_ok d'"
proof (cases j)
  case (Sync faults clock fetch gpu_fetch)
  with assms SyncAll_tables(1) [OF assms(2)] show ?thesis by (auto simp: job_ok_def simp del: snd_sync)
next
  case (Check faults now now' sends gpu_sends)
  obtain a d1 where a: "CheckAndNotify faults jd cfg now now' sends d = (a, d1)" by (metis surj_pair)
  obtain g where g: "CheckGPUODAndNotify faults gpu_sends d1 = (g, d')"
    using assms(1) a by (auto simp: Check split: prod.splits)
  have "dbRes d1 = dbRes d \<and> dbGpu d1 = dbGpu d"
    using CheckAndNotify_effect [OF a] effect_tables by blast
  moreover have "dbRes d' = dbRes d1 \<and> dbGpu d' = dbGpu d1"
    using CheckGPUODAndNotify_effect [OF g] effect_tables by blast
  ultimately show ?thesis using assms(2) by (simp add: tables_ok_def stored_ok_def)
next
  case (Prune faults now)
  with assms show ?thesis by (auto simp: pruneNotifyLog_tables)
qed

lemma run_jobs_tables:
  "run_jobs cfg jd js d = (outs, d') \<Longrightarrow> tables_ok d \<Longrightarrow> \<forall>j \<in> set js. job_ok j \<Longrightarrow> tables_ok d'"
proof (induction js arbitrary: d outs)
  case (Cons j js)
  obtain out d1 where step: "job_step cfg jd j d = (out, d1)" by (metis surj_pair)
  obtain outs' where run: "run_jobs cfg jd js d1 = (outs', d')"
    using Cons.prems(1) step by (auto split: prod.splits)
  show ?case
    using Cons.IH [OF run job_step_tables [OF step Cons.prems(2)]] Cons.prems(3) by simp
qed simp

text \<open>
  C17. The tables stay well-formed: over any jobs, whatever statements fail in between, the
  IDs of both tables stay unique and every stored expiry stays empty or in the one layout
  the queries can compare.
\<close>

theorem jobs_keep_tables:
  assumes "run_jobs cfg jd js d = (outs, d')" and "tables_ok d" and "\<forall>j \<in> set js. job_ok j"
  shows "tables_ok d'"
  using assms by (rule run_jobs_tables)

lemma jobs_keep_tables_witness:
  "tables_ok (snd (run_jobs DefaultConfig sample_jd
     [Sync (\<lambda>n. n = 2) (\<lambda>n. 0) (\<lambda>i. ([sample_res ''1_b'' ''1'' Day], [])) (\<lambda>i. ([], [])), Prune (\<lambda>n. False) 5] sample_db))"
proof -
  let ?js = "[Sync (\<lambda>n. n = 2) (\<lambda>n. 0) (\<lambda>i. ([sample_res ''1_b'' ''1'' Day], [])) (\<lambda>i. ([], [])), Prune (\<lambda>n. False) 5]"
  obtain outs d' where r: "run_jobs DefaultConfig sample_jd ?js sample_db = (outs, d')" by (metis surj_pair)
  have "tables_ok sample_db" by (simp add: tables_ok_def stored_ok_def sample_db_def)
  moreover have "\<forall>j \<in> set ?js. job_ok j"
    by (simp add: job_ok_def fetch_ok_def times_ok_def sample_res_def zero_reservation_def storable_0 storable_day)
  ultimately show ?thesis using jobs_keep_tables [OF r] by (simp only: r snd_conv)
qed

end
