(* ===== verification/GpuCoverage.thy ===== *)
theory GpuCoverage
  imports Reservation Config
begin

text \<open>
  The coverage analysis of \<^verbatim>\<open>provider/gpu_coverage.go\<close>: which running instance is paid for by a
  capacity block, a reserved instance or a savings plan. What the AWS calls return is given.
  \<^verbatim>\<open>sort.Slice\<close> is the parameter \<open>srt\<close>: its documented behaviour, a permutation in the given order with
  ties in any order, is \<open>sorts_desc\<close>. A \<open>float64\<close> is its rational value; subtracting rates
  is not rounded.
\<close>

section \<open>Instance types\<close>

definition spCoverageTolerance :: float64 where
  "spCoverageTolerance = 995 / 1000"

definition gpuFamilies :: "string list" where
  "gpuFamilies =
     [''p3'', ''p4d'', ''p4de'', ''p5'', ''p5e'', ''p5en'', ''p6-b200'', ''p6-b300'', ''p6e-gb200'', ''p6e-gb300'',
      ''g4dn'', ''g4ad'', ''g5'', ''g5g'', ''g6'', ''g6e'', ''g6f'', ''gr6'', ''gr6f'', ''g7e'',
      ''inf1'', ''inf2'', ''trn1'', ''trn1n'', ''trn2'', ''trn2u'', ''dl1'', ''dl2q'']"

definition instanceFamily :: "string \<Rightarrow> string" where
  "instanceFamily t =
     (case last_index (CHR ''.'') t of
        Some (Suc i) \<Rightarrow> take (Suc i) t
      | _ \<Rightarrow>
          if has_prefix ''u-'' t then
            (let name = drop 2 t in
             case last_index (CHR ''x'') name of Some (Suc i) \<Rightarrow> take (Suc i) name | _ \<Rightarrow> name)
          else t)"

definition isGPUInstance :: "string \<Rightarrow> bool" where
  "isGPUInstance t \<longleftrightarrow> instanceFamily t \<in> set gpuFamilies"

lemma instance_families:
  "instanceFamily ''p5.48xlarge'' = ''p5''" "instanceFamily ''u-p6e-gb200x72'' = ''p6e-gb200''"
  "instanceFamily ''.x'' = ''.x''"
  by code_simp+

section \<open>What runs and what was bought\<close>

record running_instance =
  inID :: string
  inType :: string
  inFamily :: string
  inRegion :: string
  inAZ :: string
  inPlatform :: string
  inCapacityReservation :: string

record sp_detail =
  spID :: string
  spType :: string
  spFamily :: string
  spRegion :: string
  spCommitment :: float64
  spRates :: "(string \<times> float64) list"

record ri_info =
  riID :: string
  riType :: string
  riRegion :: string
  riCount :: int

record assignment =
  asCoverage :: string
  asRef :: string
  asRate :: float64

type_synonym assigned = "string \<Rightarrow> assignment option"

section \<open>Capacity blocks and reserved instances\<close>

fun assign_cbs :: "string list \<Rightarrow> running_instance list \<Rightarrow> assigned \<Rightarrow> assigned" where
  "assign_cbs cbIDs [] A = A"
| "assign_cbs cbIDs (i # is) A =
     assign_cbs cbIDs is
       (if inCapacityReservation i \<noteq> [] \<and> inCapacityReservation i \<in> set cbIDs
        then A(inID i \<mapsto> \<lparr>asCoverage = CoverageCB, asRef = inCapacityReservation i, asRate = 0\<rparr>) else A)"

type_synonym ri_map = "string \<times> string \<Rightarrow> ri_info option"

fun collect_ris :: "ri_info list \<Rightarrow> ri_map \<Rightarrow> ri_map" where
  "collect_ris [] m = m"
| "collect_ris (r # rs) m =
     (let k = (riType r, riRegion r) in
      collect_ris rs
        (case m k of
           Some existing \<Rightarrow> m(k \<mapsto> existing\<lparr>riCount := riCount existing + riCount r\<rparr>)
         | None \<Rightarrow> m(k \<mapsto> r)))"

fun assign_ris :: "running_instance list \<Rightarrow> ri_map \<Rightarrow> assigned \<Rightarrow> assigned" where
  "assign_ris [] m A = A"
| "assign_ris (i # is) m A =
     (if A (inID i) \<noteq> None then assign_ris is m A
      else (let k = (inType i, inRegion i) in
            case m k of
              None \<Rightarrow> assign_ris is m A
            | Some ri \<Rightarrow>
                if riCount ri > 0
                then assign_ris is (m(k \<mapsto> ri\<lparr>riCount := riCount ri - 1\<rparr>))
                       (A(inID i \<mapsto> \<lparr>asCoverage = CoverageRI, asRef = riID ri, asRate = 0\<rparr>))
                else assign_ris is m A))"

section \<open>Savings plans\<close>

definition rate_of :: "sp_detail \<Rightarrow> running_instance \<Rightarrow> float64" where
  "rate_of sp i = (case map_of (spRates sp) (inType i) of Some r \<Rightarrow> r | None \<Rightarrow> 0)"

text \<open>Instances in turn, as long as the commitment lasts. An absent rate reads as zero.\<close>

fun cover :: "sp_detail \<Rightarrow> running_instance list \<Rightarrow> float64 \<Rightarrow> assigned \<Rightarrow> assigned" where
  "cover sp [] remaining A = A"
| "cover sp (i # is) remaining A =
     (if map_of (spRates sp) (inType i) = None \<or> rate_of sp i \<le> 0 then cover sp is remaining A
      else (let rate = rate_of sp i in
            if remaining \<ge> rate * spCoverageTolerance
            then cover sp is (if remaining < rate then 0 else remaining - rate)
                   (A(inID i \<mapsto> \<lparr>asCoverage = CoverageSP, asRef = spID sp, asRate = rate\<rparr>))
            else cover sp is remaining A))"

type_synonym sorter = "(running_instance \<Rightarrow> float64) \<Rightarrow> running_instance list \<Rightarrow> running_instance list"

definition assign_plan ::
  "sorter \<Rightarrow> (sp_detail \<Rightarrow> running_instance \<Rightarrow> bool) \<Rightarrow> running_instance list \<Rightarrow> sp_detail \<Rightarrow> assigned \<Rightarrow> assigned" where
  "assign_plan srt eligible is sp A =
     (let candidates = filter (\<lambda>i. A (inID i) = None \<and> eligible sp i) is
      in cover sp (srt (rate_of sp) candidates) (spCommitment sp) A)"

fun assign_plans ::
  "sorter \<Rightarrow> string \<Rightarrow> (sp_detail \<Rightarrow> running_instance \<Rightarrow> bool) \<Rightarrow> running_instance list \<Rightarrow> sp_detail list \<Rightarrow>
   assigned \<Rightarrow> assigned" where
  "assign_plans srt kind eligible is [] A = A"
| "assign_plans srt kind eligible is (sp # sps) A =
     assign_plans srt kind eligible is sps
       (if spType sp \<noteq> kind then A else assign_plan srt eligible is sp A)"

definition ec2_eligible :: "sp_detail \<Rightarrow> running_instance \<Rightarrow> bool" where
  "ec2_eligible sp i \<longleftrightarrow> inFamily i = spFamily sp \<and> inRegion i = spRegion sp \<and> inPlatform i = ''Linux/UNIX''"

definition compute_eligible :: "sp_detail \<Rightarrow> running_instance \<Rightarrow> bool" where
  "compute_eligible sp i \<longleftrightarrow> inPlatform i = ''Linux/UNIX''"

section \<open>The analysis\<close>

definition assignments ::
  "sorter \<Rightarrow> running_instance list \<Rightarrow> sp_detail list \<Rightarrow> ri_info list \<Rightarrow> string list \<Rightarrow> assigned" where
  "assignments srt is sps ris cbIDs =
     assign_plans srt ''Compute'' compute_eligible is sps
       (assign_plans srt ''EC2Instance'' ec2_eligible is sps
         (assign_ris is (collect_ris ris Map.empty)
           (assign_cbs cbIDs is Map.empty)))"

definition coverage_row :: "account \<Rightarrow> assigned \<Rightarrow> running_instance \<Rightarrow> gpu_coverage" where
  "coverage_row acct A i =
     (let g = \<lparr>gID = acAccountID acct @ ''_'' @ inRegion i @ ''_'' @ inID i, gAccountAlias = acAlias acct,
            gAccountID = acAccountID acct, gRegion = inRegion i, gAZ = inAZ i, gInstanceID = inID i,
            gInstanceType = inType i, gCoverage = CoverageOnDemand, gCoverageRef = [], gSPRate = 0, gUpdatedAt = 0\<rparr>
      in case A (inID i) of
           None \<Rightarrow> g
         | Some a \<Rightarrow> g\<lparr>gCoverage := asCoverage a, gCoverageRef := asRef a, gSPRate := asRate a\<rparr>)"

definition analyzeCoverage ::
  "sorter \<Rightarrow> running_instance list \<Rightarrow> sp_detail list \<Rightarrow> ri_info list \<Rightarrow> string list \<Rightarrow> account \<Rightarrow> gpu_coverage list" where
  "analyzeCoverage srt is sps ris cbIDs acct =
     map (coverage_row acct (assignments srt is sps ris cbIDs)) (filter (\<lambda>i. isGPUInstance (inType i)) is)"

text \<open>The answers of AWS for one region: the instances, the reserved instances and the capacity blocks.\<close>

record region_answer =
  raInstances :: "running_instance list option"
  raRIs :: "ri_info list option"
  raCBs :: "string list option"

fun collect_regions ::
  "region_answer list \<Rightarrow> running_instance list \<times> ri_info list \<times> string list \<times> string list \<Rightarrow>
   running_instance list \<times> ri_info list \<times> string list \<times> string list" where
  "collect_regions [] acc = acc"
| "collect_regions (r # rs) (is, ris, cbs, errs) =
     (case raInstances r of
        None \<Rightarrow> collect_regions rs (is, ris, cbs, errs @ [''instances''])
      | Some is' \<Rightarrow>
          (let (ris1, errs1) = (case raRIs r of None \<Rightarrow> (ris, errs @ [''RI'']) | Some ris' \<Rightarrow> (ris @ ris', errs));
               (cbs1, errs2) = (case raCBs r of None \<Rightarrow> (cbs, errs1 @ [''CB'']) | Some cbs' \<Rightarrow> (cbs @ cbs', errs1))
           in collect_regions rs (is @ is', ris1, cbs1, errs2)))"

definition CheckGPUCoverage ::
  "sorter \<Rightarrow> sp_detail list option \<Rightarrow> (string \<Rightarrow> region_answer) \<Rightarrow> account \<Rightarrow> gpu_coverage list \<times> string list" where
  "CheckGPUCoverage srt sps answer acct =
     (if acRegions acct = [] then ([], [''no regions configured''])
      else (let (sps', errs0) = (case sps of None \<Rightarrow> ([], [''SP-rates'']) | Some sps' \<Rightarrow> (sps', [])) in
            case collect_regions (map answer (acRegions acct)) ([], [], [], errs0) of
              (is, ris, cbs, errs) \<Rightarrow> (analyzeCoverage srt is sps' ris cbs acct, errs)))"


section \<open>What a savings plan pays for\<close>

text \<open>The rates of the instances a plan was assigned to.\<close>

definition paid :: "string \<Rightarrow> assignment option \<Rightarrow> float64" where
  "paid p x = (case x of Some a \<Rightarrow> if asCoverage a = CoverageSP \<and> asRef a = p then asRate a else 0 | None \<Rightarrow> 0)"

definition charge :: "string \<Rightarrow> running_instance list \<Rightarrow> assigned \<Rightarrow> float64" where
  "charge p is A = (\<Sum>i\<leftarrow>is. paid p (A (inID i)))"

definition extends :: "assigned \<Rightarrow> assigned \<Rightarrow> bool" where
  "extends A B \<longleftrightarrow> (\<forall>k. A k \<noteq> None \<longrightarrow> B k = A k)"

lemma extends_refl [simp]: "extends A A"
  by (simp add: extends_def)

lemma extendsD: "extends A B \<Longrightarrow> A k \<noteq> None \<Longrightarrow> B k = A k"
  by (simp add: extends_def)

lemma extends_trans: "extends A B \<Longrightarrow> extends B C \<Longrightarrow> extends A C"
  by (auto simp: extends_def)

lemma extends_upd: "A k = None \<Longrightarrow> extends A (A(k \<mapsto> a))"
  by (auto simp: extends_def)

lemma charge_fresh: "k \<notin> inID ` set is \<Longrightarrow> charge p is (A(k \<mapsto> a)) = charge p is A"
  unfolding charge_def by (induction "is") auto

lemma charge_assign:
  "distinct (map inID is) \<Longrightarrow> i \<in> set is \<Longrightarrow> A (inID i) = None \<Longrightarrow>
   charge p is (A(inID i \<mapsto> a)) = charge p is A + paid p (Some a)"
proof (induction "is")
  case (Cons j "is")
  show ?case
  proof (cases "j = i")
    case True
    with Cons.prems charge_fresh [of "inID i" "is" p A a] show ?thesis
      by (simp add: charge_def paid_def)
  next
    case False
    with Cons.prems have "i \<in> set is" "inID j \<noteq> inID i" by auto
    with Cons show ?thesis by (simp add: charge_def)
  qed
qed simp

text \<open>How the remaining commitment \<open>rem\<close> relates to the commitment \<open>C\<close> and the charge \<open>x\<close>.\<close>

definition budget :: "float64 \<Rightarrow> float64 \<Rightarrow> float64 \<Rightarrow> bool" where
  "budget C rem x \<longleftrightarrow> 0 \<le> rem \<and> C - x \<le> rem \<and> spCoverageTolerance * x + rem \<le> C"

lemma budget_start: "0 \<le> C \<Longrightarrow> budget C C 0"
  by (simp add: budget_def)

lemma budget_take:
  assumes "budget C rem x" "0 < r" "r * spCoverageTolerance \<le> rem"
  shows "budget C (if rem < r then 0 else rem - r) (x + r)"
proof -
  define t where "t = spCoverageTolerance"
  have "t * (x + r) = t * x + r * t" by (simp add: algebra_simps)
  moreover have "r * t \<le> r" using assms(2) by (simp add: t_def spCoverageTolerance_def)
  moreover have "0 \<le> rem" "C - x \<le> rem" "t * x + rem \<le> C" "r * t \<le> rem"
    using assms(1,3) unfolding budget_def t_def by blast+
  ultimately have "0 \<le> (if rem < r then 0 else rem - r)" "C - (x + r) \<le> (if rem < r then 0 else rem - r)"
    "t * (x + r) + (if rem < r then 0 else rem - r) \<le> C"
    by (cases "rem < r"; simp)+
  then show ?thesis unfolding budget_def t_def by blast
qed

text \<open>One instance covered: the new assignment.\<close>

definition pay :: "sp_detail \<Rightarrow> running_instance \<Rightarrow> assigned \<Rightarrow> assigned" where
  "pay sp c A = A(inID c \<mapsto> \<lparr>asCoverage = CoverageSP, asRef = spID sp, asRate = rate_of sp c\<rparr>)"

lemma pay_facts:
  assumes "distinct (map inID ins)" "c \<in> set ins" "A (inID c) = None"
  shows "extends A (pay sp c A)" "charge (spID sp) ins (pay sp c A) = charge (spID sp) ins A + rate_of sp c"
    "p \<noteq> spID sp \<Longrightarrow> charge p ins (pay sp c A) = charge p ins A" "pay sp c A (inID c) \<noteq> None"
  using assms extends_upd [of A "inID c"] by (simp_all add: pay_def charge_assign paid_def)

lemma cover_Cons:
  "cover sp (c # cs) rem A =
     (if 0 < rate_of sp c \<and> rate_of sp c * spCoverageTolerance \<le> rem
      then cover sp cs (if rem < rate_of sp c then 0 else rem - rate_of sp c) (pay sp c A)
      else cover sp cs rem A)"
  by (auto simp: Let_def pay_def rate_of_def split: option.split)

declare cover.simps(2) [simp del]

lemma cover_extends:
  assumes "distinct (map inID is)"
  shows "distinct (map inID cs) \<Longrightarrow> set cs \<subseteq> set is \<Longrightarrow> \<forall>c \<in> set cs. A (inID c) = None \<Longrightarrow>
    extends A (cover sp cs rem A) \<and> (p \<noteq> spID sp \<longrightarrow> charge p is (cover sp cs rem A) = charge p is A)"
proof (induction cs arbitrary: rem A)
  case (Cons c cs)
  have c: "c \<in> set is" "A (inID c) = None" and cs: "distinct (map inID cs)" "set cs \<subseteq> set is"
    and other: "\<forall>d \<in> set cs. inID d \<noteq> inID c"
    using Cons.prems by (auto simp: image_iff)
  note pay = pay_facts [where ins = "is" and c = c and A = A and sp = sp, OF assms c]
  have n: "\<forall>d \<in> set cs. pay sp c A (inID d) = None" using Cons.prems(3) other by (auto simp: pay_def)
  have "extends A (cover sp cs r (pay sp c A)) \<and>
      (p \<noteq> spID sp \<longrightarrow> charge p is (cover sp cs r (pay sp c A)) = charge p is A)" for r
    using Cons.IH [OF cs n, of r] extends_trans [OF pay(1)] pay(3) [of p] by simp
  with Cons.IH [OF cs] Cons.prems(3) show ?case by (simp add: cover_Cons)
qed simp

lemma cover_spec:
  assumes "distinct (map inID is)"
  shows "distinct (map inID cs) \<Longrightarrow> set cs \<subseteq> set is \<Longrightarrow> \<forall>c \<in> set cs. A (inID c) = None \<Longrightarrow>
    budget C rem (charge (spID sp) is A) \<Longrightarrow>
    charge (spID sp) is A \<le> charge (spID sp) is (cover sp cs rem A) \<and>
    spCoverageTolerance * charge (spID sp) is (cover sp cs rem A) \<le> C \<and>
    (\<forall>c \<in> set cs. cover sp cs rem A (inID c) = None \<longrightarrow>
       rate_of sp c \<le> 0 \<or> C - charge (spID sp) is (cover sp cs rem A) < spCoverageTolerance * rate_of sp c)"
proof (induction cs arbitrary: rem A)
  case Nil
  then show ?case by (simp add: budget_def)
next
  case (Cons c cs)
  have c: "c \<in> set is" "A (inID c) = None" and cs: "distinct (map inID cs)" "set cs \<subseteq> set is"
    and other: "\<forall>d \<in> set cs. inID d \<noteq> inID c"
    using Cons.prems by (auto simp: image_iff)
  note pay = pay_facts [where ins = "is" and c = c and A = A and sp = sp, OF assms c]
  show ?case
  proof (cases "0 < rate_of sp c \<and> rate_of sp c * spCoverageTolerance \<le> rem")
    case True
    define rem' where "rem' = (if rem < rate_of sp c then 0 else rem - rate_of sp c)"
    have eq: "cover sp (c # cs) rem A = cover sp cs rem' (pay sp c A)" using True by (simp add: cover_Cons rem'_def)
    have b: "budget C rem' (charge (spID sp) is (pay sp c A))"
      unfolding pay(2) rem'_def using Cons.prems(4) True by (intro budget_take) simp_all
    have n: "\<forall>d \<in> set cs. pay sp c A (inID d) = None" using Cons.prems(3) other by (auto simp: pay_def)
    note IH = Cons.IH [OF cs n b]
    have "extends (pay sp c A) (cover sp cs rem' (pay sp c A))"
      using cover_extends [OF assms cs n] by blast
    from extendsD [OF this pay(4)] pay(4) have some: "cover sp cs rem' (pay sp c A) (inID c) \<noteq> None" by simp
    have le: "charge (spID sp) is A \<le> charge (spID sp) is (cover sp cs rem' (pay sp c A))"
      using IH pay(2) True by linarith
    show ?thesis unfolding eq using IH some le by auto
  next
    case False
    have eq: "cover sp (c # cs) rem A = cover sp cs rem A" unfolding cover_Cons if_not_P [OF False] ..
    have "\<forall>d \<in> set cs. A (inID d) = None" using Cons.prems(3) by simp
    note IH = Cons.IH [OF cs this Cons.prems(4)]
    have "C - charge (spID sp) is A \<le> rem" using Cons.prems(4) by (simp add: budget_def)
    then have "rate_of sp c \<le> 0 \<or>
        C - charge (spID sp) is (cover sp cs rem A) < spCoverageTolerance * rate_of sp c"
      using False IH by (auto simp: mult.commute not_le)
    with IH show ?thesis unfolding eq by simp
  qed
qed

text \<open>What is documented of \<^verbatim>\<open>sort.Slice\<close>.\<close>

definition sorts_desc :: "sorter \<Rightarrow> bool" where
  "sorts_desc srt \<longleftrightarrow> (\<forall>key xs. mset (srt key xs) = mset xs \<and> sorted_wrt (\<lambda>x y. key x \<ge> key y) (srt key xs))"

lemma sorted_candidates:
  assumes "distinct (map inID is)" "sorts_desc srt"
  shows "set (srt key (filter P is)) = {i \<in> set is. P i}" "distinct (map inID (srt key (filter P is)))"
proof -
  have m: "mset (srt key (filter P is)) = mset (filter P is)" using assms(2) unfolding sorts_desc_def by blast
  from mset_eq_setD [OF this] show "set (srt key (filter P is)) = {i \<in> set is. P i}" by simp
  have "distinct (map inID (srt key (filter P is))) = distinct (map inID (filter P is))"
    by (rule mset_eq_imp_distinct_iff) (simp only: mset_map m)
  then show "distinct (map inID (srt key (filter P is)))" using distinct_filter_keys [OF assms(1)] by blast
qed

lemma assign_plan_extends:
  assumes "distinct (map inID is)" "sorts_desc srt"
  shows "extends A (assign_plan srt eligible is sp A)"
    "p \<noteq> spID sp \<Longrightarrow> charge p is (assign_plan srt eligible is sp A) = charge p is A"
proof -
  let ?s = "srt (rate_of sp) (filter (\<lambda>i. A (inID i) = None \<and> eligible sp i) is)"
  note s = sorted_candidates [OF assms, of "rate_of sp" "\<lambda>i. A (inID i) = None \<and> eligible sp i"]
  have "set ?s \<subseteq> set is" "\<forall>c \<in> set ?s. A (inID c) = None" using s(1) by auto
  note ext = cover_extends [OF assms(1) s(2) this, where sp = sp and rem = "spCommitment sp"]
  have B: "assign_plan srt eligible is sp A = cover sp ?s (spCommitment sp) A" by (simp add: assign_plan_def Let_def)
  show "extends A (assign_plan srt eligible is sp A)" unfolding B using ext by blast
  show "p \<noteq> spID sp \<Longrightarrow> charge p is (assign_plan srt eligible is sp A) = charge p is A"
    unfolding B using ext by blast
qed

lemma assign_plan_spec:
  assumes "distinct (map inID is)" "sorts_desc srt" "0 \<le> spCommitment sp" "charge (spID sp) is A = 0"
    and B_def: "B = assign_plan srt eligible is sp A"
  shows "spCoverageTolerance * charge (spID sp) is B \<le> spCommitment sp"
    "i \<in> set is \<Longrightarrow> B (inID i) = None \<Longrightarrow> eligible sp i \<Longrightarrow>
     rate_of sp i \<le> 0 \<or> spCommitment sp - charge (spID sp) is B < spCoverageTolerance * rate_of sp i"
proof -
  let ?s = "srt (rate_of sp) (filter (\<lambda>i. A (inID i) = None \<and> eligible sp i) is)"
  note s = sorted_candidates [OF assms(1,2), of "rate_of sp" "\<lambda>i. A (inID i) = None \<and> eligible sp i"]
  have B: "B = cover sp ?s (spCommitment sp) A" by (simp add: B_def assign_plan_def Let_def)
  have cs: "set ?s \<subseteq> set is" "\<forall>c \<in> set ?s. A (inID c) = None" using s(1) by auto
  have b: "budget (spCommitment sp) (spCommitment sp) (charge (spID sp) is A)"
    unfolding assms(4) using assms(3) by (rule budget_start)
  note spec = cover_spec [OF assms(1) s(2) cs b, folded B]
  then show "spCoverageTolerance * charge (spID sp) is B \<le> spCommitment sp" by blast
  assume i: "i \<in> set is" "B (inID i) = None" "eligible sp i"
  have "A (inID i) = None"
    using extendsD [OF assign_plan_extends(1) [OF assms(1,2), where A = A and eligible = eligible and sp = sp], of "inID i"] i(2)
    by (cases "A (inID i)") (simp_all add: B_def)
  with i(1,3) have "i \<in> set ?s" unfolding s(1) by simp
  with spec i(2) show "rate_of sp i \<le> 0 \<or> spCommitment sp - charge (spID sp) is B < spCoverageTolerance * rate_of sp i"
    by blast
qed


lemma assign_plans_extends:
  assumes "distinct (map inID is)" "sorts_desc srt"
  shows "extends A (assign_plans srt kind eligible is sps A) \<and>
    ((\<forall>sp \<in> set sps. spType sp = kind \<longrightarrow> spID sp \<noteq> p) \<longrightarrow>
       charge p is (assign_plans srt kind eligible is sps A) = charge p is A)"
proof (induction sps arbitrary: A)
  case (Cons sp sps)
  note plan = assign_plan_extends [OF assms, where A = A and eligible = eligible and sp = sp]
  show ?case
  proof (cases "spType sp = kind")
    case True
    with Cons.IH [of "assign_plan srt eligible is sp A"] extends_trans [OF plan(1)] plan(2) [where p = p]
    show ?thesis by auto
  qed (use Cons.IH in auto)
qed simp

lemma assign_plans_spec:
  assumes "distinct (map inID is)" "sorts_desc srt"
  shows "distinct (map spID sps) \<Longrightarrow> sp \<in> set sps \<Longrightarrow> spType sp = kind \<Longrightarrow> 0 \<le> spCommitment sp \<Longrightarrow>
    charge (spID sp) is A = 0 \<Longrightarrow> B = assign_plans srt kind eligible is sps A \<Longrightarrow>
    spCoverageTolerance * charge (spID sp) is B \<le> spCommitment sp \<and>
    (\<forall>i \<in> set is. B (inID i) = None \<and> eligible sp i \<longrightarrow>
       rate_of sp i \<le> 0 \<or> spCommitment sp - charge (spID sp) is B < spCoverageTolerance * rate_of sp i)"
proof (induction sps arbitrary: A)
  case (Cons q sps)
  show ?case
  proof (cases "q = sp")
    case True
    let ?A = "assign_plan srt eligible is sp A"
    have B: "B = assign_plans srt kind eligible is sps ?A" using Cons.prems(3,6) True by simp
    note plan = assign_plan_spec [OF assms Cons.prems(4,5) refl, where eligible = eligible]
    have "\<forall>x \<in> set sps. spType x = kind \<longrightarrow> spID x \<noteq> spID sp" using Cons.prems(1) True by (auto simp: image_iff)
    with assign_plans_extends [OF assms, of ?A kind eligible sps "spID sp"] have
      ext: "extends ?A B" and ch: "charge (spID sp) is B = charge (spID sp) is ?A" by (simp_all add: B)
    have "?A (inID i) = None" if "B (inID i) = None" for i
      using extendsD [OF ext, of "inID i"] that by (cases "?A (inID i)") simp_all
    with plan ch show ?thesis by auto
  next
    case False
    with Cons.prems have sp: "sp \<in> set sps" "distinct (map spID sps)" "spID q \<noteq> spID sp" by auto
    let ?A = "if spType q \<noteq> kind then A else assign_plan srt eligible is q A"
    have "charge (spID sp) is ?A = 0"
      using Cons.prems(5) assign_plan_extends(2) [OF assms sp(3) [symmetric], where eligible = eligible and A = A] by simp
    from Cons.IH [OF sp(2,1) Cons.prems(3,4) this] Cons.prems(6) show ?thesis by simp
  qed
qed simp

section \<open>Capacity blocks and reserved instances come first\<close>

definition in_block :: "string list \<Rightarrow> running_instance \<Rightarrow> bool" where
  "in_block cbIDs i \<longleftrightarrow> inCapacityReservation i \<noteq> [] \<and> inCapacityReservation i \<in> set cbIDs"

definition block_assignment :: "running_instance \<Rightarrow> assignment" where
  "block_assignment i = \<lparr>asCoverage = CoverageCB, asRef = inCapacityReservation i, asRate = 0\<rparr>"

lemma assign_cbs_other: "k \<notin> inID ` set is \<Longrightarrow> assign_cbs cbIDs is A k = A k"
  by (induction "is" arbitrary: A) simp_all

lemma assign_cbs_spec:
  "distinct (map inID is) \<Longrightarrow> i \<in> set is \<Longrightarrow>
   assign_cbs cbIDs is A (inID i) = (if in_block cbIDs i then Some (block_assignment i) else A (inID i))"
proof (induction "is" arbitrary: A)
  case (Cons j "is")
  show ?case
  proof (cases "j = i")
    case True
    then have "inID i \<notin> inID ` set is" using Cons.prems(1) by simp
    then show ?thesis using True by (simp add: assign_cbs_other in_block_def block_assignment_def)
  next
    case False
    then have "i \<in> set is" "inID j \<noteq> inID i" using Cons.prems by auto
    with Cons show ?thesis by simp
  qed
qed simp

definition ri_key :: "running_instance \<Rightarrow> string \<times> string" where
  "ri_key i = (inType i, inRegion i)"

definition available :: "ri_map \<Rightarrow> string \<times> string \<Rightarrow> int" where
  "available m k = (case m k of None \<Rightarrow> 0 | Some r \<Rightarrow> riCount r)"

definition bought :: "ri_info list \<Rightarrow> string \<times> string \<Rightarrow> int" where
  "bought ris k = (\<Sum>r\<leftarrow>filter (\<lambda>r. (riType r, riRegion r) = k) ris. riCount r)"

lemma available_collect: "available (collect_ris ris m) k = available m k + bought ris k"
proof (induction ris arbitrary: m)
  case (Cons r ris)
  then show ?case by (auto simp: available_def bought_def Let_def split: option.split)
qed (simp add: bought_def)

lemma assign_ris_Cons:
  "assign_ris (i # is) m A =
     (if A (inID i) = None \<and> available m (ri_key i) > 0
      then assign_ris is (m(ri_key i \<mapsto> (the (m (ri_key i)))\<lparr>riCount := available m (ri_key i) - 1\<rparr>))
             (A(inID i \<mapsto> \<lparr>asCoverage = CoverageRI, asRef = riID (the (m (ri_key i))), asRate = 0\<rparr>))
      else assign_ris is m A)"
  by (auto simp: Let_def ri_key_def available_def split: option.split)

declare assign_ris.simps(2) [simp del]

definition by_ri :: "assignment option \<Rightarrow> bool" where
  "by_ri x \<longleftrightarrow> (case x of Some a \<Rightarrow> asCoverage a = CoverageRI | None \<Rightarrow> False)"

lemma assign_ris_other: "k \<notin> inID ` set is \<Longrightarrow> assign_ris is m A k = A k"
  by (induction "is" arbitrary: m A) (simp_all add: assign_ris_Cons)

lemma assign_ris_spec:
  "distinct (map inID is) \<Longrightarrow>
   (\<forall>i \<in> set is. A (inID i) \<noteq> None \<longrightarrow> assign_ris is m A (inID i) = A (inID i)) \<and>
   (\<forall>i \<in> set is. A (inID i) = None \<longrightarrow> assign_ris is m A (inID i) = None \<or> by_ri (assign_ris is m A (inID i))) \<and>
   length (filter (\<lambda>i. ri_key i = k \<and> A (inID i) = None \<and> assign_ris is m A (inID i) \<noteq> None) is) =
     min (nat (available m k)) (length (filter (\<lambda>i. ri_key i = k \<and> A (inID i) = None) is))"
proof (induction "is" arbitrary: m A)
  case (Cons i "is")
  have i: "inID i \<notin> inID ` set is" and d: "distinct (map inID is)" using Cons.prems by simp_all
  show ?case
  proof (cases "A (inID i) = None \<and> available m (ri_key i) > 0")
    case True
    define a where "a = \<lparr>asCoverage = CoverageRI, asRef = riID (the (m (ri_key i))), asRate = 0\<rparr>"
    define B where "B = A(inID i \<mapsto> a)"
    define m' where "m' = m(ri_key i \<mapsto> (the (m (ri_key i)))\<lparr>riCount := available m (ri_key i) - 1\<rparr>)"
    have eq: "assign_ris (i # is) m A = assign_ris is m' B" using True by (simp add: assign_ris_Cons a_def B_def m'_def)
    have self: "assign_ris is m' B (inID i) = Some a" using assign_ris_other [OF i, of m' B] by (simp add: B_def)
    have B: "B (inID j) = A (inID j)" if "j \<in> set is" for j
      using that i by (auto simp: B_def image_iff)
    have av: "available m' k = available m k - (if k = ri_key i then 1 else 0)"
      by (simp add: available_def m'_def)
    note IH = Cons.IH [OF d, of B m']
    have "filter (\<lambda>j. ri_key j = k \<and> B (inID j) = None) is = filter (\<lambda>j. ri_key j = k \<and> A (inID j) = None) is"
      "filter (\<lambda>j. ri_key j = k \<and> B (inID j) = None \<and> assign_ris is m' B (inID j) \<noteq> None) is =
       filter (\<lambda>j. ri_key j = k \<and> A (inID j) = None \<and> assign_ris is m' B (inID j) \<noteq> None) is"
      using B by (auto intro: filter_cong)
    with IH have "length (filter (\<lambda>j. ri_key j = k \<and> A (inID j) = None \<and> assign_ris is m' B (inID j) \<noteq> None) is) =
        min (nat (available m' k)) (length (filter (\<lambda>j. ri_key j = k \<and> A (inID j) = None) is))"
      by simp
    then have "length (filter (\<lambda>j. ri_key j = k \<and> A (inID j) = None \<and> assign_ris is m' B (inID j) \<noteq> None) (i # is)) =
        min (nat (available m k)) (length (filter (\<lambda>j. ri_key j = k \<and> A (inID j) = None) (i # is)))"
      using True self av by (auto simp: nat_diff_distrib)
    moreover have "by_ri (Some a)" by (simp add: by_ri_def a_def)
    ultimately show ?thesis unfolding eq using IH B self True by auto
  next
    case False
    have eq: "assign_ris (i # is) m A = assign_ris is m A" unfolding assign_ris_Cons if_not_P [OF False] ..
    have "assign_ris is m A (inID i) = A (inID i)" using i by (rule assign_ris_other)
    with Cons.IH [OF d, of A m] False show ?thesis unfolding eq by auto
  qed
qed simp


lemma cover_kind: "cover sp cs rem A k = Some a \<Longrightarrow> A k = Some a \<or> asCoverage a = CoverageSP"
proof (induction cs arbitrary: rem A)
  case (Cons c cs)
  have "pay sp c A k = Some a \<Longrightarrow> A k = Some a \<or> asCoverage a = CoverageSP"
    by (auto simp: pay_def split: if_splits)
  moreover have "(\<exists>r. cover sp cs r (pay sp c A) k = Some a) \<or> cover sp cs rem A k = Some a"
    using Cons.prems unfolding cover_Cons by (cases "0 < rate_of sp c \<and> rate_of sp c * spCoverageTolerance \<le> rem") auto
  ultimately show ?case using Cons.IH by blast
qed simp

lemma assign_plans_kind:
  "assign_plans srt kind eligible is sps A k = Some a \<Longrightarrow> A k = Some a \<or> asCoverage a = CoverageSP"
proof (induction sps arbitrary: A)
  case (Cons sp sps)
  show ?case
  proof (cases "spType sp = kind")
    case True
    with Cons have "assign_plan srt eligible is sp A k = Some a \<or> asCoverage a = CoverageSP" by simp
    then show ?thesis unfolding assign_plan_def Let_def using cover_kind by blast
  qed (use Cons in simp)
qed simp

text \<open>The assignments before the savings plans, and what the plans add.\<close>

definition reserved :: "running_instance list \<Rightarrow> ri_info list \<Rightarrow> string list \<Rightarrow> assigned" where
  "reserved is ris cbIDs = assign_ris is (collect_ris ris Map.empty) (assign_cbs cbIDs is Map.empty)"

lemma reserved_facts:
  assumes "distinct (map inID is)" "i \<in> set is"
  shows "in_block cbIDs i \<Longrightarrow> reserved is ris cbIDs (inID i) = Some (block_assignment i)"
    "\<not> in_block cbIDs i \<Longrightarrow> reserved is ris cbIDs (inID i) = None \<or> by_ri (reserved is ris cbIDs (inID i))"
  using assign_ris_spec [OF assms(1), of "assign_cbs cbIDs is Map.empty" "collect_ris ris Map.empty"] assms
  by (simp_all add: reserved_def assign_cbs_spec)

lemma charge_reserved:
  assumes "distinct (map inID is)"
  shows "charge p is (reserved is ris cbIDs) = 0"
proof -
  have "paid p (reserved is ris cbIDs (inID i)) = 0" if "i \<in> set is" for i
    using reserved_facts [OF assms that, of cbIDs ris]
    by (cases "in_block cbIDs i") (auto simp: paid_def block_assignment_def by_ri_def split: option.split)
  then have "map (\<lambda>i. paid p (reserved is ris cbIDs (inID i))) is = map (\<lambda>i. 0) is" by simp
  then show ?thesis unfolding charge_def by (simp only: sum_list_0)
qed

lemma assignments_extends:
  assumes "distinct (map inID is)" "sorts_desc srt"
  shows "extends (reserved is ris cbIDs) (assignments srt is sps ris cbIDs)"
  using assign_plans_extends [OF assms] extends_trans unfolding assignments_def reserved_def by blast

lemma assignments_kind:
  "assignments srt is sps ris cbIDs k = Some a \<Longrightarrow> reserved is ris cbIDs k = Some a \<or> asCoverage a = CoverageSP"
  unfolding assignments_def reserved_def using assign_plans_kind by blast

definition usable :: "sp_detail \<Rightarrow> running_instance \<Rightarrow> bool" where
  "usable sp i \<longleftrightarrow> spType sp = ''EC2Instance'' \<and> ec2_eligible sp i \<or> spType sp = ''Compute'' \<and> compute_eligible sp i"

lemma plan_spec:
  assumes ids: "distinct (map inID is)" "sorts_desc srt" "distinct (map spID sps)"
    and sp: "sp \<in> set sps" "0 \<le> spCommitment sp"
  shows "spCoverageTolerance * charge (spID sp) is (assignments srt is sps ris cbIDs) \<le> spCommitment sp"
    and "i \<in> set is \<Longrightarrow> assignments srt is sps ris cbIDs (inID i) = None \<Longrightarrow> usable sp i \<Longrightarrow> 0 < rate_of sp i \<Longrightarrow>
      spCommitment sp - charge (spID sp) is (assignments srt is sps ris cbIDs) < spCoverageTolerance * rate_of sp i"
proof -
  define A where "A = reserved is ris cbIDs"
  define B where "B = assign_plans srt ''EC2Instance'' ec2_eligible is sps A"
  define C where "C = assign_plans srt ''Compute'' compute_eligible is sps B"
  have C: "assignments srt is sps ris cbIDs = C" by (simp add: assignments_def reserved_def A_def B_def C_def)
  have A0: "charge (spID sp) is A = 0" unfolding A_def by (rule charge_reserved [OF ids(1)])
  have same: "x = sp" if "x \<in> set sps" "spID x = spID sp" for x
    using that sp(1) ids(3) by (auto simp: distinct_map inj_on_def)
  have BC: "spType sp \<noteq> ''Compute'' \<Longrightarrow> charge (spID sp) is C = charge (spID sp) is B"
    and AB: "spType sp \<noteq> ''EC2Instance'' \<Longrightarrow> charge (spID sp) is B = charge (spID sp) is A"
    using assign_plans_extends [OF ids(1,2)] same unfolding B_def C_def by blast+
  have ext: "extends B C" using assign_plans_extends [OF ids(1,2)] unfolding C_def by blast
  have none: "B (inID i) = None" if "C (inID i) = None" for i
    using extendsD [OF ext, of "inID i"] that by (cases "B (inID i)") simp_all
  consider (ec2) "spType sp = ''EC2Instance''" | (compute) "spType sp = ''Compute''"
    | (other) "spType sp \<noteq> ''EC2Instance''" "spType sp \<noteq> ''Compute''" by blast
  then have "spCoverageTolerance * charge (spID sp) is C \<le> spCommitment sp \<and>
    (i \<in> set is \<and> C (inID i) = None \<and> usable sp i \<and> 0 < rate_of sp i \<longrightarrow>
      spCommitment sp - charge (spID sp) is C < spCoverageTolerance * rate_of sp i)"
  proof cases
    case ec2
    note spec = assign_plans_spec [OF ids(1,2,3) sp(1) ec2 sp(2) A0 B_def]
    show ?thesis
    proof (intro conjI impI)
      show "spCoverageTolerance * charge (spID sp) is C \<le> spCommitment sp" using spec BC ec2 by simp
      assume a: "i \<in> set is \<and> C (inID i) = None \<and> usable sp i \<and> 0 < rate_of sp i"
      then have "B (inID i) = None" "ec2_eligible sp i" using none ec2 by (auto simp: usable_def)
      with spec a have "rate_of sp i \<le> 0 \<or> spCommitment sp - charge (spID sp) is B < spCoverageTolerance * rate_of sp i"
        by blast
      with a BC ec2 show "spCommitment sp - charge (spID sp) is C < spCoverageTolerance * rate_of sp i" by simp
    qed
  next
    case compute
    then have "charge (spID sp) is B = 0" using AB A0 by simp
    note spec = assign_plans_spec [OF ids(1,2,3) sp(1) compute sp(2) this C_def]
    show ?thesis
    proof (intro conjI impI)
      show "spCoverageTolerance * charge (spID sp) is C \<le> spCommitment sp" using spec by blast
      assume a: "i \<in> set is \<and> C (inID i) = None \<and> usable sp i \<and> 0 < rate_of sp i"
      then have "compute_eligible sp i" using compute by (auto simp: usable_def)
      with spec a have "rate_of sp i \<le> 0 \<or> spCommitment sp - charge (spID sp) is C < spCoverageTolerance * rate_of sp i"
        by blast
      with a show "spCommitment sp - charge (spID sp) is C < spCoverageTolerance * rate_of sp i" by simp
    qed
  next
    case other
    then have "charge (spID sp) is C = 0" using AB BC A0 by simp
    with other sp(2) show ?thesis by (simp add: usable_def)
  qed
  then show "spCoverageTolerance * charge (spID sp) is (assignments srt is sps ris cbIDs) \<le> spCommitment sp"
    "i \<in> set is \<Longrightarrow> assignments srt is sps ris cbIDs (inID i) = None \<Longrightarrow> usable sp i \<Longrightarrow> 0 < rate_of sp i \<Longrightarrow>
      spCommitment sp - charge (spID sp) is (assignments srt is sps ris cbIDs) < spCoverageTolerance * rate_of sp i"
    unfolding C by blast+
qed

lemma reserved_count:
  assumes "distinct (map inID is)" "sorts_desc srt"
  shows "length (filter (\<lambda>i. ri_key i = k \<and> by_ri (assignments srt is sps ris cbIDs (inID i))) is) =
    min (nat (bought ris k)) (length (filter (\<lambda>i. ri_key i = k \<and> \<not> in_block cbIDs i) is))"
proof -
  let ?A = "assign_cbs cbIDs is Map.empty"
  have cb: "?A (inID i) = None \<longleftrightarrow> \<not> in_block cbIDs i" if "i \<in> set is" for i
    using that by (simp add: assign_cbs_spec [OF assms(1)])
  have ri: "by_ri (assignments srt is sps ris cbIDs (inID i)) \<longleftrightarrow>
      \<not> in_block cbIDs i \<and> reserved is ris cbIDs (inID i) \<noteq> None" if i: "i \<in> set is" for i
  proof (cases "reserved is ris cbIDs (inID i)")
    case None
    with assignments_kind [of srt "is" sps ris cbIDs "inID i"] show ?thesis
      by (auto simp: by_ri_def split: option.split)
  next
    case (Some a)
    then have "assignments srt is sps ris cbIDs (inID i) = Some a"
      using extendsD [OF assignments_extends [OF assms, of ris cbIDs sps], of "inID i"] by simp
    with Some reserved_facts [OF assms(1) i, of cbIDs ris] show ?thesis
      by (cases "in_block cbIDs i") (auto simp: by_ri_def block_assignment_def)
  qed
  have "filter (\<lambda>i. ri_key i = k \<and> by_ri (assignments srt is sps ris cbIDs (inID i))) is =
      filter (\<lambda>i. ri_key i = k \<and> ?A (inID i) = None \<and> reserved is ris cbIDs (inID i) \<noteq> None) is"
    "filter (\<lambda>i. ri_key i = k \<and> \<not> in_block cbIDs i) is = filter (\<lambda>i. ri_key i = k \<and> ?A (inID i) = None) is"
    using ri cb by (auto intro: filter_cong)
  then show ?thesis
    using assign_ris_spec [OF assms(1), of ?A "collect_ris ris Map.empty" k]
    by (simp add: reserved_def available_collect) (simp add: available_def)
qed


section \<open>Properties\<close>

text \<open>A sorter that keeps ties in order.\<close>

definition stable_desc :: sorter where
  "stable_desc key xs = sort_key (\<lambda>x. - key x) xs"

lemma stable_desc: "sorts_desc stable_desc"
proof -
  have "sorted_wrt (\<lambda>x y. key x \<ge> key y) (sort_key (\<lambda>x. - key x) xs)" for key :: "running_instance \<Rightarrow> float64" and xs
    using sorted_sort_key [of "\<lambda>x. - key x" xs] unfolding sorted_map by simp
  then show ?thesis by (simp add: sorts_desc_def stable_desc_def)
qed

definition sample_instance :: "string \<Rightarrow> string \<Rightarrow> running_instance" where
  "sample_instance i t =
     \<lparr>inID = i, inType = t, inFamily = instanceFamily t, inRegion = ''r'', inAZ = ''r-a'', inPlatform = ''Linux/UNIX'',
      inCapacityReservation = []\<rparr>"

definition sample_plan :: "float64 \<Rightarrow> sp_detail" where
  "sample_plan c =
     \<lparr>spID = ''sp'', spType = ''Compute'', spFamily = [], spRegion = [], spCommitment = c, spRates = [(''p5.48xlarge'', 20)]\<rparr>"

text \<open>
  C12. No savings plan is spent beyond its commitment: the rates of the instances assigned to a plan
  add up to at most its commitment divided by 0.995 (the tolerance for rounding, used at most
  once), whatever other plans and reservations there are.
\<close>

theorem savings_plan_budget:
  assumes "distinct (map inID is)" "sorts_desc srt" "distinct (map spID sps)"
    and "sp \<in> set sps" "0 \<le> spCommitment sp"
  shows "spCoverageTolerance * charge (spID sp) is (assignments srt is sps ris cbIDs) \<le> spCommitment sp"
  using assms by (rule plan_spec(1))

lemma savings_plan_budget_witness:
  "spCoverageTolerance * charge ''sp'' [sample_instance ''i1'' ''p5.48xlarge'', sample_instance ''i2'' ''p5.48xlarge'']
     (assignments stable_desc [sample_instance ''i1'' ''p5.48xlarge'', sample_instance ''i2'' ''p5.48xlarge''] [sample_plan 30] [] [])
   \<le> 30"
  using savings_plan_budget [of "[sample_instance ''i1'' ''p5.48xlarge'', sample_instance ''i2'' ''p5.48xlarge'']"
      stable_desc "[sample_plan 30]" "sample_plan 30" "[]" "[]", OF _ stable_desc]
  by (simp add: sample_instance_def sample_plan_def)

text \<open>
  C13. Reserved instances are used up exactly: of each instance type and region, as many instances count
  as reserved as were bought, or all that are not in a capacity block if there are fewer.
\<close>

theorem reserved_instances_exact:
  assumes "distinct (map inID is)" "sorts_desc srt"
  shows "length (filter (\<lambda>i. ri_key i = k \<and> by_ri (assignments srt is sps ris cbIDs (inID i))) is) =
    min (nat (bought ris k)) (length (filter (\<lambda>i. ri_key i = k \<and> \<not> in_block cbIDs i) is))"
  using assms by (rule reserved_count)

lemma reserved_instances_exact_witness:
  "length (filter (\<lambda>i. ri_key i = (''p5.48xlarge'', ''r'') \<and>
       by_ri (assignments stable_desc [sample_instance ''i1'' ''p5.48xlarge'', sample_instance ''i2'' ''p5.48xlarge''] []
         [\<lparr>riID = ''x'', riType = ''p5.48xlarge'', riRegion = ''r'', riCount = 1\<rparr>] [] (inID i)))
     [sample_instance ''i1'' ''p5.48xlarge'', sample_instance ''i2'' ''p5.48xlarge'']) = 1"
  using reserved_instances_exact [of "[sample_instance ''i1'' ''p5.48xlarge'', sample_instance ''i2'' ''p5.48xlarge'']"
      stable_desc "(''p5.48xlarge'', ''r'')" "[]" "[\<lparr>riID = ''x'', riType = ''p5.48xlarge'', riRegion = ''r'', riCount = 1\<rparr>]" "[]",
      OF _ stable_desc]
  by (simp add: sample_instance_def bought_def in_block_def ri_key_def)

lemma row_on_demand:
  assumes "distinct (map inID is)" "sorts_desc srt" "i \<in> set is"
    and "gCoverage (coverage_row acct (assignments srt is sps ris cbIDs) i) = CoverageOnDemand"
  shows "assignments srt is sps ris cbIDs (inID i) = None"
proof (rule ccontr)
  assume "assignments srt is sps ris cbIDs (inID i) \<noteq> None"
  then obtain a where a: "assignments srt is sps ris cbIDs (inID i) = Some a" by blast
  with assms(4) have od: "asCoverage a = CoverageOnDemand" by (simp add: coverage_row_def Let_def)
  with assignments_kind [OF a] have "reserved is ris cbIDs (inID i) = Some a" by auto
  with reserved_facts [OF assms(1,3), of cbIDs ris] od show False
    by (cases "in_block cbIDs i") (auto simp: block_assignment_def by_ri_def)
qed

text \<open>
  C11. An instance is reported as on demand only if nothing could have paid for it: it is
  in no active capacity block, the reserved instances of its type and region are all in use, and
  every savings plan that applies to it and has a rate for its type has less left than that rate,
  up to the tolerance.
\<close>

theorem on_demand_only_if_uncovered:
  assumes "distinct (map inID is)" "sorts_desc srt" "distinct (map spID sps)"
    and "\<forall>sp \<in> set sps. 0 \<le> spCommitment sp"
    and "g \<in> set (analyzeCoverage srt is sps ris cbIDs acct)" "gCoverage g = CoverageOnDemand"
  shows "\<exists>i \<in> set is. gInstanceID g = inID i \<and> isGPUInstance (inType i) \<and> \<not> in_block cbIDs i \<and>
    length (filter (\<lambda>j. ri_key j = ri_key i \<and> by_ri (assignments srt is sps ris cbIDs (inID j))) is) = nat (bought ris (ri_key i)) \<and>
    (\<forall>sp \<in> set sps. usable sp i \<and> 0 < rate_of sp i \<longrightarrow>
       spCommitment sp - charge (spID sp) is (assignments srt is sps ris cbIDs) < spCoverageTolerance * rate_of sp i)"
proof -
  let ?A = "assignments srt is sps ris cbIDs"
  from assms(5) obtain i where i: "i \<in> set is" "isGPUInstance (inType i)" "g = coverage_row acct ?A i"
    by (auto simp: analyzeCoverage_def)
  have none: "?A (inID i) = None" using row_on_demand [OF assms(1,2) i(1)] assms(6) i(3) by blast
  have nb: "\<not> in_block cbIDs i"
  proof
    assume "in_block cbIDs i"
    from reserved_facts(1) [OF assms(1) i(1) this, of ris]
      extendsD [OF assignments_extends [OF assms(1,2), of ris cbIDs sps], of "inID i"] none
    show False by simp
  qed
  have "filter (\<lambda>j. ri_key j = ri_key i \<and> by_ri (?A (inID j))) is =
      filter (\<lambda>j. by_ri (?A (inID j))) (filter (\<lambda>j. ri_key j = ri_key i \<and> \<not> in_block cbIDs j) is)"
    unfolding filter_filter
  proof (rule filter_cong [OF refl])
    fix j assume j: "j \<in> set is"
    have "\<not> in_block cbIDs j" if "by_ri (?A (inID j))"
    proof
      assume b: "in_block cbIDs j"
      from reserved_facts(1) [OF assms(1) j this, of ris]
        extendsD [OF assignments_extends [OF assms(1,2), of ris cbIDs sps], of "inID j"] that
      show False by (simp add: by_ri_def block_assignment_def)
    qed
    then show "(ri_key j = ri_key i \<and> by_ri (?A (inID j))) =
        ((ri_key j = ri_key i \<and> \<not> in_block cbIDs j) \<and> by_ri (?A (inID j)))" by blast
  qed
  moreover have "length (filter (\<lambda>j. by_ri (?A (inID j))) (filter (\<lambda>j. ri_key j = ri_key i \<and> \<not> in_block cbIDs j) is)) <
      length (filter (\<lambda>j. ri_key j = ri_key i \<and> \<not> in_block cbIDs j) is)"
    by (rule length_filter_less [of i]) (use i(1) nb none in \<open>simp_all add: by_ri_def\<close>)
  ultimately have used: "length (filter (\<lambda>j. ri_key j = ri_key i \<and> by_ri (?A (inID j))) is) = nat (bought ris (ri_key i))"
    using reserved_count [OF assms(1,2), of "ri_key i" sps ris cbIDs] by simp
  have "\<forall>sp \<in> set sps. usable sp i \<and> 0 < rate_of sp i \<longrightarrow>
      spCommitment sp - charge (spID sp) is ?A < spCoverageTolerance * rate_of sp i"
    using plan_spec(2) [OF assms(1-3) _ _ i(1) none] assms(4) by blast
  moreover have "gInstanceID g = inID i" by (simp add: i(3) coverage_row_def Let_def split: option.split)
  ultimately show ?thesis using i(1,2) nb used by blast
qed

lemma on_demand_only_if_uncovered_witness:
  "\<exists>i \<in> {sample_instance ''i1'' ''p5.48xlarge''}. \<forall>sp \<in> {sample_plan 19}. usable sp i \<and> 0 < rate_of sp i \<longrightarrow>
     spCommitment sp - charge (spID sp) [sample_instance ''i1'' ''p5.48xlarge'']
       (assignments stable_desc [sample_instance ''i1'' ''p5.48xlarge''] [sample_plan 19] [] []) < spCoverageTolerance * rate_of sp i"
proof -
  let ?i = "sample_instance ''i1'' ''p5.48xlarge''" and ?acct = "sample_account ''a'' ''1'' False"
  have gpu: "isGPUInstance ''p5.48xlarge''" by code_simp
  have A: "assignments stable_desc [?i] [sample_plan 19] [] [] = Map.empty"
    by (simp add: assignments_def sample_instance_def sample_plan_def assign_plan_def compute_eligible_def
        stable_desc_def cover_Cons rate_of_def spCoverageTolerance_def assign_ris_Cons available_def)
  have g: "coverage_row ?acct Map.empty ?i \<in> set (analyzeCoverage stable_desc [?i] [sample_plan 19] [] [] ?acct)"
    unfolding analyzeCoverage_def A using gpu by (simp add: sample_instance_def)
  have od: "gCoverage (coverage_row ?acct Map.empty ?i) = CoverageOnDemand" by (simp add: coverage_row_def)
  have d: "distinct (map inID [?i])" "distinct (map spID [sample_plan 19])" "\<forall>sp \<in> set [sample_plan 19]. 0 \<le> spCommitment sp"
    by (simp_all add: sample_plan_def)
  from on_demand_only_if_uncovered [OF d(1) stable_desc d(2,3) g od] show ?thesis by simp
qed

text \<open>
  Every running GPU instance is reported exactly once, in order, under its account, region and
  instance id; it is reported as a capacity block exactly when it runs in an active one,
  which no reserved instance or savings plan is then spent on.
\<close>

theorem coverage_reported:
  assumes "distinct (map inID is)" "sorts_desc srt"
  shows "map gInstanceID (analyzeCoverage srt is sps ris cbIDs acct) = map inID (filter (\<lambda>i. isGPUInstance (inType i)) is) \<and>
    map gID (analyzeCoverage srt is sps ris cbIDs acct) =
      map (\<lambda>i. acAccountID acct @ ''_'' @ inRegion i @ ''_'' @ inID i) (filter (\<lambda>i. isGPUInstance (inType i)) is) \<and>
    map (\<lambda>g. gCoverage g = CoverageCB) (analyzeCoverage srt is sps ris cbIDs acct) =
      map (in_block cbIDs) (filter (\<lambda>i. isGPUInstance (inType i)) is)"
proof -
  let ?A = "assignments srt is sps ris cbIDs"
  have fields: "gInstanceID (coverage_row acct ?A i) = inID i"
    "gID (coverage_row acct ?A i) = acAccountID acct @ ''_'' @ inRegion i @ ''_'' @ inID i" for i
    by (simp_all add: coverage_row_def Let_def split: option.split)
  have cb: "gCoverage (coverage_row acct ?A i) = CoverageCB \<longleftrightarrow> in_block cbIDs i" if i: "i \<in> set is" for i
  proof (cases "in_block cbIDs i")
    case True
    from reserved_facts(1) [OF assms(1) i this, of ris]
      extendsD [OF assignments_extends [OF assms, of ris cbIDs sps], of "inID i"] True
    show ?thesis by (simp add: coverage_row_def Let_def block_assignment_def)
  next
    case False
    have "asCoverage a \<noteq> CoverageCB" if a: "?A (inID i) = Some a" for a
      using assignments_kind [OF a] reserved_facts(2) [OF assms(1) i False, of ris] by (auto simp: by_ri_def)
    with False show ?thesis by (simp add: coverage_row_def Let_def split: option.split)
  qed
  show ?thesis by (simp add: analyzeCoverage_def fields cb)
qed

lemma coverage_reported_witness:
  "map gInstanceID (analyzeCoverage stable_desc [sample_instance ''i1'' ''p5.48xlarge'', sample_instance ''i2'' ''m5.large'']
     [sample_plan 30] [] [] (sample_account ''a'' ''1'' False)) = [''i1'']"
proof -
  have "isGPUInstance ''p5.48xlarge''" "\<not> isGPUInstance ''m5.large''" by code_simp+
  then show ?thesis
    using coverage_reported [of "[sample_instance ''i1'' ''p5.48xlarge'', sample_instance ''i2'' ''m5.large'']" stable_desc
        "[sample_plan 30]" "[]" "[]" "sample_account ''a'' ''1'' False", OF _ stable_desc]
    by (simp add: sample_instance_def)
qed

end
