(* ===== verification/Capacity.thy ===== *)
theory Capacity
  imports GpuCoverage
begin

text \<open>
  Card and vCPU counts of instance types, \<^verbatim>\<open>provider/gpu_card_count.go\<close> and
  \<^verbatim>\<open>provider/vcpu_count.go\<close>, and what they make of a savings plan's rate table. The table of
  overrides is an argument. A Go map that a loop ranges over is a list with distinct keys in the
  order of the iteration, which Go leaves open. A \<open>float64\<close> is its rational value, not rounded.
\<close>

section \<open>Card counts\<close>

definition defaultGPUCardCount :: "(string \<times> int) list" where
  "defaultGPUCardCount =
     [(''p3.2xlarge'', 1), (''p3.8xlarge'', 4), (''p3.16xlarge'', 8), (''p3dn.24xlarge'', 8),
      (''p4d.24xlarge'', 8), (''p4de.24xlarge'', 8), (''p5.48xlarge'', 8),
      (''p5e.48xlarge'', 8), (''p5en.48xlarge'', 8), (''p6-b200.48xlarge'', 8),
      (''p6-b300.48xlarge'', 8), (''p6e-gb200.36xlarge'', 4), (''p6e-gb300.36xlarge'', 4),
      (''g5.xlarge'', 1), (''g5.2xlarge'', 1), (''g5.4xlarge'', 1), (''g5.8xlarge'', 1),
      (''g5.16xlarge'', 1), (''g5.12xlarge'', 4), (''g5.24xlarge'', 4), (''g5.48xlarge'', 8),
      (''g5g.xlarge'', 1), (''g5g.2xlarge'', 1), (''g5g.4xlarge'', 1), (''g5g.8xlarge'', 1),
      (''g5g.16xlarge'', 2), (''g5g.metal'', 2), (''g6.xlarge'', 1), (''g6.2xlarge'', 1),
      (''g6.4xlarge'', 1), (''g6.8xlarge'', 1), (''g6.16xlarge'', 1), (''g6.12xlarge'', 4),
      (''g6.24xlarge'', 4), (''g6.48xlarge'', 8), (''g6e.xlarge'', 1), (''g6e.2xlarge'', 1),
      (''g6e.4xlarge'', 1), (''g6e.8xlarge'', 1), (''g6e.16xlarge'', 1),
      (''g6e.12xlarge'', 4), (''g6e.24xlarge'', 4), (''g6e.48xlarge'', 8),
      (''g7e.2xlarge'', 1), (''g7e.4xlarge'', 1), (''g7e.8xlarge'', 1),
      (''g7e.12xlarge'', 2), (''g7e.24xlarge'', 4), (''g7e.48xlarge'', 8),
      (''g4dn.xlarge'', 1), (''g4dn.2xlarge'', 1), (''g4dn.4xlarge'', 1),
      (''g4dn.8xlarge'', 1), (''g4dn.16xlarge'', 1), (''g4dn.12xlarge'', 4),
      (''g4dn.metal'', 8), (''g4ad.xlarge'', 1), (''g4ad.2xlarge'', 1),
      (''g4ad.4xlarge'', 1), (''g4ad.8xlarge'', 2), (''g4ad.16xlarge'', 4),
      (''inf1.xlarge'', 1), (''inf1.2xlarge'', 1), (''inf1.6xlarge'', 4),
      (''inf1.24xlarge'', 16), (''inf2.xlarge'', 1), (''inf2.8xlarge'', 1),
      (''inf2.24xlarge'', 6), (''inf2.48xlarge'', 12), (''trn1.2xlarge'', 1),
      (''trn1.32xlarge'', 16), (''trn1n.32xlarge'', 16), (''trn2.48xlarge'', 16),
      (''trn2u.48xlarge'', 16), (''dl1.24xlarge'', 8), (''dl2q.24xlarge'', 8)]"

type_synonym overrides = "string \<Rightarrow> int option"

fun override_loop :: "(string \<times> int) list \<Rightarrow> overrides \<Rightarrow> overrides" where
  "override_loop [] ov = ov"
| "override_loop ((k, v) # m) ov = override_loop m (if v > 0 then ov(k \<mapsto> v) else ov)"

definition SetGPUCardOverrides :: "(string \<times> int) list \<Rightarrow> overrides" where
  "SetGPUCardOverrides m = override_loop m Map.empty"

definition GPUCardCount :: "overrides \<Rightarrow> string \<Rightarrow> int" where
  "GPUCardCount ov t =
     (case ov t of
        Some n \<Rightarrow> n
      | None \<Rightarrow>
          (case ov (instanceFamily t) of
             Some n \<Rightarrow> n
           | None \<Rightarrow> (case map_of defaultGPUCardCount t of Some n \<Rightarrow> n | None \<Rightarrow> 0)))"

section \<open>vCPU counts\<close>

definition vcpu_sizes :: "(string \<times> int) list" where
  "vcpu_sizes =
     [(''nano'', 1), (''micro'', 1), (''small'', 1), (''medium'', 2), (''large'', 2),
      (''xlarge'', 4), (''2xlarge'', 8), (''3xlarge'', 12), (''4xlarge'', 16),
      (''6xlarge'', 24), (''8xlarge'', 32), (''9xlarge'', 36), (''12xlarge'', 48),
      (''16xlarge'', 64), (''18xlarge'', 72), (''24xlarge'', 96), (''32xlarge'', 128),
      (''48xlarge'', 192), (''56xlarge'', 224), (''96xlarge'', 384), (''metal-16xl'', 64),
      (''metal-24xl'', 96), (''metal-32xl'', 128), (''metal-48xl'', 192)]"

definition vCPUCount :: "string \<Rightarrow> int" where
  "vCPUCount t =
     (case last_index (CHR ''.'') t of
        None \<Rightarrow> 0
      | Some i \<Rightarrow> (case map_of vcpu_sizes (drop (Suc i) t) of Some n \<Rightarrow> n | None \<Rightarrow> 0))"

section \<open>Savings plans\<close>

text \<open>
  \<open>strconv.ParseFloat\<close> for decimal numbers; infinities, hexadecimal numbers and digit separators are
  left out. \<open>parseFloatSafe\<close> passes it on; on an error the value is zero.
\<close>

definition decimal_exponent :: "string \<Rightarrow> int option" where
  "decimal_exponent s =
     (case s of
        [] \<Rightarrow> Some 0
      | c # t \<Rightarrow> if c = CHR ''e'' \<or> c = CHR ''E'' then atoi t else None)"

definition scale_ten :: "int \<Rightarrow> float64 \<Rightarrow> float64" where
  "scale_ten e x = (if 0 \<le> e then x * 10 ^ nat e else x / 10 ^ nat (- e))"

definition parseFloat :: "string \<Rightarrow> float64 option" where
  "parseFloat s =
     (let (neg, t) =
        (case s of
           [] \<Rightarrow> (False, [])
         | c # cs \<Rightarrow> if c = CHR ''-'' then (True, cs)
                   else if c = CHR ''+'' then (False, cs) else (False, s));
        whole = takeWhile is_digit t; t1 = dropWhile is_digit t;
        (part, t2) =
        (case t1 of
           [] \<Rightarrow> ([], [])
         | c # cs \<Rightarrow> if c = CHR ''.'' then (takeWhile is_digit cs, dropWhile is_digit cs) else ([], t1))
      in if whole @ part = [] then None
         else case decimal_exponent t2 of
                None \<Rightarrow> None
              | Some e \<Rightarrow>
                  let x = scale_ten (e - int (length part)) (of_int (digits_int (whole @ part)))
                  in Some (if neg then - x else x))"

definition parseFloatSafe :: "string \<Rightarrow> float64" where
  "parseFloatSafe s = (case parseFloat s of Some x \<Rightarrow> x | None \<Rightarrow> 0)"

datatype capacity_unit = CapacityUnknown | CapacityCards | CapacityCores

fun unit_string :: "capacity_unit \<Rightarrow> string" where
  "unit_string CapacityUnknown = []"
| "unit_string CapacityCards = ''cards''"
| "unit_string CapacityCores = ''cores''"

definition capacityFor :: "float64 \<Rightarrow> float64 \<Rightarrow> float64" where
  "capacityFor commitment unitRate =
     (if unitRate \<le> 0 \<or> commitment \<le> 0 then 0 else commitment / unitRate)"

definition computeSPReferenceFallbacks :: "string list" where
  "computeSPReferenceFallbacks =
     [''c7i.xlarge'', ''c7g.xlarge'', ''c6i.xlarge'', ''c6g.xlarge'',
      ''m7i.xlarge'', ''m7g.xlarge'', ''m6i.xlarge'', ''m6g.xlarge'']"

type_synonym rate_table = "(string \<times> float64) list"

fun find_reference :: "rate_table \<Rightarrow> string list \<Rightarrow> (string \<times> float64) option" where
  "find_reference rates [] = None"
| "find_reference rates (cand # cands) =
     (case map_of rates cand of
        Some r \<Rightarrow> if r > 0 then Some (cand, r) else find_reference rates cands
      | None \<Rightarrow> find_reference rates cands)"

text \<open>The loop over the table: the highest rate and the first type found with it.\<close>

fun top_loop :: "float64 \<Rightarrow> string \<Rightarrow> rate_table \<Rightarrow> float64 \<times> string" where
  "top_loop topRate topType [] = (topRate, topType)"
| "top_loop topRate topType ((t, r) # rates) =
     (if r > topRate then top_loop r t rates else top_loop topRate topType rates)"

definition per_unit :: "float64 \<Rightarrow> float64 \<Rightarrow> int \<Rightarrow> capacity_unit \<Rightarrow> float64 \<times> float64 \<times> capacity_unit" where
  "per_unit commitment rate n u =
     (let unitRate = rate / of_int n in (unitRate, capacityFor commitment unitRate, u))"

definition normalizeSPRate ::
  "overrides \<Rightarrow> string \<Rightarrow> rate_table \<Rightarrow> string \<Rightarrow> float64 \<times> float64 \<times> capacity_unit" where
  "normalizeSPRate ov planType rates commitmentStr =
     (let commitment = parseFloatSafe commitmentStr
      in if rates = [] then (0, 0, CapacityUnknown)
         else if planType = ''Compute''
         then (case find_reference rates computeSPReferenceFallbacks of
                 None \<Rightarrow> (0, 0, CapacityUnknown)
               | Some (t, r) \<Rightarrow>
                   if vCPUCount t \<le> 0 then (0, 0, CapacityUnknown)
                   else per_unit commitment r (vCPUCount t) CapacityCores)
         else (case top_loop 0 [] rates of (topRate, topType) \<Rightarrow>
                 if topType = [] then (0, 0, CapacityUnknown)
                 else if GPUCardCount ov topType > 0
                 then per_unit commitment topRate (GPUCardCount ov topType) CapacityCards
                 else if vCPUCount topType > 0
                 then per_unit commitment topRate (vCPUCount topType) CapacityCores
                 else (topRate, 0, CapacityUnknown)))"

lemma parseFloat_examples:
  "parseFloat ''12.50'' = Some (25 / 2)" "parseFloat ''-3e2'' = Some (- 300)"
  "parseFloat ''1.5e-1'' = Some (3 / 20)" "parseFloat ''abc'' = None" "parseFloat ''.'' = None"
  by code_simp+

lemma count_examples:
  "vCPUCount ''m7i.48xlarge'' = 192" "vCPUCount ''c5.metal'' = 0" "vCPUCount ''p5'' = 0"
  "GPUCardCount Map.empty ''p5.48xlarge'' = 8" "GPUCardCount Map.empty ''m7i.large'' = 0"
  "GPUCardCount (SetGPUCardOverrides [(''p5'', 4), (''p5.48xlarge'', - 1)]) ''p5.48xlarge'' = 4"
  by code_simp+

section \<open>The highest rate\<close>

definition top_of :: "rate_table \<Rightarrow> float64 \<Rightarrow> string \<Rightarrow> bool" where
  "top_of rates r t \<longleftrightarrow> (t, r) \<in> set rates \<and> 0 < r \<and> (\<forall>x \<in> set rates. snd x \<le> r)"

lemma top_loop_mono: "top_loop r t rates = (r', t') \<Longrightarrow> r \<le> r' \<and> (\<forall>x \<in> set rates. snd x \<le> r')"
  by (induction r t rates rule: top_loop.induct) (fastforce split: if_splits)+

lemma top_loop_from: "top_loop r t rates = (r', t') \<Longrightarrow> (r', t') = (r, t) \<or> (t', r') \<in> set rates \<and> r < r'"
proof (induction r t rates rule: top_loop.induct)
  case (2 r t u q rates)
  show ?case
  proof (cases "q > r")
    case True
    with 2 show ?thesis by fastforce
  next
    case False
    with 2 show ?thesis by auto
  qed
qed simp

lemma top_loop_cases:
  assumes "top_loop 0 [] rates = (r, t)"
  shows "(r = 0 \<and> t = [] \<and> (\<forall>x \<in> set rates. snd x \<le> 0)) \<or> top_of rates r t"
  using top_loop_from [OF assms] top_loop_mono [OF assms] by (auto simp: top_of_def)

definition single_top :: "rate_table \<Rightarrow> bool" where
  "single_top rates \<longleftrightarrow> (\<forall>r t t'. top_of rates r t \<and> top_of rates r t' \<longrightarrow> t = t')"

lemma top_loop_order:
  assumes "set rates = set rates'" "single_top rates"
  shows "top_loop 0 [] rates = top_loop 0 [] rates'"
proof -
  obtain r t where 1: "top_loop 0 [] rates = (r, t)" by (cases "top_loop 0 [] rates")
  obtain r' t' where 2: "top_loop 0 [] rates' = (r', t')" by (cases "top_loop 0 [] rates'")
  have same: "top_of rates' = top_of rates" by (intro ext) (simp add: top_of_def assms(1))
  note c = top_loop_cases [OF 1] top_loop_cases [OF 2, unfolded same, folded assms(1)]
  have "r = r' \<and> t = t'"
  proof (cases "top_of rates r t")
    case True
    then have "0 < r" "(t, r) \<in> set rates" by (auto simp: top_of_def)
    with c(2) have t': "top_of rates r' t'" by force
    with True have "r = r'" unfolding top_of_def by force
    with True t' assms(2) show ?thesis by (auto simp: single_top_def)
  next
    case False
    with c(1) have "r = 0" "t = []" "\<forall>x \<in> set rates. snd x \<le> 0" by auto
    moreover from this(3) have "\<not> top_of rates r' t'" by (force simp: top_of_def)
    ultimately show ?thesis using c(2) by auto
  qed
  with 1 2 show ?thesis by simp
qed

lemma map_of_order: "distinct (map fst xs) \<Longrightarrow> mset xs = mset ys \<Longrightarrow> map_of xs = map_of ys"
  by (metis map_of_inject_set mset_eq_imp_distinct_iff mset_eq_setD mset_map)

lemma find_reference_order:
  "map_of rates = map_of rates' \<Longrightarrow> find_reference rates cands = find_reference rates' cands"
  by (induction cands) (auto split: option.split)

text \<open>
  C35. The unit rate and the capacity of a savings plan do not depend on the order in which Go ranges over
  its rates, provided that, for a plan of an instance family, only one instance type has the
  highest rate. A compute plan needs no proviso.
\<close>

theorem plan_rate_order:
  assumes "distinct (map fst rates)" "mset rates = mset rates'"
    and "planType = ''Compute'' \<or> single_top rates"
  shows "normalizeSPRate ov planType rates' commitment = normalizeSPRate ov planType rates commitment"
proof -
  have m: "map_of rates = map_of rates'" by (rule map_of_order [OF assms(1,2)])
  have set: "set rates = set rates'" by (rule mset_eq_setD [OF assms(2)])
  then have "rates = [] \<longleftrightarrow> rates' = []" by auto
  then have nil: "rates' = [] \<longleftrightarrow> rates = []" by auto
  show ?thesis
  proof (cases "planType = ''Compute''")
    case True
    with nil find_reference_order [OF m] show ?thesis by (simp add: normalizeSPRate_def Let_def)
  next
    case False
    then have "top_loop 0 [] rates' = top_loop 0 [] rates"
      using assms(3) top_loop_order [OF set] by simp
    with False nil show ?thesis by (simp add: normalizeSPRate_def Let_def)
  qed
qed

lemma plan_rate_order_witness:
  "normalizeSPRate Map.empty ''EC2Instance'' [(''p5.48xlarge'', 40), (''p5.4xlarge'', 5)] ''80'' = (5, 16, CapacityCards)"
proof -
  let ?rates = "[(''p5.4xlarge'', 5), (''p5.48xlarge'', 40)] :: rate_table"
  have "single_top ?rates" by (auto simp: single_top_def top_of_def)
  then have "normalizeSPRate Map.empty ''EC2Instance'' [(''p5.48xlarge'', 40), (''p5.4xlarge'', 5)] ''80'' =
      normalizeSPRate Map.empty ''EC2Instance'' ?rates ''80''"
    by (intro plan_rate_order) simp_all
  also have "\<dots> = (5, 16, CapacityCards)" by code_simp
  finally show ?thesis .
qed

text \<open>The figures of a plan of an instance family by the type its highest rate \<open>r\<close> is taken from.\<close>

definition type_units :: "overrides \<Rightarrow> string \<Rightarrow> int \<times> capacity_unit" where
  "type_units ov t =
     (if GPUCardCount ov t > 0 then (GPUCardCount ov t, CapacityCards)
      else if vCPUCount t > 0 then (vCPUCount t, CapacityCores) else (1, CapacityUnknown))"

definition figures_of :: "overrides \<Rightarrow> string \<Rightarrow> float64 \<Rightarrow> string \<Rightarrow> float64 \<times> float64 \<times> capacity_unit" where
  "figures_of ov commitment r t =
     (case type_units ov t of (n, u) \<Rightarrow>
        (r / of_int n, if u = CapacityUnknown then 0 else capacityFor (parseFloatSafe commitment) (r / of_int n), u))"

lemma figures_differ:
  assumes "0 < r" "type_units ov t \<noteq> type_units ov t'"
  shows "figures_of ov commitment r t \<noteq> figures_of ov commitment r t'"
proof -
  obtain n u n' u' where u: "type_units ov t = (n, u)" "type_units ov t' = (n', u')"
    by (metis surj_pair)
  then have "0 < n" "0 < n'" by (auto simp: type_units_def split: if_splits)
  with u assms show ?thesis by (auto simp: figures_of_def frac_eq_eq)
qed

lemma top_loop_keep: "\<forall>x \<in> set rates. snd x \<le> r \<Longrightarrow> top_loop r t rates = (r, t)"
  by (induction rates) auto

lemma normalize_top:
  "planType \<noteq> ''Compute'' \<Longrightarrow> rates \<noteq> [] \<Longrightarrow> top_loop 0 [] rates = (r, t) \<Longrightarrow> t \<noteq> [] \<Longrightarrow>
   normalizeSPRate ov planType rates commitment = figures_of ov commitment r t"
  by (simp add: normalizeSPRate_def figures_of_def type_units_def per_unit_def Let_def)

lemma normalize_any_order:
  assumes "planType \<noteq> ''Compute''" "top_of rates r t0" "\<forall>x \<in> set rates. fst x \<noteq> []" "mset rates' = mset rates"
  shows "\<exists>t. top_of rates r t \<and> normalizeSPRate ov planType rates' commitment = figures_of ov commitment r t"
proof -
  have set: "set rates' = set rates" by (rule mset_eq_setD [OF assms(4)])
  obtain r' t where l: "top_loop 0 [] rates' = (r', t)" by (cases "top_loop 0 [] rates'")
  have "0 < r" "(t0, r) \<in> set rates'" using assms(2) by (auto simp: top_of_def set)
  with top_loop_cases [OF l] have "top_of rates' r' t" by fastforce
  then have "top_of rates r' t" by (simp add: top_of_def set)
  moreover from this assms(2) have "r' = r" unfolding top_of_def by force
  ultimately have t: "top_of rates r t" "t \<noteq> []" "rates' \<noteq> []"
    using assms(3) \<open>(t0, r) \<in> set rates'\<close> by (auto simp: top_of_def)
  with normalize_top [OF assms(1) t(3) l t(2)] \<open>r' = r\<close> show ?thesis by auto
qed

lemma normalize_some_order:
  assumes "planType \<noteq> ''Compute''" "top_of rates r t" "\<forall>x \<in> set rates. fst x \<noteq> []"
  shows "\<exists>rates'. mset rates' = mset rates \<and>
    normalizeSPRate ov planType rates' commitment = figures_of ov commitment r t"
proof -
  let ?rates = "(t, r) # remove1 (t, r) rates"
  have top: "(t, r) \<in> set rates" "0 < r" "\<forall>x \<in> set rates. snd x \<le> r" "t \<noteq> []"
    using assms(2,3) by (auto simp: top_of_def)
  then have "\<forall>x \<in> set (remove1 (t, r) rates). snd x \<le> r" by (meson notin_set_remove1)
  with top(2) have "top_loop 0 [] ?rates = (r, t)" by (simp add: top_loop_keep)
  from normalize_top [OF assms(1) _ this top(4)] top(1) show ?thesis
    by (intro exI [of _ ?rates]) simp
qed

text \<open>
  C36. Without the proviso it does. Over the orders in which Go may range over the rates of an instance
  family's plan, the results are exactly the figures of the types that have the highest rate, so whenever
  two of these differ in their number or kind of units, the result depends on the order. So it is for
  families with a bare-metal type: it costs what the largest size costs but has no vCPU count, and
  the same plan has a capacity in cores or none at all.
\<close>

theorem plan_rate_order_matters:
  assumes "planType \<noteq> ''Compute''" "top_of rates r t" "\<forall>x \<in> set rates. fst x \<noteq> []"
  shows "{normalizeSPRate ov planType rates' commitment | rates'. mset rates' = mset rates} =
      {figures_of ov commitment r t | t. top_of rates r t} \<and>
    (\<forall>t'. top_of rates r t' \<and> type_units ov t \<noteq> type_units ov t' \<longrightarrow>
      (\<exists>rates1 rates2. mset rates1 = mset rates \<and> mset rates2 = mset rates \<and>
         normalizeSPRate ov planType rates1 commitment \<noteq> normalizeSPRate ov planType rates2 commitment))"
proof (intro conjI allI impI)
  show "{normalizeSPRate ov planType rates' commitment | rates'. mset rates' = mset rates} =
      {figures_of ov commitment r t | t. top_of rates r t}"
  proof (intro equalityI subsetI)
    fix x assume "x \<in> {normalizeSPRate ov planType rates' commitment | rates'. mset rates' = mset rates}"
    then show "x \<in> {figures_of ov commitment r t | t. top_of rates r t}"
      using normalize_any_order [OF assms, of _ ov commitment] by blast
  next
    fix x assume "x \<in> {figures_of ov commitment r t | t. top_of rates r t}"
    then obtain t where "x = figures_of ov commitment r t" "top_of rates r t" by blast
    then show "x \<in> {normalizeSPRate ov planType rates' commitment | rates'. mset rates' = mset rates}"
      using normalize_some_order [OF assms(1) _ assms(3), of r t ov commitment]
      by (metis (mono_tags, lifting) mem_Collect_eq)
  qed
next
  fix t' assume t': "top_of rates r t' \<and> type_units ov t \<noteq> type_units ov t'"
  then have "figures_of ov commitment r t \<noteq> figures_of ov commitment r t'"
    using assms(2) by (intro figures_differ) (auto simp: top_of_def)
  with normalize_some_order [OF assms, of ov commitment] normalize_some_order [OF assms(1) _ assms(3), of r t' ov commitment] t'
  show "\<exists>rates1 rates2. mset rates1 = mset rates \<and> mset rates2 = mset rates \<and>
      normalizeSPRate ov planType rates1 commitment \<noteq> normalizeSPRate ov planType rates2 commitment"
    by metis
qed

definition metal_rates :: rate_table where
  "metal_rates = [(''c5.24xlarge'', 48 / 10), (''c5.metal'', 48 / 10), (''c5.large'', 1 / 10)]"

lemma plan_rate_order_matters_witness:
  "(5 / 100, 192, CapacityCores) \<in>
     {normalizeSPRate Map.empty ''EC2Instance'' rates ''9.6'' | rates. mset rates = mset metal_rates} \<and>
   (48 / 10, 0, CapacityUnknown) \<in>
     {normalizeSPRate Map.empty ''EC2Instance'' rates ''9.6'' | rates. mset rates = mset metal_rates}"
proof -
  have top: "top_of metal_rates (48 / 10) ''c5.24xlarge''" "top_of metal_rates (48 / 10) ''c5.metal''"
    "\<forall>x \<in> set metal_rates. fst x \<noteq> []"
    by (simp_all add: top_of_def metal_rates_def)
  have figures: "figures_of Map.empty ''9.6'' (48 / 10) ''c5.24xlarge'' = (5 / 100, 192, CapacityCores)"
    "figures_of Map.empty ''9.6'' (48 / 10) ''c5.metal'' = (48 / 10, 0, CapacityUnknown)"
    by code_simp+
  have "''EC2Instance'' \<noteq> ''Compute''" by simp
  from plan_rate_order_matters [OF this top(1,3), of Map.empty "''9.6''"] show ?thesis
    unfolding figures [symmetric] using top(1,2) by blast
qed

lemma find_reference_pos: "find_reference rates cands = Some (t, r) \<Longrightarrow> 0 < r"
  by (induction cands) (auto split: option.splits if_splits)

lemma top_loop_pos: "top_loop 0 [] rates = (r, t) \<Longrightarrow> t \<noteq> [] \<Longrightarrow> 0 < r"
  using top_loop_cases [of rates r t] by (auto simp: top_of_def)

lemma per_unit_consistent:
  assumes "per_unit c rate n u = (x, cap, u')" "0 < rate" "0 < n"
  shows "u' = u \<and> 0 < x \<and> 0 \<le> cap \<and> x * cap = max 0 c"
proof -
  have "0 < rate / of_int n" using assms(2,3) by simp
  with assms show ?thesis
    by (auto simp: per_unit_def Let_def capacityFor_def intro!: divide_nonneg_pos)
qed

lemma plan_rate_shape:
  "(\<exists>r. normalizeSPRate ov planType rates cs = (r, 0, CapacityUnknown)) \<or>
   (\<exists>rate n u. 0 < rate \<and> 0 < n \<and> u \<noteq> CapacityUnknown \<and>
      normalizeSPRate ov planType rates cs = per_unit (parseFloatSafe cs) rate n u)"
  (is "?unknown \<or> ?unit")
proof (cases "rates = [] \<or> planType = ''Compute''")
  case True
  show ?thesis
  proof (cases "find_reference rates computeSPReferenceFallbacks")
    case None
    with True show ?thesis by (auto simp: normalizeSPRate_def Let_def)
  next
    case (Some p)
    obtain t r where "p = (t, r)" by (cases p)
    with Some have f: "find_reference rates computeSPReferenceFallbacks = Some (t, r)" by simp
    have "0 < r" by (rule find_reference_pos [OF f])
    show ?thesis
    proof (cases "rates = [] \<or> vCPUCount t \<le> 0")
      case True
      with f \<open>rates = [] \<or> planType = ''Compute''\<close> show ?thesis by (auto simp: normalizeSPRate_def Let_def)
    next
      case False
      with True f have "normalizeSPRate ov planType rates cs = per_unit (parseFloatSafe cs) r (vCPUCount t) CapacityCores"
        by (simp add: normalizeSPRate_def Let_def)
      with False \<open>0 < r\<close> show ?thesis by (metis capacity_unit.distinct(3) not_le)
    qed
  qed
next
  case False
  obtain r t where top: "top_loop 0 [] rates = (r, t)" by (cases "top_loop 0 [] rates")
  consider "t = []" | "t \<noteq> []" "0 < GPUCardCount ov t"
    | "t \<noteq> []" "\<not> 0 < GPUCardCount ov t" "0 < vCPUCount t"
    | "t \<noteq> []" "\<not> 0 < GPUCardCount ov t" "\<not> 0 < vCPUCount t" by blast
  then show ?thesis
  proof cases
    case 2
    with False top have "normalizeSPRate ov planType rates cs = per_unit (parseFloatSafe cs) r (GPUCardCount ov t) CapacityCards"
      by (simp add: normalizeSPRate_def Let_def)
    with 2 top_loop_pos [OF top] show ?thesis by blast
  next
    case 3
    with False top have "normalizeSPRate ov planType rates cs = per_unit (parseFloatSafe cs) r (vCPUCount t) CapacityCores"
      by (simp add: normalizeSPRate_def Let_def)
    with 3 top_loop_pos [OF top] show ?thesis by blast
  qed (use False top in \<open>simp_all add: normalizeSPRate_def Let_def\<close>)
qed

text \<open>
  A savings plan's unit rate and capacity fit together: when there is a unit, the rate is positive and the
  capacity in that unit costs exactly the hourly commitment, and without a unit there is no
  capacity.
\<close>

theorem plan_capacity_consistent:
  assumes "normalizeSPRate ov planType rates commitmentStr = (unitRate, capacity, u)"
  shows "0 \<le> capacity \<and> (u = CapacityUnknown \<longrightarrow> capacity = 0) \<and>
    (u \<noteq> CapacityUnknown \<longrightarrow>
       0 < unitRate \<and> unitRate * capacity = max 0 (parseFloatSafe commitmentStr))"
proof (cases "\<exists>r. normalizeSPRate ov planType rates commitmentStr = (r, 0, CapacityUnknown)")
  case True
  with assms show ?thesis by auto
next
  case False
  with plan_rate_shape [of ov planType rates commitmentStr] assms obtain rate n u' where
    "0 < rate" "0 < n" "u' \<noteq> CapacityUnknown"
    "per_unit (parseFloatSafe commitmentStr) rate n u' = (unitRate, capacity, u)" by metis
  with per_unit_consistent [OF this(4,1,2)] show ?thesis by simp
qed

lemma plan_capacity_consistent_witness:
  "\<exists>unitRate capacity. normalizeSPRate Map.empty ''Compute'' [(''m7i.xlarge'', 2 / 10)] ''1'' =
     (unitRate, capacity, CapacityCores) \<and> unitRate * capacity = 1"
proof -
  have n: "normalizeSPRate Map.empty ''Compute'' [(''m7i.xlarge'', 2 / 10)] ''1'' = (5 / 100, 20, CapacityCores)"
    "parseFloatSafe ''1'' = 1"
    by code_simp+
  obtain x cap where e: "normalizeSPRate Map.empty ''Compute'' [(''m7i.xlarge'', 2 / 10)] ''1'' = (x, cap, CapacityCores)"
    using n(1) by blast
  from plan_capacity_consistent [OF e] n(2) have "x * cap = 1" by simp
  with e show ?thesis by blast
qed

end
