(* ===== verification/Csv.thy ===== *)
theory Csv
  imports Store
begin

text \<open>
  The exchange of reservations as CSV, \<^verbatim>\<open>csvutil/csv.go\<close>, with what it uses of Go's
  \<^verbatim>\<open>encoding/csv\<close>: the writer with its quoting, and the reader, which takes an input
  line by line (\<open>\r\n\<close> counts as \<open>\n\<close>, empty lines are skipped), rejects stray quotes, and wants
  every record to have as many fields as the first. Errors of the underlying writer and the
  logging are left out.
\<close>

section \<open>The writer\<close>

abbreviation "LF \<equiv> CHR 0x0A"
abbreviation "CR \<equiv> CHR 0x0D"
abbreviation "DQ \<equiv> CHR 0x22"
abbreviation "Comma \<equiv> CHR '',''"

definition field_needs_quotes :: "string \<Rightarrow> bool" where
  "field_needs_quotes f \<longleftrightarrow>
     f \<noteq> [] \<and> (f = [CHR 0x5C, CHR ''.''] \<or> list_ex (\<lambda>c. c = Comma \<or> c = DQ \<or> c = CR \<or> c = LF) f \<or> is_space (hd f))"

fun quote_body :: "string \<Rightarrow> string" where
  "quote_body [] = []"
| "quote_body (c # cs) = (if c = DQ then DQ # DQ # quote_body cs else c # quote_body cs)"

definition write_field :: "string \<Rightarrow> string" where
  "write_field f = (if field_needs_quotes f then DQ # quote_body f @ [DQ] else f)"

fun write_fields :: "string list \<Rightarrow> string" where
  "write_fields [] = []"
| "write_fields [f] = write_field f"
| "write_fields (f # fs) = write_field f @ Comma # write_fields fs"

definition write_record :: "string list \<Rightarrow> string" where
  "write_record fs = write_fields fs @ [LF]"

section \<open>The reader\<close>

fun normalize :: "string \<Rightarrow> string" where
  "normalize [] = []"
| "normalize [c] = (if c = CR then [] else [c])"
| "normalize (c # d # s) = (if c = CR \<and> d = LF then normalize (d # s) else c # normalize (d # s))"

text \<open>
  A field and the input from its end on, which is empty or starts with a comma or a line end;
  \<open>None\<close> for a bare quote, a quote that is not closed or text after the closing quote.
\<close>

definition plain_field :: "string \<Rightarrow> (string \<times> string) option" where
  "plain_field s =
     (let f = takeWhile (\<lambda>c. c \<noteq> Comma \<and> c \<noteq> LF) s
      in if DQ \<in> set f then None else Some (f, dropWhile (\<lambda>c. c \<noteq> Comma \<and> c \<noteq> LF) s))"

fun quoted_field :: "string \<Rightarrow> (string \<times> string) option" where
  "quoted_field [] = None"
| "quoted_field [c] = (if c = DQ then Some ([], []) else None)"
| "quoted_field (c # d # s) =
     (if c \<noteq> DQ then map_option (\<lambda>(f, r). (c # f, r)) (quoted_field (d # s))
      else if d = DQ then map_option (\<lambda>(f, r). (DQ # f, r)) (quoted_field s)
      else if d = Comma \<or> d = LF then Some ([], d # s) else None)"

fun read_field :: "string \<Rightarrow> (string \<times> string) option" where
  "read_field [] = plain_field []"
| "read_field (c # s) = (if c = DQ then quoted_field s else plain_field (c # s))"

lemma quoted_field_shorter: "quoted_field s = Some (f, r) \<Longrightarrow> length r < length s"
  by (induction s arbitrary: f r rule: quoted_field.induct) (fastforce split: if_splits)+

lemma read_field_shorter: "read_field s = Some (f, r) \<Longrightarrow> length r \<le> length s"
  using quoted_field_shorter [of "tl s" f r]
  by (cases s rule: read_field.cases) (auto simp: plain_field_def length_dropWhile_le le_SucI split: if_splits)

text \<open>The fields of a record, and the input after it.\<close>

function read_record :: "string \<Rightarrow> (string list \<times> string) option" where
  "read_record s =
     (case read_field s of
        None \<Rightarrow> None
      | Some (f, []) \<Rightarrow> Some ([f], [])
      | Some (f, c # r) \<Rightarrow>
          if c = Comma then map_option (\<lambda>(fs, r'). (f # fs, r')) (read_record r) else Some ([f], r))"
  by pat_completeness auto
termination
  by (relation "measure length") (auto dest: read_field_shorter)

declare read_record.simps [simp del]

lemma read_record_shorter: "read_record s = Some (fs, r) \<Longrightarrow> s \<noteq> [] \<Longrightarrow> length r < length s"
proof (induction s arbitrary: fs r rule: read_record.induct)
  case (1 s)
  show ?case
  proof (cases "read_field s")
    case None
    with "1.prems" show ?thesis by (simp add: read_record.simps [of s])
  next
    case (Some p)
    obtain f t where p: "p = (f, t)" by (cases p)
    with Some have le: "length t \<le> length s" by (simp add: read_field_shorter)
    show ?thesis
    proof (cases t)
      case Nil
      with Some p "1.prems" show ?thesis by (simp add: read_record.simps [of s])
    next
      case (Cons c u)
      show ?thesis
      proof (cases "c = Comma")
        case True
        with Some p Cons "1.prems" obtain gs where g: "read_record u = Some (gs, r)"
          by (auto simp: read_record.simps [of s])
        have "length r \<le> length u"
        proof (cases "u = []")
          case True
          with g have "r = []" by (simp add: read_record.simps [of "[]"] plain_field_def)
          then show ?thesis by simp
        next
          case False
          with g have "length r < length u" using "1.IH" [of p f t c u gs r] Some p Cons True by simp
          then show ?thesis by simp
        qed
        with le Cons show ?thesis by simp
      next
        case False
        with Some p Cons "1.prems" le show ?thesis by (simp add: read_record.simps [of s])
      qed
    qed
  qed
qed

function read_records :: "string \<Rightarrow> string list list option" where
  "read_records [] = Some []"
| "read_records (c # s) =
     (if c = LF then read_records s
      else case read_record (c # s) of
             None \<Rightarrow> None
           | Some (fs, r) \<Rightarrow> map_option ((#) fs) (read_records r))"
  by pat_completeness auto
termination
  by (relation "measure length") (auto dest: read_record_shorter)

definition ReadAll :: "string \<Rightarrow> string list list option" where
  "ReadAll s =
     (case read_records (normalize s) of
        None \<Rightarrow> None
      | Some recs \<Rightarrow>
          if list_all (\<lambda>fs. length fs = length (hd recs)) recs then Some recs else None)"

section \<open>Export and import\<close>

definition headers :: "string list" where
  "headers =
     [''account_alias'', ''account_id'', ''region'', ''type'', ''resource_id'',
      ''instance_type'', ''platform'', ''quantity'', ''used_count'', ''start_time'', ''end_time'',
      ''status'', ''description'']"

definition export_row :: "reservation \<Rightarrow> string list" where
  "export_row r =
     [AccountAlias r, AccountID r, Region r, RType r, ResourceID r,
      InstanceType r, Platform r, itoa (Quantity r), itoa (UsedCount r),
      format_rfc3339 (StartTime r), format_rfc3339 (EndTime r), Status r, Description r]"

definition Export :: "reservation list \<Rightarrow> string" where
  "Export rows = concat (map write_record (headers # map export_row rows))"

fun col_loop :: "(string \<Rightarrow> nat option) \<Rightarrow> nat \<Rightarrow> string list \<Rightarrow> string \<Rightarrow> nat option" where
  "col_loop m i [] = m"
| "col_loop m i (h # hs) = col_loop (m(trim_space h \<mapsto> i)) (Suc i) hs"

definition getCol :: "string list \<Rightarrow> (string \<Rightarrow> nat option) \<Rightarrow> string \<Rightarrow> string" where
  "getCol row m key =
     (case m key of
        Some i \<Rightarrow> if i < length row then trim_space (row ! i) else []
      | None \<Rightarrow> [])"

definition import_count :: "int \<Rightarrow> string \<Rightarrow> int" where
  "import_count dflt q = (if q = [] then dflt else case atoi q of None \<Rightarrow> dflt | Some n \<Rightarrow> n)"

definition import_time :: "string \<Rightarrow> gotime" where
  "import_time s = (if s = [] then 0 else case parse_rfc3339 s of None \<Rightarrow> 0 | Some t \<Rightarrow> t)"

definition canonical_id :: "string \<Rightarrow> string \<Rightarrow> string \<Rightarrow> string" where
  "canonical_id acct region res = acct @ ''_'' @ region @ ''_'' @ res"

definition import_row :: "(string \<Rightarrow> nat option) \<Rightarrow> string list \<Rightarrow> reservation" where
  "import_row m row =
     zero_reservation
       \<lparr>ID := canonical_id (getCol row m ''account_id'') (getCol row m ''region'') (getCol row m ''resource_id''),
        AccountAlias := getCol row m ''account_alias'', AccountID := getCol row m ''account_id'',
        Region := getCol row m ''region'', RType := getCol row m ''type'',
        ResourceID := getCol row m ''resource_id'', InstanceType := getCol row m ''instance_type'',
        Platform := getCol row m ''platform'',
        Quantity := import_count 1 (getCol row m ''quantity''),
        UsedCount := import_count 0 (getCol row m ''used_count''),
        StartTime := import_time (getCol row m ''start_time''),
        EndTime := import_time (getCol row m ''end_time''),
        Status := getCol row m ''status'', Description := getCol row m ''description''\<rparr>"

definition has_ids :: "reservation \<Rightarrow> bool" where
  "has_ids r \<longleftrightarrow> ResourceID r \<noteq> [] \<and> AccountID r \<noteq> []"

definition Import :: "string \<Rightarrow> reservation list option" where
  "Import s =
     (case ReadAll s of
        None \<Rightarrow> None
      | Some recs \<Rightarrow>
          if length recs < 2 then Some []
          else Some (filter has_ids (map (import_row (col_loop Map.empty 0 (hd recs))) (tl recs))))"

section \<open>The reader undoes the writer\<close>

definition field_end :: "string \<Rightarrow> bool" where
  "field_end r \<longleftrightarrow> r = [] \<or> hd r = Comma \<or> hd r = LF"

lemma field_end_simps [simp]: "field_end []" "field_end (c # r) \<longleftrightarrow> c = Comma \<or> c = LF"
  by (simp_all add: field_end_def)

lemma normalize_id: "CR \<notin> set s \<Longrightarrow> normalize s = s"
  by (induction s rule: normalize.induct) auto

lemma quoted_field_char:
  "c \<noteq> DQ \<Longrightarrow> quoted_field (c # s) = map_option (\<lambda>(f, r). (c # f, r)) (quoted_field s)"
  by (cases s) simp_all

lemma quoted_field_body: "field_end r \<Longrightarrow> quoted_field (quote_body f @ DQ # r) = Some (f, r)"
proof (induction f)
  case Nil
  then show ?case by (cases r) auto
qed (simp add: quoted_field_char)

lemma plain_field_text:
  assumes "\<forall>c \<in> set f. c \<noteq> Comma \<and> c \<noteq> LF \<and> c \<noteq> DQ" "field_end r"
  shows "plain_field (f @ r) = Some (f, r)"
proof -
  let ?P = "\<lambda>c. c \<noteq> Comma \<and> c \<noteq> LF"
  have "takeWhile ?P r = []" "dropWhile ?P r = r" using assms(2) by (cases r; auto)+
  then show ?thesis using assms(1) by (auto simp: plain_field_def takeWhile_append dropWhile_append)
qed

lemma read_field_plain: "s = [] \<or> hd s \<noteq> DQ \<Longrightarrow> read_field s = plain_field s"
  by (cases s) auto

lemma read_write_field: "field_end r \<Longrightarrow> read_field (write_field f @ r) = Some (f, r)"
proof (cases "field_needs_quotes f")
  case True
  assume "field_end r"
  with True show ?thesis by (simp add: write_field_def quoted_field_body)
next
  case False
  assume r: "field_end r"
  from False have clean: "\<forall>c \<in> set f. c \<noteq> Comma \<and> c \<noteq> LF \<and> c \<noteq> DQ"
    by (auto simp: field_needs_quotes_def list_ex_iff)
  then have "f @ r = [] \<or> hd (f @ r) \<noteq> DQ" using r by (cases f; cases r) auto
  then have "read_field (f @ r) = plain_field (f @ r)" by (rule read_field_plain)
  with False plain_field_text [OF clean r] show ?thesis by (simp add: write_field_def)
qed

lemma read_write_record: "fs \<noteq> [] \<Longrightarrow> read_record (write_record fs @ r) = Some (fs, r)"
proof (induction fs rule: write_fields.induct)
  case (2 f)
  have "read_field (write_field f @ LF # r) = Some (f, LF # r)" by (rule read_write_field) simp
  then show ?case by (simp add: write_record_def read_record.simps [of "write_field f @ LF # r"])
next
  case (3 f g gs)
  let ?rest = "write_fields (g # gs) @ LF # r"
  have "read_field (write_field f @ Comma # ?rest) = Some (f, Comma # ?rest)"
    by (rule read_write_field) simp
  moreover have "read_record ?rest = Some (g # gs, r)" using 3 by (simp add: write_record_def)
  ultimately show ?case
    by (simp add: write_record_def read_record.simps [of "write_field f @ Comma # ?rest"])
qed simp

text \<open>A record of two fields or more is not written as an empty line.\<close>

lemma write_record_start:
  assumes "2 \<le> length fs"
  shows "\<exists>c t. write_record fs = c # t \<and> c \<noteq> LF"
proof -
  from assms obtain f g gs where fs: "fs = f # g # gs" by (cases fs rule: write_fields.cases) auto
  show ?thesis
  proof (cases "field_needs_quotes f")
    case True
    with fs show ?thesis by (simp add: write_record_def write_field_def)
  next
    case False
    with fs show ?thesis
      by (cases f) (auto simp: write_record_def write_field_def field_needs_quotes_def)
  qed
qed

lemma read_records_record:
  assumes "read_record s = Some (fs, r)" "s = c # t" "c \<noteq> LF"
  shows "read_records s = map_option ((#) fs) (read_records r)"
  using assms by simp

lemma read_write_records:
  "\<forall>fs \<in> set recs. 2 \<le> length fs \<Longrightarrow> read_records (concat (map write_record recs)) = Some recs"
proof (induction recs)
  case (Cons fs recs)
  let ?r = "concat (map write_record recs)"
  from Cons.prems have "2 \<le> length fs" by simp
  then obtain c t where "write_record fs = c # t" "c \<noteq> LF" using write_record_start by blast
  moreover have "fs \<noteq> []" using \<open>2 \<le> length fs\<close> by auto
  ultimately have "read_records (write_record fs @ ?r) = map_option ((#) fs) (read_records ?r)"
    by (intro read_records_record [where c = c and t = "t @ ?r"] read_write_record) simp_all
  with Cons show ?case by simp
qed simp

text \<open>What the reader makes of the line ends within a field.\<close>

fun crlf :: "string \<Rightarrow> string" where
  "crlf [] = []"
| "crlf [c] = [c]"
| "crlf (c # d # s) = (if c = CR \<and> d = LF then crlf (d # s) else c # crlf (d # s))"

lemma crlf_id: "CR \<notin> set f \<Longrightarrow> crlf f = f"
  by (induction f rule: crlf.induct) auto

lemma normalize_text: "c \<noteq> LF \<Longrightarrow> normalize (f @ c # r) = crlf f @ normalize (c # r)"
  by (induction f rule: crlf.induct) auto

lemma normalize_plain: "CR \<notin> set f \<Longrightarrow> normalize (f @ r) = f @ normalize r"
proof (induction f)
  case (Cons c f)
  then show ?case by (cases "f @ r") auto
qed simp

lemma normalize_char: "c \<noteq> CR \<Longrightarrow> normalize (c # r) = c # normalize r"
  by (cases r) simp_all

lemma crlf_char: "c \<noteq> CR \<Longrightarrow> crlf (c # s) = c # crlf s"
  by (cases s) simp_all

lemma crlf_quote_body: "crlf (quote_body f) = quote_body (crlf f)"
proof (induction f rule: crlf.induct)
  case (2 c)
  then show ?case by (simp add: crlf_char)
next
  case (3 c d s)
  show ?case
  proof (cases "c = CR")
    case True
    with 3 show ?thesis by (cases "d = DQ") (auto simp: crlf_char)
  next
    case False
    then have "crlf (quote_body (c # d # s)) = (if c = DQ then [DQ, DQ] else [c]) @ crlf (quote_body (d # s))"
      by (simp add: crlf_char)
    with 3 False show ?thesis by simp
  qed
qed simp

lemma crlf_quotes: "field_needs_quotes f \<Longrightarrow> CR \<in> set f \<Longrightarrow> field_needs_quotes (crlf f)"
proof -
  have "CR \<in> set f \<Longrightarrow> CR \<in> set (crlf f) \<or> LF \<in> set (crlf f)"
    by (induction f rule: crlf.induct) (auto simp: crlf_char)
  then show "field_needs_quotes f \<Longrightarrow> CR \<in> set f \<Longrightarrow> field_needs_quotes (crlf f)"
    by (auto simp: field_needs_quotes_def list_ex_iff)
qed

lemma normalize_field:
  assumes "c = Comma \<or> c = LF"
  shows "normalize (write_field f @ c # r) = write_field (crlf f) @ c # normalize r"
proof (cases "CR \<in> set f")
  case True
  then have "f \<noteq> []" "field_needs_quotes f" by (auto simp: field_needs_quotes_def list_ex_iff)
  with crlf_quotes [OF _ True] assms show ?thesis
    by (auto simp: write_field_def normalize_char normalize_text crlf_quote_body)
next
  case False
  then have "CR \<notin> set (quote_body f)" by (induction f) auto
  with False assms show ?thesis
    by (auto simp: write_field_def normalize_char normalize_plain crlf_id)
qed

lemma normalize_record:
  "fs \<noteq> [] \<Longrightarrow> normalize (write_record fs @ r) = write_record (map crlf fs) @ normalize r"
  by (induction fs rule: write_fields.induct) (simp_all add: write_record_def normalize_field)

lemma read_all_written:
  assumes "\<forall>fs \<in> set recs. 2 \<le> length fs \<and> length fs = n"
  shows "ReadAll (concat (map write_record recs)) = Some (map (map crlf) recs)"
proof -
  have "normalize (concat (map write_record recs)) = concat (map write_record (map (map crlf) recs))"
    using assms
  proof (induction recs)
    case (Cons fs recs)
    then have "fs \<noteq> []" by auto
    with Cons show ?case by (simp add: normalize_record)
  qed simp
  moreover have "read_records (concat (map write_record (map (map crlf) recs))) = Some (map (map crlf) recs)"
    using assms by (intro read_write_records) auto
  moreover have "list_all (\<lambda>fs. length fs = length (hd (map (map crlf) recs))) (map (map crlf) recs)"
    using assms by (cases recs) (auto simp: list_all_iff)
  ultimately show ?thesis by (simp add: ReadAll_def)
qed

section \<open>Texts that survive\<close>

text \<open>
  Texts without outer blanks and carriage returns are unchanged by a round trip. Numbers and
  times are such texts: all their characters are visible.
\<close>

definition clean_text :: "string \<Rightarrow> bool" where
  "clean_text s \<longleftrightarrow> trim_space s = s \<and> CR \<notin> set s"

definition visible :: "string \<Rightarrow> bool" where
  "visible s \<longleftrightarrow> (\<forall>c \<in> set s. 33 \<le> code c)"

lemma visible_simps [simp]:
  "visible []" "visible (c # s) \<longleftrightarrow> 33 \<le> code c \<and> visible s"
  "visible (s @ t) \<longleftrightarrow> visible s \<and> visible t"
  by (auto simp: visible_def)

lemma visible_clean: "visible s \<Longrightarrow> clean_text s"
proof -
  assume v: "visible s"
  then have sp: "\<forall>c \<in> set s. \<not> is_space c" by (auto simp: visible_def is_space_def)
  have drop: "dropWhile is_space t = t" if "\<forall>c \<in> set t. \<not> is_space c" for t
    using that by (cases t) auto
  have "code CR = 13" by (simp add: code_def)
  then have "CR \<notin> set s" using v by (auto simp: visible_def)
  moreover have "trim_space s = s" using sp by (simp add: trim_space_def drop)
  ultimately show ?thesis by (simp add: clean_text_def)
qed

lemma visible_nat_digits [simp]: "visible (nat_digits n)"
  using nat_digits_digits [of _ n] by (fastforce simp: visible_def)

lemma visible_marks [simp]:
  "33 \<le> code (CHR ''-'')" "33 \<le> code (CHR '':'')" "33 \<le> code (CHR ''T'')" "33 \<le> code (CHR ''Z'')"
  "33 \<le> code (CHR ''0'')"
  by (simp_all add: code_def)

lemma visible_itoa [simp]: "visible (itoa i)"
  by (simp add: itoa_def)

lemma visible_append_int [simp]: "visible (append_int w i)"
proof -
  have "visible (pad_digits w n)" for n by (simp add: pad_digits_def Let_def) (simp add: visible_def)
  then show ?thesis by (simp add: append_int_def)
qed

lemma visible_format_rfc3339 [simp]: "visible (format_rfc3339 t)"
  by (simp add: format_rfc3339_def format_date_def format_clock_def Let_def split: prod.split)

lemma format_rfc3339_nonempty [simp]: "format_rfc3339 t \<noteq> []"
  by (simp add: format_rfc3339_def)

text \<open>
  The reservations an exported file can carry, and what comes back of them: of a text its line
  ends as \<open>\n\<close>, without outer blanks.
\<close>

definition int64 :: "int \<Rightarrow> bool" where
  "int64 i \<longleftrightarrow> - (2 ^ 63) \<le> i \<and> i < 2 ^ 63"

definition carriable :: "reservation \<Rightarrow> bool" where
  "carriable r \<longleftrightarrow>
     int64 (Quantity r) \<and> int64 (UsedCount r) \<and>
     four_digit_year (StartTime r) \<and> four_digit_year (EndTime r)"

definition read_text :: "string \<Rightarrow> string" where
  "read_text s = trim_space (crlf s)"

definition read_back :: "reservation \<Rightarrow> reservation" where
  "read_back r =
     r\<lparr>ID := canonical_id (read_text (AccountID r)) (read_text (Region r)) (read_text (ResourceID r)),
       AccountAlias := read_text (AccountAlias r), AccountID := read_text (AccountID r),
       Region := read_text (Region r), RType := read_text (RType r), ResourceID := read_text (ResourceID r),
       InstanceType := read_text (InstanceType r), Platform := read_text (Platform r),
       StartTime := truncate_second (StartTime r), EndTime := truncate_second (EndTime r),
       Status := read_text (Status r), Description := read_text (Description r),
       HourlyRate := 0, EquivCores := 0, CapacityUnit := [], UpdatedAt := 0\<rparr>"

text \<open>The reservations whose texts come back as they were, as those of AWS do.\<close>

definition exportable :: "reservation \<Rightarrow> bool" where
  "exportable r \<longleftrightarrow>
     list_all clean_text
       [AccountAlias r, AccountID r, Region r, RType r, ResourceID r, InstanceType r, Platform r,
        Status r, Description r] \<and> carriable r"

definition reimported :: "reservation \<Rightarrow> reservation" where
  "reimported r =
     r\<lparr>ID := canonical_id (AccountID r) (Region r) (ResourceID r),
       StartTime := truncate_second (StartTime r), EndTime := truncate_second (EndTime r),
       HourlyRate := 0, EquivCores := 0, CapacityUnit := [], UpdatedAt := 0\<rparr>"

lemma read_text_clean: "clean_text s \<Longrightarrow> read_text s = s"
  by (simp add: clean_text_def read_text_def crlf_id)

lemma read_back_exportable: "exportable r \<Longrightarrow> carriable r \<and> read_back r = reimported r"
  by (simp add: exportable_def read_back_def reimported_def read_text_clean)

lemma import_count_itoa: "int64 i \<Longrightarrow> import_count d (itoa i) = i"
  by (simp add: import_count_def int64_def atoi_itoa)

lemma import_time_format: "four_digit_year t \<Longrightarrow> import_time (format_rfc3339 t) = truncate_second t"
  by (simp add: import_time_def parse_rfc3339_format_rfc3339)

lemma read_visible: "read_text (itoa i) = itoa i" "read_text (format_rfc3339 t) = format_rfc3339 t"
  using visible_clean [OF visible_itoa] visible_clean [OF visible_format_rfc3339]
  by (simp_all add: read_text_clean)

section \<open>Columns\<close>

lemma trim_headers: "map trim_space headers = headers"
  by code_simp

text \<open>The columns by position, whatever name the first one has.\<close>

definition header_row :: "string \<Rightarrow> string list" where
  "header_row h = h # tl headers"

lemma column_positions:
  assumes "trim_space h \<notin> set (tl headers)"
  defines "m \<equiv> col_loop Map.empty 0 (header_row h)"
  shows "m ''account_alias'' = (if trim_space h = ''account_alias'' then Some 0 else None)"
    "m ''account_id'' = Some 1" "m ''region'' = Some 2" "m ''type'' = Some 3"
    "m ''resource_id'' = Some 4" "m ''instance_type'' = Some 5" "m ''platform'' = Some 6"
    "m ''quantity'' = Some 7" "m ''used_count'' = Some 8" "m ''start_time'' = Some 9"
    "m ''end_time'' = Some 10" "m ''status'' = Some 11" "m ''description'' = Some 12"
  using assms(1) trim_headers by (simp_all add: m_def header_row_def headers_def)

text \<open>The alias is lost when the first column has another name.\<close>

definition aliased :: "string \<Rightarrow> reservation \<Rightarrow> reservation" where
  "aliased h r = r\<lparr>AccountAlias := (if trim_space h = ''account_alias'' then AccountAlias r else [])\<rparr>"

lemma has_ids_aliased [simp]: "has_ids (aliased h r) = has_ids r"
  by (simp add: has_ids_def aliased_def)

lemma import_export_row:
  assumes "carriable r" "trim_space h \<notin> set (tl headers)"
  shows "import_row (col_loop Map.empty 0 (header_row h)) (map crlf (export_row r)) = aliased h (read_back r)"
proof -
  define m where "m = col_loop Map.empty 0 (header_row h)"
  note cols = column_positions [OF assms(2), folded m_def]
  have "itoa i \<noteq> []" for i by (simp add: itoa_def)
  then show ?thesis
    using assms(1) unfolding m_def [symmetric] carriable_def
    by (simp add: import_row_def getCol_def cols export_row_def read_text_def [symmetric] read_visible
        import_count_itoa import_time_format read_back_def aliased_def zero_reservation_def)
qed

section \<open>Import after export\<close>

lemma export_row_fields: "length (export_row r) = 13"
  by (simp add: export_row_def)

lemma header_fields: "length (header_row h) = 13"
  by (simp add: header_row_def headers_def)

lemma header_read: "CR \<notin> set h \<Longrightarrow> map crlf (header_row h) = header_row h"
proof -
  have "map crlf (tl headers) = tl headers" by code_simp
  then show "CR \<notin> set h \<Longrightarrow> map crlf (header_row h) = header_row h"
    by (simp add: header_row_def crlf_id)
qed

text \<open>A file whose header row starts with \<open>h\<close> and whose other rows are exported ones.\<close>

lemma import_file:
  assumes rows: "\<forall>r \<in> set rows. carriable r"
    and h: "trim_space h \<notin> set (tl headers)" "CR \<notin> set h"
  shows "Import (concat (map write_record (header_row h # map export_row rows))) =
    Some (map (aliased h) (filter has_ids (map read_back rows)))"
proof -
  let ?recs = "header_row h # map export_row rows"
  let ?read = "header_row h # map (map crlf) (map export_row rows)"
  have "ReadAll (concat (map write_record ?recs)) = Some (map (map crlf) ?recs)"
    by (intro read_all_written [where n = 13]) (auto simp: export_row_fields header_fields)
  then have read: "ReadAll (concat (map write_record ?recs)) = Some ?read"
    by (simp only: list.map header_read [OF h(2)])
  have "map (import_row (col_loop Map.empty 0 (header_row h))) (map (map crlf) (map export_row rows)) =
      map (aliased h) (map read_back rows)"
    using rows h(1) by (simp add: import_export_row)
  then have kept: "filter has_ids
      (map (import_row (col_loop Map.empty 0 (hd ?read))) (tl ?read)) =
      map (aliased h) (filter has_ids (map read_back rows))"
    by (simp only: list.sel) (simp add: filter_map comp_def)
  have "Import (concat (map write_record ?recs)) =
      (if length ?read < 2 then Some [] else Some (map (aliased h) (filter has_ids (map read_back rows))))"
    by (simp only: Import_def read option.case kept)
  then show ?thesis by (cases rows) simp_all
qed

definition utf8_bom :: string where
  "utf8_bom = [CHR 0xEF, CHR 0xBB, CHR 0xBF]"

lemma header_marks:
  "trim_space ''account_alias'' = ''account_alias''"
  "trim_space (utf8_bom @ ''account_alias'') = utf8_bom @ ''account_alias''"
  "utf8_bom @ ''account_alias'' \<noteq> ''account_alias''"
  "utf8_bom @ ''account_alias'' \<notin> set (tl headers)"
  "''account_alias'' \<notin> set (tl headers)" "CR \<notin> set (utf8_bom @ ''account_alias'')"
  by code_simp+


lemma exported_text_bom:
  "utf8_bom @ Export rows =
   concat (map write_record (header_row (utf8_bom @ ''account_alias'') # map export_row rows))"
proof -
  have "utf8_bom @ write_record headers = write_record (header_row (utf8_bom @ ''account_alias''))"
    by code_simp
  then show ?thesis by (simp add: Export_def)
qed


definition sample_row :: reservation where
  "sample_row =
     zero_reservation\<lparr>ID := ''1_eu_r'', AccountAlias := ''prod, \"main\"'', AccountID := ''1'',
       Region := ''eu'', ResourceID := ''r'', Quantity := - 3, Description := ''a'' @ [LF] @ ''b'',
       HourlyRate := 2\<rparr>"

lemma exportable_sample: "exportable sample_row"
  by code_simp


lemma import_exported_file:
  assumes "\<forall>r \<in> set rows. exportable r"
  shows "Import (utf8_bom @ Export rows) =
    Some (map (\<lambda>r. (reimported r)\<lparr>AccountAlias := []\<rparr>) (filter has_ids rows))"
proof -
  have carry: "\<forall>r \<in> set rows. carriable r" and same: "map read_back rows = map reimported rows"
    using assms read_back_exportable by simp_all
  have "aliased (utf8_bom @ ''account_alias'') r = r\<lparr>AccountAlias := []\<rparr>" for r
    by (simp only: aliased_def header_marks if_False)
  moreover have "has_ids (reimported r) = has_ids r" for r by (simp add: has_ids_def reimported_def)
  ultimately show ?thesis
    using import_file [OF carry, of "utf8_bom @ ''account_alias''"] header_marks(2,4,6)
    by (simp add: exported_text_bom same filter_map comp_def del: append.simps)
qed

text \<open>
  The file the dashboard downloads starts with a byte order mark, which \<open>Import\<close> takes for a
  part of the first column's name: reading the file back gives every reservation an empty
  account alias.
\<close>

theorem exported_file_loses_alias:
  assumes "\<forall>r \<in> set rows. exportable r"
  shows "Import (utf8_bom @ Export rows) =
    Some (map (\<lambda>r. (reimported r)\<lparr>AccountAlias := []\<rparr>) (filter has_ids rows))"
  by (rule import_exported_file [OF assms])

lemma exported_file_loses_alias_witness:
  "Import (utf8_bom @ Export [sample_row]) = Some [sample_row\<lparr>AccountAlias := [], HourlyRate := 0\<rparr>]"
proof -
  have "has_ids sample_row"
    "(reimported sample_row)\<lparr>AccountAlias := []\<rparr> = sample_row\<lparr>AccountAlias := [], HourlyRate := 0\<rparr>"
    by code_simp+
  then show ?thesis
    using exported_file_loses_alias [of "[sample_row]"] exportable_sample by simp
qed

end
