(* ===== verification/Provider.thy ===== *)
theory Provider
  imports Capacity Csv
begin

text \<open>
  The fetchers of \<^verbatim>\<open>provider/aws.go\<close>, \<^verbatim>\<open>provider/aws_database.go\<close>, \<^verbatim>\<open>provider/aws_bedrock.go\<close> and
  the fetching half of \<^verbatim>\<open>provider/gpu_coverage.go\<close>. The AWS services are arguments: an operation
  that answers in pages is a function from the page token to a page or an error. A pointer field
  is an option where the code tells nil from a value, otherwise what \<open>aws.ToString\<close>,
  \<open>aws.ToInt32\<close> and the like make of it. An account is fetched as of one moment: the answers do
  not change during it. Credentials and logging are left out, and of the text of an error the cause is.
\<close>

section \<open>Pages\<close>

record 'a page =
  pgItems :: "'a list"
  pgNext :: "string option"

type_synonym 'a api_call = "string option \<Rightarrow> string + 'a page"

text \<open>
  The loop over the pages: the items so far and the error, if any. It goes on as long as AWS hands
  out tokens; \<open>None\<close> is a loop that does not end.
\<close>

partial_function (option) fetch_pages ::
  "'a api_call \<Rightarrow> string option \<Rightarrow> 'a list \<Rightarrow> ('a list \<times> string option) option" where
  "fetch_pages api tok acc =
     (case api tok of
        Inl e \<Rightarrow> Some (acc, Some e)
      | Inr p \<Rightarrow>
          (case pgNext p of
             None \<Rightarrow> Some (acc @ pgItems p, None)
           | Some t \<Rightarrow> fetch_pages api (Some t) (acc @ pgItems p)))"

text \<open>All the items, or the error; what was fetched before it is dropped.\<close>

definition fetch_all :: "'a api_call \<Rightarrow> (string + 'a list) option" where
  "fetch_all api =
     (case fetch_pages api None [] of
        None \<Rightarrow> None
      | Some (items, Some e) \<Rightarrow> Some (Inl e)
      | Some (items, None) \<Rightarrow> Some (Inr items))"

section \<open>What AWS reports\<close>

record aws_plan =
  apID :: string
  apType :: string
  apState :: string
  apRegion :: string
  apFamily :: string
  apPayment :: string
  apCommitment :: string
  apStart :: "string option"
  apEnd :: "string option"

record aws_rate =
  awUsage :: string
  awTypes :: "string list"
  awRate :: string

record aws_capacity =
  acrID :: string
  acrBlock :: bool
  acrType :: string
  acrPlatform :: string
  acrState :: string
  acrZone :: string
  acrStart :: gotime
  acrEnd :: gotime
  acrTotal :: int
  acrAvailable :: int
  acrTags :: "(string \<times> string) list"

record aws_ri =
  arID :: string
  arType :: string
  arProduct :: string
  arCount :: int
  arStart :: gotime
  arEnd :: gotime
  arState :: string
  arOffering :: string
  arClass :: string

text \<open>The reserved nodes of the database services. The duration is in seconds.\<close>

record aws_node =
  anID :: string
  anType :: string
  anProduct :: string
  anCount :: int
  anStart :: gotime
  anDuration :: int
  anMultiAZ :: bool
  anState :: string
  anOffering :: string

record aws_throughput =
  atArn :: string
  atName :: string
  atUnits :: int
  atCreated :: gotime
  atExpires :: "gotime option"
  atStatus :: string
  atDuration :: string

record aws_instance =
  aiID :: string
  aiType :: string
  aiZone :: string
  aiWindows :: bool
  aiReservation :: string

section \<open>Savings plans\<close>

definition usable_rate :: "aws_rate \<Rightarrow> (string \<times> float64) option" where
  "usable_rate r =
     (if \<not> contains (awUsage r) ''BoxUsage'' \<or> contains (awUsage r) ''UnusedBox'' \<or>
         contains (awUsage r) ''UnusedDed'' then None
      else case awTypes r of
             [] \<Rightarrow> None
           | t # _ \<Rightarrow> if t = [] then None
                      else (case parseFloat (awRate r) of None \<Rightarrow> None | Some x \<Rightarrow> Some (t, x)))"

text \<open>A later rate of the same type replaces an earlier one.\<close>

fun rate_loop :: "aws_rate list \<Rightarrow> rate_table \<Rightarrow> rate_table" where
  "rate_loop [] rates = rates"
| "rate_loop (r # rs) rates =
     rate_loop rs
       (case usable_rate r of
          None \<Rightarrow> rates
        | Some (t, x) \<Rightarrow> upsert_key fst (\<lambda>_ new. new) (t, x) rates)"

definition fetchSPRates :: "aws_rate api_call \<Rightarrow> (string + rate_table) option" where
  "fetchSPRates api = map_option (map_sum id (\<lambda>rs. rate_loop rs [])) (fetch_all api)"

definition base_row :: "account \<Rightarrow> string \<Rightarrow> string \<Rightarrow> string \<Rightarrow> reservation" where
  "base_row acct region type resId =
     zero_reservation
       \<lparr>ID := canonical_id (acAccountID acct) region resId, AccountAlias := acAlias acct,
        AccountID := acAccountID acct, Region := region, RType := type, ResourceID := resId\<rparr>"

text \<open>The end of a plan: none is the zero time, an unreadable one an error.\<close>

definition plan_end :: "aws_plan \<Rightarrow> gotime option" where
  "plan_end p = (case apEnd p of None \<Rightarrow> Some 0 | Some s \<Rightarrow> parse_rfc3339 s)"

definition plan_start :: "aws_plan \<Rightarrow> gotime" where
  "plan_start p =
     (case apStart p of
        None \<Rightarrow> 0
      | Some s \<Rightarrow> (case parse_rfc3339 s of None \<Rightarrow> 0 | Some t \<Rightarrow> t))"

text \<open>The order in which the rate table is ranged over is the parameter \<open>ord\<close>.\<close>

definition plan_row ::
  "overrides \<Rightarrow> (rate_table \<Rightarrow> rate_table) \<Rightarrow> account \<Rightarrow> rate_table \<Rightarrow> gotime \<Rightarrow> aws_plan \<Rightarrow> reservation" where
  "plan_row ov ord acct rates endTime p =
     (let region = (if apRegion p = [] then ''global'' else apRegion p)
      in case normalizeSPRate ov (apType p) (ord rates) (apCommitment p) of
           (unitRate, capacity, u) \<Rightarrow>
             (base_row acct region TypeSP (apID p))
               \<lparr>InstanceType := apFamily p, Platform := apType p, Quantity := 1,
                StartTime := plan_start p, EndTime := endTime, Status := apState p,
                Description := apType p @ '' - '' @ apPayment p,
                HourlyRate := unitRate, EquivCores := capacity, CapacityUnit := unit_string u\<rparr>)"

text \<open>The rates of a plan: none unless it is active, and none when they cannot be fetched.\<close>

definition plan_rates :: "(string \<Rightarrow> aws_rate api_call) \<Rightarrow> aws_plan \<Rightarrow> rate_table option" where
  "plan_rates rate_api p =
     (if apState p = ''active''
      then map_option (\<lambda>r. case r of Inl e \<Rightarrow> [] | Inr rates \<Rightarrow> rates) (fetchSPRates (rate_api (apID p)))
      else Some [])"

fun plan_loop ::
  "overrides \<Rightarrow> (rate_table \<Rightarrow> rate_table) \<Rightarrow> (string \<Rightarrow> aws_rate api_call) \<Rightarrow> account \<Rightarrow> aws_plan list \<Rightarrow>
   (reservation list \<times> string list) option" where
  "plan_loop ov ord rate_api acct [] = Some ([], [])"
| "plan_loop ov ord rate_api acct (p # ps) =
     (case plan_end p of
        None \<Rightarrow>
          do {
            (rows, errs) \<leftarrow> plan_loop ov ord rate_api acct ps;
            Some (rows, (''SP '' @ apID p @ '': unparseable end time'') # errs)
          }
      | Some endTime \<Rightarrow>
          do {
            rates \<leftarrow> plan_rates rate_api p;
            (rows, errs) \<leftarrow> plan_loop ov ord rate_api acct ps;
            Some (plan_row ov ord acct rates endTime p # rows, errs)
          })"

definition fetchSavingsPlans ::
  "overrides \<Rightarrow> (rate_table \<Rightarrow> rate_table) \<Rightarrow> aws_plan api_call \<Rightarrow> (string \<Rightarrow> aws_rate api_call) \<Rightarrow> account \<Rightarrow>
   (reservation list \<times> string list) option" where
  "fetchSavingsPlans ov ord plan_api rate_api acct =
     do {
       (plans, err) \<leftarrow> fetch_pages plan_api None [];
       (rows, errs) \<leftarrow> plan_loop ov ord rate_api acct plans;
       Some (rows, errs @ (case err of None \<Rightarrow> [] | Some e \<Rightarrow> [e]))
     }"

section \<open>Capacity reservations and reserved instances\<close>

definition requested_tag :: string where
  "requested_tag = ''aws:ec2capacityreservation:incrementalRequestedQuantity''"

text \<open>
  The total and the used count. A reservation that is not active yet has no instances; what was asked for
  is in a tag.
\<close>

definition acr_counts :: "aws_capacity \<Rightarrow> int \<times> int" where
  "acr_counts c =
     (let used = acrTotal c - acrAvailable c in
      if acrTotal c \<noteq> 0 then (acrTotal c, used)
      else case map_of (acrTags c) requested_tag of
             None \<Rightarrow> (0, used)
           | Some v \<Rightarrow> (case atoi v of
                 Some n \<Rightarrow> if n > 0 then (n, 0) else (0, used)
               | None \<Rightarrow> (0, used)))"

definition block_capacity :: "overrides \<Rightarrow> string \<Rightarrow> int \<Rightarrow> float64 \<times> capacity_unit" where
  "block_capacity ov t n =
     (if GPUCardCount ov t > 0 then (of_int (n * GPUCardCount ov t), CapacityCards)
      else if vCPUCount t > 0 then (of_int (n * vCPUCount t), CapacityCores)
      else (0, CapacityUnknown))"

definition capacity_row :: "overrides \<Rightarrow> account \<Rightarrow> string \<Rightarrow> aws_capacity \<Rightarrow> reservation" where
  "capacity_row ov acct region c =
     (case acr_counts c of (n, used) \<Rightarrow>
        (let r = (base_row acct region (if acrBlock c then TypeCB else TypeODCR) (acrID c))
               \<lparr>InstanceType := acrType c, Platform := acrPlatform c, Quantity := n, UsedCount := used,
                StartTime := acrStart c, EndTime := acrEnd c, Status := acrState c,
                Description := (if acrBlock c then ''Capacity Block - '' else ''ODCR - '') @ acrZone c\<rparr>
         in if acrBlock c
            then (case block_capacity ov (acrType c) n of
                    (capacity, u) \<Rightarrow> r\<lparr>EquivCores := capacity, CapacityUnit := unit_string u\<rparr>)
            else r))"

text \<open>The capacity blocks, then the others.\<close>

definition fetchCapacityReservations ::
  "overrides \<Rightarrow> aws_capacity api_call \<Rightarrow> account \<Rightarrow> string \<Rightarrow> (string + reservation list) option" where
  "fetchCapacityReservations ov api acct region =
     map_option (map_sum id (\<lambda>crs. map (capacity_row ov acct region)
       (filter acrBlock crs @ filter (\<lambda>c. \<not> acrBlock c) crs))) (fetch_all api)"

definition ri_row :: "account \<Rightarrow> string \<Rightarrow> aws_ri \<Rightarrow> reservation" where
  "ri_row acct region r =
     (base_row acct region TypeRI (arID r))
       \<lparr>InstanceType := arType r, Platform := arProduct r, Quantity := arCount r, StartTime := arStart r,
        EndTime := arEnd r, Status := arState r,
        Description := ''RI - '' @ arOffering r @ '' '' @ arClass r\<rparr>"

definition fetchReservedInstances ::
  "string + aws_ri list \<Rightarrow> account \<Rightarrow> string \<Rightarrow> string + reservation list" where
  "fetchReservedInstances answer acct region = map_sum id (map (ri_row acct region)) answer"

section \<open>Database services and Bedrock\<close>

definition node_row :: "account \<Rightarrow> string \<Rightarrow> string \<Rightarrow> string \<Rightarrow> string \<Rightarrow> aws_node \<Rightarrow> reservation" where
  "node_row acct region type platform desc n =
     (base_row acct region type (anID n))
       \<lparr>InstanceType := anType n, Platform := platform, Quantity := anCount n, StartTime := anStart n,
        EndTime := anStart n + anDuration n * nano, Status := anState n, Description := desc\<rparr>"

type_synonym fetcher = "aws_node api_call \<Rightarrow> account \<Rightarrow> string \<Rightarrow> (string + reservation list) option"

definition fetch_nodes :: "(account \<Rightarrow> string \<Rightarrow> aws_node \<Rightarrow> reservation) \<Rightarrow> fetcher" where
  "fetch_nodes row api acct region = map_option (map_sum id (map (row acct region))) (fetch_all api)"

definition rds_row :: "account \<Rightarrow> string \<Rightarrow> aws_node \<Rightarrow> reservation" where
  "rds_row acct region n =
     node_row acct region TypeRDSRI (anProduct n)
       (''RDS RI - '' @ anOffering n @ (if anMultiAZ n then '' (MultiAZ)'' else [])) n"

definition cache_row :: "account \<Rightarrow> string \<Rightarrow> aws_node \<Rightarrow> reservation" where
  "cache_row acct region n =
     node_row acct region TypeCacheRI (anProduct n) (''ElastiCache RI - '' @ anOffering n) n"

definition redshift_row :: "account \<Rightarrow> string \<Rightarrow> aws_node \<Rightarrow> reservation" where
  "redshift_row acct region n =
     node_row acct region TypeRedshiftRI ''Redshift'' (''Redshift RI - '' @ anOffering n) n"

definition opensearch_row :: "account \<Rightarrow> string \<Rightarrow> aws_node \<Rightarrow> reservation" where
  "opensearch_row acct region n =
     node_row acct region TypeOpenSearchRI ''OpenSearch'' (''OpenSearch RI - '' @ anOffering n) n"

definition memorydb_row :: "account \<Rightarrow> string \<Rightarrow> aws_node \<Rightarrow> reservation" where
  "memorydb_row acct region n =
     node_row acct region TypeMemoryDBRI ''MemoryDB'' (''MemoryDB RI - '' @ anOffering n) n"

definition fetchRDSReservedInstances :: fetcher where
  "fetchRDSReservedInstances = fetch_nodes rds_row"

definition fetchElastiCacheReservedNodes :: fetcher where
  "fetchElastiCacheReservedNodes = fetch_nodes cache_row"

definition fetchRedshiftReservedNodes :: fetcher where
  "fetchRedshiftReservedNodes = fetch_nodes redshift_row"

definition fetchOpenSearchReservedInstances :: fetcher where
  "fetchOpenSearchReservedInstances = fetch_nodes opensearch_row"

definition fetchMemoryDBReservedNodes :: fetcher where
  "fetchMemoryDBReservedNodes = fetch_nodes memorydb_row"

definition throughput_row :: "account \<Rightarrow> string \<Rightarrow> aws_throughput \<Rightarrow> gotime \<Rightarrow> reservation" where
  "throughput_row acct region t expires =
     (base_row acct region TypeBedrockPT (atArn t))
       \<lparr>InstanceType := atName t, Platform := ''Bedrock'', Quantity := atUnits t,
        StartTime := atCreated t, EndTime := expires, Status := atStatus t,
        Description := ''Bedrock PT - '' @ itoa (atUnits t) @ '' MU '' @ atDuration t\<rparr>"

text \<open>Throughputs without a commitment are skipped.\<close>

fun throughput_loop :: "account \<Rightarrow> string \<Rightarrow> aws_throughput list \<Rightarrow> reservation list" where
  "throughput_loop acct region [] = []"
| "throughput_loop acct region (t # ts) =
     (case atExpires t of
        None \<Rightarrow> throughput_loop acct region ts
      | Some e \<Rightarrow> throughput_row acct region t e # throughput_loop acct region ts)"

definition fetchBedrockProvisionedThroughputs ::
  "aws_throughput api_call \<Rightarrow> account \<Rightarrow> string \<Rightarrow> (string + reservation list) option" where
  "fetchBedrockProvisionedThroughputs api acct region =
     map_option (map_sum id (throughput_loop acct region)) (fetch_all api)"

section \<open>An account\<close>

text \<open>The answers of AWS to one account, regional ones by region.\<close>

record aws =
  awPlans :: "aws_plan api_call"
  awRates :: "string \<Rightarrow> aws_rate api_call"
  awCapacity :: "string \<Rightarrow> aws_capacity api_call"
  awRIs :: "string \<Rightarrow> string + aws_ri list"
  awRDS :: "string \<Rightarrow> aws_node api_call"
  awCache :: "string \<Rightarrow> aws_node api_call"
  awRedshift :: "string \<Rightarrow> aws_node api_call"
  awOpenSearch :: "string \<Rightarrow> aws_node api_call"
  awMemoryDB :: "string \<Rightarrow> aws_node api_call"
  awThroughputs :: "string \<Rightarrow> aws_throughput api_call"

type_synonym call = "string \<times> (string + reservation list) option"

definition optional_calls :: "aws \<Rightarrow> account \<Rightarrow> string \<Rightarrow> (string \<times> call) list" where
  "optional_calls aws acct region =
     [(TypeRDSRI, ''RDS-RI'', fetchRDSReservedInstances (awRDS aws region) acct region),
      (TypeCacheRI, ''Cache-RI'', fetchElastiCacheReservedNodes (awCache aws region) acct region),
      (TypeRedshiftRI, ''Redshift-RI'', fetchRedshiftReservedNodes (awRedshift aws region) acct region),
      (TypeOpenSearchRI, ''OpenSearch-RI'', fetchOpenSearchReservedInstances (awOpenSearch aws region) acct region),
      (TypeMemoryDBRI, ''MemoryDB-RI'', fetchMemoryDBReservedNodes (awMemoryDB aws region) acct region),
      (TypeBedrockPT, ''Bedrock-PT'', fetchBedrockProvisionedThroughputs (awThroughputs aws region) acct region)]"

definition region_calls :: "overrides \<Rightarrow> aws \<Rightarrow> account \<Rightarrow> string \<Rightarrow> call list" where
  "region_calls ov aws acct region =
     [(''CR'', fetchCapacityReservations ov (awCapacity aws region) acct region),
      (''RI'', Some (fetchReservedInstances (awRIs aws region) acct region))] @
     map snd (filter (\<lambda>c. \<not> ShouldSkip acct (fst c)) (optional_calls aws acct region))"

fun run_calls :: "string \<Rightarrow> call list \<Rightarrow> (reservation list \<times> string list) option" where
  "run_calls pre [] = Some ([], [])"
| "run_calls pre ((label, answer) # cs) =
     do {
       a \<leftarrow> answer;
       (rows, errs) \<leftarrow> run_calls pre cs;
       Some (case a of
               Inl e \<Rightarrow> (rows, (pre @ label @ '': '' @ e) # errs)
             | Inr rs \<Rightarrow> (rs @ rows, errs))
     }"

fun run_regions ::
  "overrides \<Rightarrow> aws \<Rightarrow> account \<Rightarrow> string list \<Rightarrow> (reservation list \<times> string list) option" where
  "run_regions ov aws acct [] = Some ([], [])"
| "run_regions ov aws acct (region # regions) =
     do {
       (rows, errs) \<leftarrow> run_calls (acAlias acct @ ''/'' @ region @ ''/'') (region_calls ov aws acct region);
       (rows', errs') \<leftarrow> run_regions ov aws acct regions;
       Some (rows @ rows', errs @ errs')
     }"

definition SyncAccount ::
  "overrides \<Rightarrow> (rate_table \<Rightarrow> rate_table) \<Rightarrow> aws \<Rightarrow> account \<Rightarrow> (reservation list \<times> string list) option" where
  "SyncAccount ov ord aws acct =
     (if acRegions acct = [] then Some ([], [acAlias acct @ '': no regions configured''])
      else do {
        (plans, plan_errs) \<leftarrow> fetchSavingsPlans ov ord (awPlans aws) (awRates aws) acct;
        (rows, errs) \<leftarrow> run_regions ov aws acct (acRegions acct);
        Some (plans @ rows, map (\<lambda>e. acAlias acct @ ''/SP: '' @ e) plan_errs @ errs)
      })"

section \<open>What the coverage analysis starts from\<close>

text \<open>The instances of all pages and groups; platforms other than Windows count as Linux.\<close>

definition instance_of :: "string \<Rightarrow> aws_instance \<Rightarrow> running_instance" where
  "instance_of region i =
     \<lparr>inID = aiID i, inType = aiType i, inFamily = instanceFamily (aiType i), inRegion = region,
      inAZ = aiZone i, inPlatform = (if aiWindows i then ''Windows'' else ''Linux/UNIX''),
      inCapacityReservation = aiReservation i\<rparr>"

definition fetchRunningInstances ::
  "aws_instance api_call \<Rightarrow> string \<Rightarrow> (string + running_instance list) option" where
  "fetchRunningInstances api region = map_option (map_sum id (map (instance_of region))) (fetch_all api)"

definition plan_detail :: "aws_plan \<Rightarrow> rate_table \<Rightarrow> sp_detail" where
  "plan_detail p rates =
     \<lparr>spID = apID p, spType = apType p, spFamily = apFamily p, spRegion = apRegion p,
      spCommitment = parseFloatSafe (apCommitment p), spRates = rates\<rparr>"

text \<open>A plan whose rates cannot be fetched is passed over.\<close>

fun detail_loop :: "(string \<Rightarrow> aws_rate api_call) \<Rightarrow> aws_plan list \<Rightarrow> sp_detail list option" where
  "detail_loop rate_api [] = Some []"
| "detail_loop rate_api (p # ps) =
     do {
       answer \<leftarrow> fetchSPRates (rate_api (apID p));
       details \<leftarrow> detail_loop rate_api ps;
       Some (case answer of Inl e \<Rightarrow> details | Inr rates \<Rightarrow> plan_detail p rates # details)
     }"

definition fetchActiveSPsWithRates ::
  "aws_plan api_call \<Rightarrow> (string \<Rightarrow> aws_rate api_call) \<Rightarrow> (string + sp_detail list) option" where
  "fetchActiveSPsWithRates plan_api rate_api =
     do {
       answer \<leftarrow> fetch_all plan_api;
       case answer of
         Inl e \<Rightarrow> Some (Inl e)
       | Inr plans \<Rightarrow> map_option Inr (detail_loop rate_api plans)
     }"

definition fetchActiveRIs :: "string + aws_ri list \<Rightarrow> string \<Rightarrow> string + ri_info list" where
  "fetchActiveRIs answer region =
     map_sum id (map (\<lambda>r. \<lparr>riID = arID r, riType = arType r, riRegion = region, riCount = arCount r\<rparr>)) answer"

definition fetchActiveCBIDs :: "aws_capacity api_call \<Rightarrow> (string + string list) option" where
  "fetchActiveCBIDs api =
     map_option (map_sum id (\<lambda>crs. map acrID (filter (\<lambda>c. acrBlock c \<and> acrState c = ''active'') crs)))
       (fetch_all api)"

text \<open>The answers of AWS to the analysis; the plans and the reserved instances are the active ones.\<close>

record gpu_aws =
  gwPlans :: "aws_plan api_call"
  gwRates :: "string \<Rightarrow> aws_rate api_call"
  gwInstances :: "string \<Rightarrow> aws_instance api_call"
  gwRIs :: "string \<Rightarrow> string + aws_ri list"
  gwCapacity :: "string \<Rightarrow> aws_capacity api_call"

definition answered :: "string + 'a \<Rightarrow> 'a option" where
  "answered a = (case a of Inl e \<Rightarrow> None | Inr x \<Rightarrow> Some x)"

text \<open>Where the instances cannot be listed, nothing more is asked.\<close>

definition region_answers :: "gpu_aws \<Rightarrow> string \<Rightarrow> region_answer option" where
  "region_answers aws region =
     do {
       instances \<leftarrow> fetchRunningInstances (gwInstances aws region) region;
       case instances of
         Inl e \<Rightarrow> Some \<lparr>raInstances = None, raRIs = None, raCBs = None\<rparr>
       | Inr is \<Rightarrow>
           do {
             cbs \<leftarrow> fetchActiveCBIDs (gwCapacity aws region);
             Some \<lparr>raInstances = Some is, raRIs = answered (fetchActiveRIs (gwRIs aws region) region),
                   raCBs = answered cbs\<rparr>
           }
     }"

fun all_answers :: "gpu_aws \<Rightarrow> string list \<Rightarrow> (string \<Rightarrow> region_answer) \<Rightarrow> (string \<Rightarrow> region_answer) option" where
  "all_answers aws [] f = Some f"
| "all_answers aws (region # regions) f =
     do {
       a \<leftarrow> region_answers aws region;
       all_answers aws regions (f(region := a))
     }"

definition gpu_coverage_of ::
  "sorter \<Rightarrow> gpu_aws \<Rightarrow> account \<Rightarrow> (gpu_coverage list \<times> string list) option" where
  "gpu_coverage_of srt aws acct =
     do {
       plans \<leftarrow> (if acRegions acct = [] then Some (Inr []) else fetchActiveSPsWithRates (gwPlans aws) (gwRates aws));
       answers \<leftarrow> all_answers aws (acRegions acct) (\<lambda>_. \<lparr>raInstances = None, raRIs = None, raCBs = None\<rparr>);
       Some (CheckGPUCoverage srt (answered plans) answers acct)
     }"

section \<open>Paging\<close>

text \<open>The pages from a token on to the last, when AWS hands them out without an error.\<close>

inductive pages :: "'a api_call \<Rightarrow> string option \<Rightarrow> 'a list \<Rightarrow> bool" for api where
  last: "api tok = Inr p \<Longrightarrow> pgNext p = None \<Longrightarrow> pages api tok (pgItems p)"
| more: "api tok = Inr p \<Longrightarrow> pgNext p = Some t \<Longrightarrow> pages api (Some t) items \<Longrightarrow>
    pages api tok (pgItems p @ items)"

lemma fetch_pages_complete: "pages api tok items \<Longrightarrow> fetch_pages api tok acc = Some (acc @ items, None)"
proof (induction arbitrary: acc rule: pages.induct)
  case (last tok p)
  then show ?case by (subst fetch_pages.simps) simp
next
  case (more tok p t items)
  then show ?case by (subst fetch_pages.simps) simp
qed

lemma fetch_pages_sound:
  assumes "fetch_pages api tok acc = Some res"
  shows "snd res = None \<longrightarrow> (\<exists>items. fst res = acc @ items \<and> pages api tok items)"
proof (rule fetch_pages.raw_induct [where P = "\<lambda>api tok acc res.
      snd res = None \<longrightarrow> (\<exists>items. fst res = acc @ items \<and> pages api tok items)", OF _ assms])
  fix f and api :: "'a api_call" and tok acc res
  assume IH: "\<And>api tok acc y. f api tok acc = Some y \<Longrightarrow>
      snd y = None \<longrightarrow> (\<exists>items. fst y = acc @ items \<and> pages api tok items)"
    and res: "(case api tok of
        Inl e \<Rightarrow> Some (acc, Some e)
      | Inr p \<Rightarrow> (case pgNext p of
             None \<Rightarrow> Some (acc @ pgItems p, None)
           | Some t \<Rightarrow> f api (Some t) (acc @ pgItems p))) = Some res"
  show "snd res = None \<longrightarrow> (\<exists>items. fst res = acc @ items \<and> pages api tok items)"
  proof (cases "api tok")
    case (Inl e)
    with res show ?thesis by auto
  next
    case (Inr p)
    show ?thesis
    proof (cases "pgNext p")
      case None
      with res Inr pages.last [of api tok p] show ?thesis by auto
    next
      case (Some t)
      with res Inr have "f api (Some t) (acc @ pgItems p) = Some res" by simp
      from IH [OF this] show ?thesis using pages.more [where api = api and tok = tok, OF Inr Some] by fastforce
    qed
  qed
qed

lemma fetch_all_iff: "fetch_all api = Some (Inr items) \<longleftrightarrow> pages api None items"
proof
  assume "fetch_all api = Some (Inr items)"
  then have "fetch_pages api None [] = Some (items, None)"
    by (auto simp: fetch_all_def split: option.splits)
  from fetch_pages_sound [OF this] show "pages api None items" by simp
next
  assume "pages api None items"
  then show "fetch_all api = Some (Inr items)"
    using fetch_pages_complete [of api None items "[]"] by (simp add: fetch_all_def)
qed

section \<open>Whose rows these are\<close>

text \<open>What the store's keys and its replacement of an account rest on.\<close>

definition row_of :: "account \<Rightarrow> reservation \<Rightarrow> bool" where
  "row_of acct r \<longleftrightarrow>
     AccountID r = acAccountID acct \<and> AccountAlias r = acAlias acct \<and>
     ID r = canonical_id (AccountID r) (Region r) (ResourceID r)"

lemma row_of_base [simp]: "row_of acct (base_row acct region type resId)"
  by (simp add: row_of_def base_row_def)

lemma row_of_rows [simp]:
  "row_of acct (plan_row ov ord acct rates e p)" "row_of acct (capacity_row ov acct region c)"
  "row_of acct (ri_row acct region r)" "row_of acct (rds_row acct region n)"
  "row_of acct (cache_row acct region n)" "row_of acct (redshift_row acct region n)"
  "row_of acct (opensearch_row acct region n)" "row_of acct (memorydb_row acct region n)"
  "row_of acct (throughput_row acct region t x)"
  by (simp_all add: row_of_def base_row_def plan_row_def capacity_row_def ri_row_def rds_row_def
      cache_row_def redshift_row_def opensearch_row_def memorydb_row_def node_row_def
      throughput_row_def Let_def split: prod.split)

definition answer_of :: "account \<Rightarrow> string + reservation list \<Rightarrow> bool" where
  "answer_of acct a \<longleftrightarrow> (case a of Inl e \<Rightarrow> True | Inr rs \<Rightarrow> list_all (row_of acct) rs)"

lemma answer_of_map_sum:
  "(\<And>xs. list_all (row_of acct) (f xs)) \<Longrightarrow> answer_of acct (map_sum id f a)"
  by (cases a) (simp_all add: answer_of_def)

lemma answer_of_nodes:
  assumes "\<And>n. row_of acct (row acct region n)" "fetch_nodes row api acct region = Some a"
  shows "answer_of acct a"
  using assms by (auto simp: fetch_nodes_def list_all_iff intro!: answer_of_map_sum)

lemma throughput_loop_rows: "list_all (row_of acct) (throughput_loop acct region ts)"
  by (induction ts) (auto split: option.split)

lemma call_rows:
  assumes "(label, Some a) \<in> set (region_calls ov aws acct region)"
  shows "answer_of acct a"
proof -
  have "answer_of acct a"
    if "fetchCapacityReservations ov api acct region = Some a" for api
    using that by (auto simp: fetchCapacityReservations_def list_all_iff intro!: answer_of_map_sum)
  moreover have "answer_of acct a" if "a = fetchReservedInstances ans acct region" for ans
    using that by (auto simp: fetchReservedInstances_def list_all_iff intro!: answer_of_map_sum)
  moreover have "answer_of acct a"
    if "fetchBedrockProvisionedThroughputs api acct region = Some a" for api
    using that by (auto simp: fetchBedrockProvisionedThroughputs_def throughput_loop_rows intro!: answer_of_map_sum)
  moreover have "answer_of acct a" if "fetch_nodes row api acct region = Some a"
    "row \<in> {rds_row, cache_row, redshift_row, opensearch_row, memorydb_row}" for row api
    using answer_of_nodes [of acct row region api a] that by auto
  ultimately show ?thesis
    using assms
    by (auto simp: region_calls_def optional_calls_def fetchRDSReservedInstances_def
        fetchElastiCacheReservedNodes_def fetchRedshiftReservedNodes_def
        fetchOpenSearchReservedInstances_def fetchMemoryDBReservedNodes_def dest!: sym [of "Some a"] split: if_splits)
qed

lemma bind_SomeE:
  assumes "Option.bind x f = Some y"
  obtains z where "x = Some z" "f z = Some y"
  using assms by (cases x) auto

lemma run_calls_rows:
  "run_calls pre cs = Some (rows, errs) \<Longrightarrow> \<forall>(label, a) \<in> set cs. \<forall>x. a = Some x \<longrightarrow> answer_of acct x \<Longrightarrow>
   list_all (row_of acct) rows"
proof (induction cs arbitrary: rows errs)
  case (Cons c cs)
  obtain label answer where c: "c = (label, answer)" by (cases c)
  from Cons.prems(1) obtain a rows' errs' where a: "answer = Some a" and
    r: "run_calls pre cs = Some (rows', errs')"
    "(rows, errs) = (case a of Inl e \<Rightarrow> (rows', (pre @ label @ '': '' @ e) # errs') | Inr rs \<Rightarrow> (rs @ rows', errs'))"
    by (auto simp: c elim!: bind_SomeE split: prod.splits)
  have "list_all (row_of acct) rows'" using Cons.IH [OF r(1)] Cons.prems(2) by simp
  moreover have "answer_of acct a" using Cons.prems(2) c a by simp
  ultimately show ?case using r(2) by (auto simp: answer_of_def split: sum.splits)
qed simp

lemma run_regions_rows:
  "run_regions ov aws acct regions = Some (rows, errs) \<Longrightarrow> list_all (row_of acct) rows"
proof (induction regions arbitrary: rows errs)
  case (Cons region regions)
  let ?pre = "acAlias acct @ ''/'' @ region @ ''/''"
  from Cons.prems obtain rs es rs' es' where
    r: "run_calls ?pre (region_calls ov aws acct region) = Some (rs, es)"
    "run_regions ov aws acct regions = Some (rs', es')" "rows = rs @ rs'"
    by (auto elim!: bind_SomeE split: prod.splits)
  have "\<forall>(label, a) \<in> set (region_calls ov aws acct region). \<forall>x. a = Some x \<longrightarrow> answer_of acct x"
    using call_rows by blast
  from run_calls_rows [OF r(1) this] Cons.IH [OF r(2)] r(3) show ?case by simp
qed simp

lemma plan_loop_rows:
  "plan_loop ov ord rate_api acct ps = Some (rows, errs) \<Longrightarrow> list_all (row_of acct) rows"
proof (induction ps arbitrary: rows errs)
  case (Cons p ps)
  then show ?case by (auto elim!: bind_SomeE split: option.splits prod.splits)
qed simp

text \<open>
  Every row fetched for an account carries its account ID and alias and the primary key made of account,
  region and resource: replacing an account's rows in the store touches no other account's, and
  a resource keeps its row from one synchronisation to the next.
\<close>

theorem fetched_rows_of_account:
  assumes "SyncAccount ov ord aws acct = Some (rows, errs)"
  shows "list_all (row_of acct) rows"
proof (cases "acRegions acct = []")
  case True
  with assms show ?thesis by (simp add: SyncAccount_def)
next
  case False
  with assms obtain plans pes rs es where "fetchSavingsPlans ov ord (awPlans aws) (awRates aws) acct = Some (plans, pes)"
    "run_regions ov aws acct (acRegions acct) = Some (rs, es)" "rows = plans @ rs"
    by (auto simp: SyncAccount_def elim!: bind_SomeE split: prod.splits)
  with run_regions_rows plan_loop_rows show ?thesis
    by (fastforce simp: fetchSavingsPlans_def elim!: bind_SomeE split: prod.splits)
qed

definition empty_page :: "'a api_call" where
  "empty_page tok = Inr \<lparr>pgItems = [], pgNext = None\<rparr>"

definition one_page :: "'a list \<Rightarrow> 'a api_call" where
  "one_page items tok = Inr \<lparr>pgItems = items, pgNext = None\<rparr>"

lemma fetch_page [simp]:
  "fetch_all empty_page = Some (Inr [])" "fetch_all (one_page items) = Some (Inr items)"
  "fetch_pages empty_page None [] = Some ([], None)"
  by (simp_all add: fetch_all_def empty_page_def one_page_def fetch_pages.simps)

definition sample_ri :: aws_ri where
  "sample_ri =
     \<lparr>arID = ''ri-1'', arType = ''m5.large'', arProduct = ''Linux/UNIX'', arCount = 2, arStart = Day,
      arEnd = 9 * Day, arState = ''active'', arOffering = ''No Upfront'', arClass = ''standard''\<rparr>"

definition queued_plan :: aws_plan where
  "queued_plan =
     \<lparr>apID = ''sp-1'', apType = ''Compute'', apState = ''queued'', apRegion = [], apFamily = [],
      apPayment = ''All Upfront'', apCommitment = ''1'', apStart = None, apEnd = None\<rparr>"

definition sample_aws :: aws where
  "sample_aws =
     \<lparr>awPlans = one_page [queued_plan], awRates = (\<lambda>_. empty_page), awCapacity = (\<lambda>_. empty_page),
      awRIs = (\<lambda>_. Inr [sample_ri]), awRDS = (\<lambda>_. empty_page), awCache = (\<lambda>_. empty_page),
      awRedshift = (\<lambda>_. empty_page), awOpenSearch = (\<lambda>_. empty_page),
      awMemoryDB = (\<lambda>_. (\<lambda>tok. Inl ''denied'')), awThroughputs = (\<lambda>_. empty_page)\<rparr>"

lemma fetch_denied: "fetch_all (\<lambda>tok. Inl e) = Some (Inl e)"
  by (simp add: fetch_all_def fetch_pages.simps)

definition fetch_account :: "string list \<Rightarrow> account" where
  "fetch_account skip =
     \<lparr>acAlias = ''prod'', acAccountID = ''1'', acAccessKey = [], acSecretKey = [], acRegions = [''eu''],
      acSkipTypes = skip, acSNSOnly = False\<rparr>"

definition sample_rows_for :: "account \<Rightarrow> reservation list" where
  "sample_rows_for acct = [plan_row Map.empty id acct [] 0 queued_plan, ri_row acct ''eu'' sample_ri]"

lemma one_page_read: "fetch_pages (one_page items) None [] = Some (items, None)"
  by (simp add: one_page_def fetch_pages.simps)

lemmas call_defs = region_calls_def optional_calls_def fetchRDSReservedInstances_def
  fetchElastiCacheReservedNodes_def fetchRedshiftReservedNodes_def fetchOpenSearchReservedInstances_def
  fetchMemoryDBReservedNodes_def fetch_nodes_def fetchBedrockProvisionedThroughputs_def
  fetchCapacityReservations_def fetchReservedInstances_def

lemma sample_sync:
  "SyncAccount Map.empty id sample_aws (fetch_account []) =
     Some (sample_rows_for (fetch_account []), [''prod/eu/MemoryDB-RI: denied''])"
  "SyncAccount Map.empty id sample_aws (fetch_account [TypeMemoryDBRI]) =
     Some (sample_rows_for (fetch_account [TypeMemoryDBRI]), [])"
  by (simp_all add: SyncAccount_def fetchSavingsPlans_def sample_aws_def call_defs
      fetch_account_def fetch_denied ShouldSkip_def sample_rows_for_def one_page_read queued_plan_def
      plan_end_def plan_rates_def)

lemma fetched_rows_of_account_witness:
  "row_of (fetch_account []) (ri_row (fetch_account []) ''eu'' sample_ri)"
  using fetched_rows_of_account [OF sample_sync(1)] by (simp add: sample_rows_for_def)

section \<open>No failure is silent\<close>

definition calls_ok :: "call list \<Rightarrow> bool" where
  "calls_ok cs \<longleftrightarrow> (\<forall>c \<in> set cs. \<exists>rs. snd c = Some (Inr rs))"

text \<open>The rows of a call that succeeded, and of the calls of all regions in their order.\<close>

definition call_result :: "call \<Rightarrow> reservation list" where
  "call_result c = (case snd c of Some (Inr rs) \<Rightarrow> rs | _ \<Rightarrow> [])"

definition called_rows :: "overrides \<Rightarrow> aws \<Rightarrow> account \<Rightarrow> reservation list" where
  "called_rows ov aws acct =
     concat (map (\<lambda>region. concat (map call_result (region_calls ov aws acct region))) (acRegions acct))"

text \<open>The row of a plan: with its end, and the figures of its rates if they could be fetched.\<close>

definition row_of_plan ::
  "overrides \<Rightarrow> (rate_table \<Rightarrow> rate_table) \<Rightarrow> aws \<Rightarrow> account \<Rightarrow> aws_plan \<Rightarrow> reservation \<Rightarrow> bool" where
  "row_of_plan ov ord aws acct p r \<longleftrightarrow>
     (\<exists>endTime rates. plan_end p = Some endTime \<and> plan_rates (awRates aws) p = Some rates \<and>
        r = plan_row ov ord acct rates endTime p)"

lemma run_calls_result:
  "run_calls pre cs = Some (rows, errs) \<Longrightarrow>
   (errs = [] \<longleftrightarrow> calls_ok cs) \<and> rows = concat (map call_result cs)"
proof (induction cs arbitrary: rows errs)
  case (Cons c cs)
  obtain label answer where c: "c = (label, answer)" by (cases c)
  from Cons.prems obtain a rows' errs' where a: "answer = Some a" and
    r: "run_calls pre cs = Some (rows', errs')"
    "(rows, errs) = (case a of Inl e \<Rightarrow> (rows', (pre @ label @ '': '' @ e) # errs') | Inr rs \<Rightarrow> (rs @ rows', errs'))"
    by (auto simp: c elim!: bind_SomeE split: prod.splits)
  from Cons.IH [OF r(1)] r(2) show ?case
    by (cases a) (auto simp: c a calls_ok_def call_result_def)
qed (simp add: calls_ok_def)

lemma run_regions_result:
  "run_regions ov aws acct regions = Some (rows, errs) \<Longrightarrow>
   (errs = [] \<longleftrightarrow> (\<forall>r \<in> set regions. calls_ok (region_calls ov aws acct r))) \<and>
   rows = concat (map (\<lambda>r. concat (map call_result (region_calls ov aws acct r))) regions)"
proof (induction regions arbitrary: rows errs)
  case (Cons region regions)
  let ?pre = "acAlias acct @ ''/'' @ region @ ''/''"
  from Cons.prems obtain rs es rs' es' where
    r: "run_calls ?pre (region_calls ov aws acct region) = Some (rs, es)"
    "run_regions ov aws acct regions = Some (rs', es')" "rows = rs @ rs'" "errs = es @ es'"
    by (auto elim!: bind_SomeE split: prod.splits)
  from run_calls_result [OF r(1)] Cons.IH [OF r(2)] show ?case unfolding r(3,4) by auto
qed simp

lemma plan_loop_result:
  "plan_loop ov ord (awRates aws) acct ps = Some (rows, errs) \<Longrightarrow>
   list_all2 (row_of_plan ov ord aws acct) (filter (\<lambda>p. plan_end p \<noteq> None) ps) rows"
proof (induction ps arbitrary: rows errs)
  case (Cons p ps)
  then show ?case by (auto simp: row_of_plan_def elim!: bind_SomeE split: option.splits prod.splits)
qed simp

lemma plan_loop_errors:
  "plan_loop ov ord rate_api acct ps = Some (rows, errs) \<Longrightarrow> errs = [] \<longleftrightarrow> (\<forall>p \<in> set ps. plan_end p \<noteq> None)"
proof (induction ps arbitrary: rows errs)
  case (Cons p ps)
  then show ?case by (auto elim!: bind_SomeE split: option.splits prod.splits)
qed simp

lemma plans_errors:
  assumes "fetchSavingsPlans ov ord plan_api rate_api acct = Some (rows, errs)"
  shows "errs = [] \<longleftrightarrow> (\<exists>plans. pages plan_api None plans \<and> (\<forall>p \<in> set plans. plan_end p \<noteq> None))"
proof -
  from assms obtain plans err es where f: "fetch_pages plan_api None [] = Some (plans, err)"
    "plan_loop ov ord rate_api acct plans = Some (rows, es)"
    "errs = es @ (case err of None \<Rightarrow> [] | Some e \<Rightarrow> [e])"
    by (auto simp: fetchSavingsPlans_def elim!: bind_SomeE split: prod.splits)
  have ends: "es = [] \<longleftrightarrow> (\<forall>p \<in> set plans. plan_end p \<noteq> None)" by (rule plan_loop_errors [OF f(2)])
  show ?thesis
  proof (cases err)
    case None
    then have p: "pages plan_api None plans" using fetch_pages_sound [OF f(1)] by simp
    have "ps = plans" if "pages plan_api None ps" for ps
      using fetch_pages_complete [OF that, of "[]"] f(1) by simp
    then have "(\<exists>ps. pages plan_api None ps \<and> (\<forall>p \<in> set ps. plan_end p \<noteq> None)) \<longleftrightarrow> es = []"
      using p ends by blast
    with None show ?thesis unfolding f(3) by simp
  next
    case (Some e)
    have "\<not> pages plan_api None ps" for ps
      using fetch_pages_complete [of plan_api None ps "[]"] f(1) Some by auto
    with Some show ?thesis unfolding f(3) by simp
  qed
qed

lemma SyncAccount_errors:
  assumes "SyncAccount ov ord aws acct = Some (rows, errs)"
  shows "errs = [] \<longleftrightarrow>
      acRegions acct \<noteq> [] \<and>
      (\<exists>plans. pages (awPlans aws) None plans \<and> (\<forall>p \<in> set plans. plan_end p \<noteq> None)) \<and>
      (\<forall>region \<in> set (acRegions acct). calls_ok (region_calls ov aws acct region))"
proof (cases "acRegions acct = []")
  case True
  with assms show ?thesis by (auto simp: SyncAccount_def)
next
  case False
  with assms obtain plans pes rs es where
    f: "fetchSavingsPlans ov ord (awPlans aws) (awRates aws) acct = Some (plans, pes)"
    "run_regions ov aws acct (acRegions acct) = Some (rs, es)"
    "errs = map (\<lambda>e. acAlias acct @ ''/SP: '' @ e) pes @ es"
    by (auto simp: SyncAccount_def elim!: bind_SomeE split: prod.splits)
  from plans_errors [OF f(1)] run_regions_result [OF f(2)] False show ?thesis
    unfolding f(3) by auto
qed

lemma SyncAccount_rows:
  assumes "SyncAccount ov ord aws acct = Some (rows, errs)" "acRegions acct \<noteq> []"
  shows "\<exists>plans err plan_rows. fetch_pages (awPlans aws) None [] = Some (plans, err) \<and>
    list_all2 (row_of_plan ov ord aws acct) (filter (\<lambda>p. plan_end p \<noteq> None) plans) plan_rows \<and>
    rows = plan_rows @ called_rows ov aws acct"
proof -
  from assms obtain plan_rows pes rs es where
    f: "fetchSavingsPlans ov ord (awPlans aws) (awRates aws) acct = Some (plan_rows, pes)"
    "run_regions ov aws acct (acRegions acct) = Some (rs, es)" "rows = plan_rows @ rs"
    by (auto simp: SyncAccount_def elim!: bind_SomeE split: prod.splits)
  from f(1) obtain plans err es' where "fetch_pages (awPlans aws) None [] = Some (plans, err)"
    "plan_loop ov ord (awRates aws) acct plans = Some (plan_rows, es')"
    by (auto simp: fetchSavingsPlans_def elim!: bind_SomeE split: prod.splits)
  with plan_loop_result run_regions_result [OF f(2)] f(3) show ?thesis
    unfolding called_rows_def by blast
qed

text \<open>
  C29. A fetch reports no error exactly when the account has a region, every page of its plans could be read
  with an end each, and no call that is not skipped failed, in any region. Whatever failed, the result
  holds exactly one row for every plan of the pages that were read, but for those without a readable end,
  and behind them the rows of every call that succeeded, of every region. The scheduler relies on it: only
  a fetch without errors lets it delete the rows it did not see.
\<close>

theorem fetch_failures_reported:
  assumes "SyncAccount ov ord aws acct = Some (rows, errs)"
  shows "(errs = [] \<longleftrightarrow>
      acRegions acct \<noteq> [] \<and>
      (\<exists>plans. pages (awPlans aws) None plans \<and> (\<forall>p \<in> set plans. plan_end p \<noteq> None)) \<and>
      (\<forall>region \<in> set (acRegions acct). calls_ok (region_calls ov aws acct region))) \<and>
    (acRegions acct \<noteq> [] \<longrightarrow>
      (\<exists>plans err plan_rows. fetch_pages (awPlans aws) None [] = Some (plans, err) \<and>
        list_all2 (row_of_plan ov ord aws acct) (filter (\<lambda>p. plan_end p \<noteq> None) plans) plan_rows \<and>
        rows = plan_rows @ called_rows ov aws acct))"
  using SyncAccount_errors [OF assms] SyncAccount_rows [OF assms] by blast

text \<open>An account with a plan whose end cannot be read and a service that denies access.\<close>

definition endless_plan :: aws_plan where
  "endless_plan = queued_plan\<lparr>apID := ''sp-2'', apEnd := Some ''soon''\<rparr>"

definition faulty_aws :: aws where
  "faulty_aws = sample_aws\<lparr>awPlans := one_page [queued_plan, endless_plan]\<rparr>"

lemma sample_ends: "plan_end queued_plan = Some 0" "plan_end endless_plan = None"
  by code_simp+

lemma faulty_calls:
  "called_rows Map.empty faulty_aws (fetch_account []) = [ri_row (fetch_account []) ''eu'' sample_ri]"
  by (simp add: called_rows_def call_result_def call_defs faulty_aws_def sample_aws_def fetch_account_def
      fetch_denied ShouldSkip_def)

lemma faulty_sync: "SyncAccount Map.empty id faulty_aws (fetch_account []) \<noteq> None"
  by (simp add: SyncAccount_def fetchSavingsPlans_def faulty_aws_def sample_aws_def one_page_read
      sample_ends plan_rates_def call_defs fetch_account_def fetch_denied ShouldSkip_def)
    (simp add: queued_plan_def)

lemma made_ids [simp]:
  "ResourceID (plan_row ov ord acct rates e p) = apID p" "ResourceID (ri_row acct region r) = arID r"
  "ID (ri_row acct region r) = canonical_id (acAccountID acct) region (arID r)"
  "ID (plan_row ov ord acct rates e p) =
     canonical_id (acAccountID acct) (if apRegion p = [] then ''global'' else apRegion p) (apID p)"
  by (simp_all add: plan_row_def ri_row_def base_row_def Let_def split: prod.split)

lemma fetch_failures_reported_witness:
  "\<exists>rows errs. SyncAccount Map.empty id faulty_aws (fetch_account []) = Some (rows, errs) \<and> errs \<noteq> [] \<and>
     map ResourceID rows = [''sp-1'', ''ri-1'']"
proof -
  obtain rows errs where s: "SyncAccount Map.empty id faulty_aws (fetch_account []) = Some (rows, errs)"
    using faulty_sync by auto
  have read: "fetch_pages (awPlans faulty_aws) None [] = Some ([queued_plan, endless_plan], None)"
    by (simp add: faulty_aws_def one_page_read)
  have pages: "pages (awPlans faulty_aws) None plans \<Longrightarrow> plans = [queued_plan, endless_plan]" for plans
    using fetch_pages_complete [of "awPlans faulty_aws" None plans "[]"] by (simp add: read)
  note reported = fetch_failures_reported [OF s]
  have "errs \<noteq> []" using reported pages sample_ends(2) by force
  moreover have "acRegions (fetch_account []) \<noteq> []" by (simp add: fetch_account_def)
  then have "\<exists>plans err plan_rows. fetch_pages (awPlans faulty_aws) None [] = Some (plans, err) \<and>
      list_all2 (row_of_plan Map.empty id faulty_aws (fetch_account []))
        (filter (\<lambda>p. plan_end p \<noteq> None) plans) plan_rows \<and>
      rows = plan_rows @ called_rows Map.empty faulty_aws (fetch_account [])"
    using reported by blast
  then obtain r where "row_of_plan Map.empty id faulty_aws (fetch_account []) queued_plan r"
    "rows = [r] @ called_rows Map.empty faulty_aws (fetch_account [])"
    by (auto simp: read sample_ends list_all2_Cons1)
  then have "map ResourceID rows = [''sp-1'', ''ri-1'']"
    by (auto simp: row_of_plan_def faulty_calls queued_plan_def sample_ri_def)
  ultimately show ?thesis using s by (intro exI [of _ rows] exI [of _ errs] conjI)
qed

section \<open>What a failing call does to the coverage\<close>

definition sample_gpu :: "string + aws_ri list \<Rightarrow> aws_rate api_call \<Rightarrow> gpu_aws" where
  "sample_gpu ris rates =
     \<lparr>gwPlans = one_page [\<lparr>apID = ''sp-1'', apType = ''Compute'', apState = ''active'', apRegion = [],
        apFamily = [], apPayment = ''All Upfront'', apCommitment = ''100'', apStart = None, apEnd = None\<rparr>],
      gwRates = (\<lambda>_. rates),
      gwInstances = (\<lambda>_. one_page [\<lparr>aiID = ''i-1'', aiType = ''p5.48xlarge'', aiZone = ''eu-a'',
        aiWindows = False, aiReservation = []\<rparr>]),
      gwRIs = (\<lambda>_. ris), gwCapacity = (\<lambda>_. empty_page)\<rparr>"

definition p5_rate :: aws_rate where
  "p5_rate = \<lparr>awUsage = ''EU-BoxUsage:p5.48xlarge'', awTypes = [''p5.48xlarge''], awRate = ''40''\<rparr>"

definition p5_ri :: aws_ri where
  "p5_ri = sample_ri\<lparr>arType := ''p5.48xlarge''\<rparr>"

text \<open>The coverage of the one instance, and the errors.\<close>

definition coverage_seen :: "gpu_aws \<Rightarrow> (string list \<times> string list) option" where
  "coverage_seen aws =
     map_option (\<lambda>(gs, errs). (map gCoverage gs, errs)) (gpu_coverage_of stable_desc aws (fetch_account []))"

text \<open>The analysis of one region's answers.\<close>

definition analysed :: "sp_detail list \<Rightarrow> ri_info list option \<Rightarrow> (string list \<times> string list) option" where
  "analysed plans ris =
     Some ((\<lambda>(gs, errs). (map gCoverage gs, errs))
       (CheckGPUCoverage stable_desc (Some plans)
         (\<lambda>_. \<lparr>raInstances = Some [instance_of ''eu'' \<lparr>aiID = ''i-1'', aiType = ''p5.48xlarge'', aiZone = ''eu-a'',
                 aiWindows = False, aiReservation = []\<rparr>], raRIs = ris, raCBs = Some []\<rparr>)
         (fetch_account [])))"

lemma coverage_seen_analysed:
  assumes "detail_loop (\<lambda>_. rates) (pgItems (projr (gwPlans (sample_gpu ris rates) None))) = Some plans"
  shows "coverage_seen (sample_gpu ris rates) = analysed plans (answered (fetchActiveRIs ris ''eu''))"
proof -
  have "fetchActiveSPsWithRates (gwPlans (sample_gpu ris rates)) (gwRates (sample_gpu ris rates)) = Some (Inr plans)"
    using assms by (simp add: fetchActiveSPsWithRates_def sample_gpu_def one_page_def [abs_def] fetch_all_def fetch_pages.simps)
  then show ?thesis
    by (simp add: coverage_seen_def gpu_coverage_of_def analysed_def fetch_account_def region_answers_def
        fetchRunningInstances_def fetchActiveCBIDs_def sample_gpu_def answered_def CheckGPUCoverage_def)
qed

text \<open>
  C37. A failing call makes a covered instance look uncovered: one a savings plan pays for is reported on
  demand, with no error at all, when the plan's rates cannot be fetched, and one under a reserved
  instance is, with an error, when the reserved instances cannot be.
\<close>

theorem failed_calls_uncover:
  "coverage_seen (sample_gpu (Inr []) (one_page [p5_rate])) = Some ([CoverageSP], []) \<and>
   coverage_seen (sample_gpu (Inr []) (\<lambda>_. Inl ''throttled'')) = Some ([CoverageOnDemand], []) \<and>
   coverage_seen (sample_gpu (Inr [p5_ri]) (\<lambda>_. Inl ''throttled'')) = Some ([CoverageRI], []) \<and>
   coverage_seen (sample_gpu (Inl ''throttled'') (\<lambda>_. Inl ''throttled'')) = Some ([CoverageOnDemand], [''RI''])"
proof -
  let ?plan = "\<lparr>apID = ''sp-1'', apType = ''Compute'', apState = ''active'', apRegion = [],
        apFamily = [], apPayment = ''All Upfront'', apCommitment = ''100'', apStart = None, apEnd = None\<rparr>"
  have rates: "usable_rate p5_rate = Some (''p5.48xlarge'', 40)" by code_simp
  have paid: "coverage_seen (sample_gpu ris (one_page [p5_rate])) =
      analysed [plan_detail ?plan [(''p5.48xlarge'', 40)]] (answered (fetchActiveRIs ris ''eu''))" for ris
    by (rule coverage_seen_analysed) (simp add: sample_gpu_def one_page_def [of "[_ :: aws_plan]"] fetchSPRates_def rates)
  have unpaid: "coverage_seen (sample_gpu ris (\<lambda>_. Inl ''throttled'')) =
      analysed [] (answered (fetchActiveRIs ris ''eu''))" for ris
    by (rule coverage_seen_analysed) (simp add: sample_gpu_def one_page_def fetchSPRates_def fetch_denied)
  have "analysed [plan_detail ?plan [(''p5.48xlarge'', 40)]] (answered (fetchActiveRIs (Inr []) ''eu'')) = Some ([CoverageSP], [])"
    "analysed [] (answered (fetchActiveRIs (Inr []) ''eu'')) = Some ([CoverageOnDemand], [])"
    "analysed [] (answered (fetchActiveRIs (Inr [p5_ri]) ''eu'')) = Some ([CoverageRI], [])"
    "analysed [] (answered (fetchActiveRIs (Inl ''throttled'') ''eu'')) = Some ([CoverageOnDemand], [''RI''])"
    by code_simp+
  then show ?thesis by (simp only: paid unpaid simp_thms)
qed

end
