(* ===== verification/Notify.thy ===== *)
theory Notify
  imports Reservation
begin

text \<open>
  The notifiers of \<^verbatim>\<open>notifier/sns.go\<close> and \<^verbatim>\<open>notifier/lark.go\<close>: the texts they build from alerts
  and from uncovered GPU instances, the cut of a text to the limits of SNS, and how the answer of the
  Lark webhook becomes success or failure. A string is its UTF-8 bytes; widths in \<open>fmt\<close> count
  runes, invalid bytes one each. The calls to AWS and to the webhook are arguments.
\<close>

section \<open>UTF-8\<close>

abbreviation "NL \<equiv> CHR 0x0A"

definition byte_in :: "nat \<Rightarrow> nat \<Rightarrow> char \<Rightarrow> bool" where
  "byte_in lo hi c \<longleftrightarrow> lo \<le> code c \<and> code c \<le> hi"

text \<open>\<open>utf8.RuneStart\<close>: not a continuation byte.\<close>

definition rune_start :: "char \<Rightarrow> bool" where
  "rune_start c \<longleftrightarrow> \<not> byte_in 0x80 0xBF c"

text \<open>The allowed second bytes after a first byte, and how many continuation bytes follow them.\<close>

definition lead_byte :: "char \<Rightarrow> (nat \<times> nat \<times> nat) option" where
  "lead_byte c =
     (if byte_in 0xC2 0xDF c then Some (0x80, 0xBF, 0)
      else if code c = 0xE0 then Some (0xA0, 0xBF, 1)
      else if code c = 0xED then Some (0x80, 0x9F, 1)
      else if byte_in 0xE1 0xEF c then Some (0x80, 0xBF, 1)
      else if code c = 0xF0 then Some (0x90, 0xBF, 2)
      else if byte_in 0xF1 0xF3 c then Some (0x80, 0xBF, 2)
      else if code c = 0xF4 then Some (0x80, 0x8F, 2)
      else None)"

text \<open>The number of bytes of the rune a string starts with.\<close>

fun rune_width :: "string \<Rightarrow> nat option" where
  "rune_width [] = None"
| "rune_width [c] = (if code c < 0x80 then Some 1 else None)"
| "rune_width (c # d # s) =
     (if code c < 0x80 then Some 1
      else case lead_byte c of
             None \<Rightarrow> None
           | Some (lo, hi, n) \<Rightarrow>
               if byte_in lo hi d \<and> n \<le> length s \<and> list_all (byte_in 0x80 0xBF) (take n s)
               then Some (n + 2) else None)"

function rune_count :: "string \<Rightarrow> nat" where
  "rune_count [] = 0"
| "rune_count (c # s) =
     Suc (rune_count (case rune_width (c # s) of None \<Rightarrow> s | Some n \<Rightarrow> drop (n - 1) s))"
  by pat_completeness auto
termination
  by (relation "measure length") (auto split: option.split)

function utf8_valid :: "string \<Rightarrow> bool" where
  "utf8_valid [] = True"
| "utf8_valid (c # s) =
     (case rune_width (c # s) of None \<Rightarrow> False | Some n \<Rightarrow> utf8_valid (drop (n - 1) s))"
  by pat_completeness auto
termination
  by (relation "measure length") (auto split: option.split)

declare rune_count.simps(2) [simp del] utf8_valid.simps(2) [simp del]

section \<open>Cutting to a limit\<close>

fun back_off :: "string \<Rightarrow> nat \<Rightarrow> nat" where
  "back_off s 0 = 0"
| "back_off s (Suc k) = (if rune_start (s ! Suc k) then Suc k else back_off s k)"

definition snsMaxMessageBytes :: nat where
  "snsMaxMessageBytes = 256 * 1024 - 1024"

definition snsTruncationNotice :: string where
  "snsTruncationNotice =
     [NL, NL] @ ''... message truncated: too many alerts to fit in one notification. '' @
     ''See the SmartRenew UI for the full list.'' @ [NL]"

definition truncateMessage :: "string \<Rightarrow> string" where
  "truncateMessage body =
     (if length body \<le> snsMaxMessageBytes then body
      else take (back_off body (snsMaxMessageBytes - length snsTruncationNotice)) body @
           snsTruncationNotice)"

definition truncateSubject :: "string \<Rightarrow> string" where
  "truncateSubject s = (if length s \<le> 100 then s else take (back_off s 100) s)"

section \<open>Texts\<close>

definition pad_left :: "nat \<Rightarrow> string \<Rightarrow> string" where
  "pad_left w s = replicate (w - rune_count s) (CHR '' '') @ s"

definition pad_right :: "nat \<Rightarrow> string \<Rightarrow> string" where
  "pad_right w s = s @ replicate (w - rune_count s) (CHR '' '')"

definition em_dash :: string where "em_dash = [CHR 0xE2, CHR 0x80, CHR 0x94]"
definition le_sign :: string where "le_sign = [CHR 0xE2, CHR 0x89, CHR 0xA4]"

text \<open>The three lists into which both notifiers sort the alerts.\<close>

fun group_alerts :: "alert list \<Rightarrow> alert list \<times> alert list \<times> alert list \<Rightarrow>
    alert list \<times> alert list \<times> alert list" where
  "group_alerts [] g = g"
| "group_alerts (a # as) (cs, ws, os) =
     group_alerts as
       (case Level a of
          LevelCritical \<Rightarrow> (cs @ [a], ws, os)
        | LevelWarning \<Rightarrow> (cs, ws @ [a], os)
        | _ \<Rightarrow> (cs, ws, os @ [a]))"

definition expiry_line :: "alert \<Rightarrow> string" where
  "expiry_line a =
     (let r = aRes a in
      ''  '' @ pad_left 2 (itoa (DaysLeft a)) @ ''d | '' @ pad_right 12 (to_upper (RType r)) @
      '' | '' @ pad_right 20 (InstanceType r) @ '' | '' @ pad_right 20 (AccountAlias r) @
      '' | '' @ ResourceID r @ '' ('' @ Region r @ '') | ends '' @ format_date (EndTime r) @ [NL])"

definition write_group :: "string \<Rightarrow> alert list \<Rightarrow> string" where
  "write_group title items =
     (if items = [] then []
      else title @ [NL] @ replicate (length title) (CHR ''-'') @ [NL] @
           concat (map expiry_line items) @ [NL])"

definition buildExpiryText :: "alert list \<Rightarrow> string" where
  "buildExpiryText alerts =
     (case group_alerts alerts ([], [], []) of (cs, ws, os) \<Rightarrow>
        ''SmartRenew Alert '' @ em_dash @ '' '' @ itoa (int (length alerts)) @
        '' resources expiring within 30 days'' @ [NL] @ replicate 70 (CHR ''='') @ [NL, NL] @
        write_group (''URGENT ('' @ le_sign @ ''3 days)'') cs @
        write_group (''WARNING ('' @ le_sign @ ''7 days)'') ws @
        write_group (''ATTENTION ('' @ le_sign @ ''30 days)'') os @
        em_dash @ [NL] @ ''Sent by SmartRenew'' @ [NL])"

definition gpu_line :: "gpu_coverage \<Rightarrow> string" where
  "gpu_line g =
     ''  '' @ pad_right 22 (gInstanceID g) @ '' | '' @ pad_right 18 (gInstanceType g) @ '' | '' @
     pad_right 20 (gAccountAlias g) @ '' | '' @ gRegion g @ ''/'' @ gAZ g @ [NL]"

definition buildGPUODText :: "gpu_coverage list \<Rightarrow> string" where
  "buildGPUODText items =
     ''SmartRenew GPU On-Demand Alert '' @ em_dash @ '' '' @ itoa (int (length items)) @
     '' GPU instances uncovered'' @ [NL] @ replicate 70 (CHR ''='') @ [NL, NL] @
     ''The following GPU instances are running without SP / CB / RI coverage:'' @ [NL, NL] @
     concat (map gpu_line items) @ [NL] @ em_dash @ [NL] @ ''Sent by SmartRenew'' @ [NL]"

section \<open>SNS\<close>

text \<open>The subject and the message that are published, \<open>None\<close> when nothing is.\<close>

definition sns_Send :: "alert list \<Rightarrow> (string \<times> string) option" where
  "sns_Send alerts =
     (if alerts = [] then None
      else Some (truncateSubject (''[SmartRenew] '' @ itoa (int (length alerts)) @
                   '' resources expiring within 30 days''),
                 truncateMessage (buildExpiryText alerts)))"

definition sns_SendGPUAlerts :: "gpu_coverage list \<Rightarrow> (string \<times> string) option" where
  "sns_SendGPUAlerts items =
     (if items = [] then None
      else Some (truncateSubject (''[SmartRenew] '' @ itoa (int (length items)) @
                   '' GPU instances on-demand''),
                 truncateMessage (buildGPUODText items)))"

text \<open>What AWS answers decides the result: \<open>None\<close> is success.\<close>

definition sns_result :: "(string \<times> string \<Rightarrow> string option) \<Rightarrow> (string \<times> string) option \<Rightarrow> string option" where
  "sns_result publish m = (case m of None \<Rightarrow> None | Some p \<Rightarrow> map_option ((@) ''sns publish: '') (publish p))"

section \<open>Lark\<close>

text \<open>\<open>strings.Join(lines, NL)\<close>\<close>

fun join_lines :: "string list \<Rightarrow> string" where
  "join_lines [] = []"
| "join_lines [l] = l"
| "join_lines (l # ls) = l @ NL # join_lines ls"

definition formatAlertLine :: "alert \<Rightarrow> string" where
  "formatAlertLine a =
     (let r = aRes a in
      ''- **'' @ itoa (DaysLeft a) @ ''d** | '' @ to_upper (RType r) @ '' | '' @ InstanceType r @
      '' | '' @ AccountAlias r @ '' | '' @ ResourceID r @ '' ('' @ Region r @ '')'')"

definition lark_lines :: "alert list \<Rightarrow> string list" where
  "lark_lines alerts =
     (case group_alerts alerts ([], [], []) of (cs, ws, os) \<Rightarrow>
        [''**SmartRenew Alert** - '' @ itoa (int (length alerts)) @ '' items expiring soon'' @ [NL]] @
        (if cs = [] then [] else [''**Urgent (<=3 days):**''] @ map formatAlertLine cs @ [[]]) @
        (if ws = [] then [] else [''**Warning (<=7 days):**''] @ map formatAlertLine ws @ [[]]) @
        (if os = [] then [] else [''**Attention (<=30 days):**''] @ map formatAlertLine os))"

text \<open>A card, by its title and its text; the template is always red.\<close>

record lark_card =
  cardTitle :: string
  cardContent :: string

definition buildLarkContent :: "alert list \<Rightarrow> lark_card" where
  "buildLarkContent alerts =
     \<lparr>cardTitle = ''SmartRenew Resource Expiry Alert'', cardContent = join_lines (lark_lines alerts)\<rparr>"

definition lark_gpu_line :: "gpu_coverage \<Rightarrow> string" where
  "lark_gpu_line g =
     ''- **'' @ gInstanceType g @ ''** | '' @ gInstanceID g @ '' | '' @ gAccountAlias g @ '' | '' @
     gRegion g @ ''/'' @ gAZ g"

definition buildGPUAlertContent :: "gpu_coverage list \<Rightarrow> lark_card" where
  "buildGPUAlertContent items =
     \<lparr>cardTitle = ''SmartRenew GPU On-Demand Alert'',
      cardContent = join_lines
        ((''**GPU On-Demand Alert** - '' @ itoa (int (length items)) @
          '' GPU instances running without coverage'' @ [NL]) # map lark_gpu_line items)\<rparr>"

text \<open>
  The webhook: no answer at all, or a status and the decoded body, its code and message; \<open>None\<close>
  for a body that is not of that form. A non-200 answer reports the message it can decode.
\<close>

datatype http_answer = NoAnswer string | Answer nat "(int \<times> string) option"

datatype lark_error = SendFailed string | HttpError nat string | DecodeFailed | LarkError int string

fun postCard_result :: "http_answer \<Rightarrow> lark_error option" where
  "postCard_result (NoAnswer e) = Some (SendFailed e)"
| "postCard_result (Answer status body) =
     (if status \<noteq> 200 then Some (HttpError status (case body of None \<Rightarrow> [] | Some (_, msg) \<Rightarrow> msg))
      else case body of
             None \<Rightarrow> Some DecodeFailed
           | Some (c, msg) \<Rightarrow> if c \<noteq> 0 then Some (LarkError c msg) else None)"

definition lark_Send :: "(lark_card \<Rightarrow> http_answer) \<Rightarrow> alert list \<Rightarrow> lark_error option" where
  "lark_Send post alerts =
     (if alerts = [] then None else postCard_result (post (buildLarkContent alerts)))"

definition lark_SendGPUAlerts :: "(lark_card \<Rightarrow> http_answer) \<Rightarrow> gpu_coverage list \<Rightarrow> lark_error option" where
  "lark_SendGPUAlerts post items =
     (if items = [] then None else postCard_result (post (buildGPUAlertContent items)))"

section \<open>A cut keeps UTF-8 valid\<close>

lemma lead_byte_start: "lead_byte c = Some p \<Longrightarrow> rune_start c"
  by (auto simp: lead_byte_def rune_start_def byte_in_def split: if_splits)

lemma lead_byte_range: "lead_byte c = Some (lo, hi, n) \<Longrightarrow> 0x80 \<le> lo \<and> hi \<le> 0xBF"
  by (auto simp: lead_byte_def split: if_splits)

lemma not_rune_start: "byte_in lo hi c \<Longrightarrow> 0x80 \<le> lo \<Longrightarrow> hi \<le> 0xBF \<Longrightarrow> \<not> rune_start c"
  by (simp add: rune_start_def byte_in_def)

text \<open>A rune is a first byte and continuation bytes, and what follows does not matter.\<close>

lemma rune_width_cases:
  assumes "rune_width s = Some n"
  shows "(n = 1 \<and> (\<exists>c t. s = c # t \<and> code c < 0x80)) \<or>
    (\<exists>c d t lo hi m. s = c # d # t \<and> \<not> code c < 0x80 \<and> lead_byte c = Some (lo, hi, m) \<and>
       byte_in lo hi d \<and> m \<le> length t \<and> list_all (byte_in 0x80 0xBF) (take m t) \<and> n = m + 2)"
  using assms by (cases s rule: rune_width.cases) (auto split: if_splits option.splits)

lemma rune_width_bound: "rune_width s = Some n \<Longrightarrow> 1 \<le> n \<and> n \<le> length s"
  by (drule rune_width_cases) auto

lemma rune_width_append:
  assumes "rune_width s = Some n"
  shows "rune_width (s @ t) = Some n"
  using rune_width_cases [OF assms]
proof (elim disjE exE conjE)
  fix c u
  assume "n = 1" "s = c # u" "code c < 0x80"
  then show ?thesis by (cases "u @ t") auto
qed auto

lemma rune_width_take:
  assumes "rune_width s = Some n"
  shows "rune_width (take n s) = Some n"
  using rune_width_cases [OF assms] by (elim disjE exE conjE) auto

lemma rune_width_inner:
  assumes "rune_width s = Some n" "0 < i" "i < n"
  shows "\<not> rune_start (s ! i)"
  using rune_width_cases [OF assms(1)]
proof (elim disjE exE conjE)
  fix c d t lo hi m
  assume s: "s = c # d # t" "lead_byte c = Some (lo, hi, m)" "byte_in lo hi d" "m \<le> length t"
    "list_all (byte_in 0x80 0xBF) (take m t)" "n = m + 2"
  show ?thesis
  proof (cases "i = 1")
    case True
    with s lead_byte_range [OF s(2)] not_rune_start [OF s(3)] show ?thesis by simp
  next
    case False
    define j where "j = i - 2"
    have i: "i = Suc (Suc j)" "j < m" using False assms(2,3) s(6) unfolding j_def by linarith+
    with s(4,5) have "byte_in 0x80 0xBF (t ! j)" by (auto simp: list_all_length)
    then have "\<not> rune_start (t ! j)" by (rule not_rune_start) simp_all
    then show ?thesis by (simp add: i(1) s(1))
  qed
qed (use assms in auto)

lemma utf8_valid_step:
  assumes "s \<noteq> []"
  shows "utf8_valid s = (case rune_width s of None \<Rightarrow> False | Some n \<Rightarrow> utf8_valid (drop n s))"
proof -
  obtain c t where s: "s = c # t" using assms by (cases s) auto
  have "drop n s = drop (n - 1) t" if "rune_width s = Some n" for n
    using rune_width_bound [OF that] s by (cases n) auto
  with s show ?thesis by (simp add: utf8_valid.simps(2) split: option.split)
qed

lemma utf8_valid_append: "utf8_valid s \<Longrightarrow> utf8_valid t \<Longrightarrow> utf8_valid (s @ t)"
proof (induction s rule: utf8_valid.induct)
  case (2 c s)
  let ?s = "c # s"
  from "2.prems" obtain n where n: "rune_width ?s = Some n" "utf8_valid (drop (n - 1) s)"
    by (auto simp: utf8_valid.simps(2) split: option.splits)
  then have "utf8_valid (drop (n - 1) s @ t)" using "2.IH" "2.prems"(2) by blast
  moreover have "drop n (?s @ t) = drop (n - 1) s @ t"
    using rune_width_bound [OF n(1)] by (cases n) auto
  ultimately show ?case
    using utf8_valid_step [of "?s @ t"] rune_width_append [OF n(1), of t] by simp
qed simp

lemma utf8_valid_take:
  "utf8_valid s \<Longrightarrow> k < length s \<Longrightarrow> rune_start (s ! k) \<or> k = 0 \<Longrightarrow> utf8_valid (take k s)"
proof (induction s arbitrary: k rule: utf8_valid.induct)
  case (2 c s)
  let ?s = "c # s"
  from "2.prems"(1) obtain n where n: "rune_width ?s = Some n" "utf8_valid (drop (n - 1) s)"
    by (auto simp: utf8_valid.simps(2) split: option.splits)
  note bound = rune_width_bound [OF n(1)]
  show ?case
  proof (cases "k < n")
    case True
    then have "k = 0" using rune_width_inner [OF n(1), of k] "2.prems"(3) by blast
    then show ?thesis by simp
  next
    case False
    then have split: "take k ?s = take n ?s @ take (k - n) (drop n ?s)"
      by (metis le_add_diff_inverse not_less take_add)
    have drop: "drop n ?s = drop (n - 1) s" using bound by (cases n) auto
    have "utf8_valid (take (k - n) (drop (n - 1) s))"
    proof (rule "2.IH" [OF n(1) n(2)])
      show "k - n < length (drop (n - 1) s)" using "2.prems"(2) False bound by auto
      show "rune_start (drop (n - 1) s ! (k - n)) \<or> k - n = 0"
        using "2.prems"(3) False bound drop [symmetric] nth_drop [of n ?s "k - n"] by auto
    qed
    moreover have "utf8_valid (take n ?s)"
    proof -
      have ne: "take n ?s \<noteq> []" using bound by auto
      have "drop n (take n ?s) = []" by simp
      then show ?thesis using utf8_valid_step [OF ne] rune_width_take [OF n(1)] by simp
    qed
    ultimately show ?thesis unfolding split drop by (intro utf8_valid_append)
  qed
qed simp

lemma rune_width_start:
  assumes "rune_width s = Some n"
  shows "rune_start (s ! 0)"
  using rune_width_cases [OF assms]
proof (elim disjE exE conjE)
  fix c t
  assume "s = c # t" "code c < 0x80"
  then show ?thesis by (simp add: rune_start_def byte_in_def)
next
  fix c d t lo hi m
  assume "s = c # d # t" "lead_byte c = Some (lo, hi, m)"
  then show ?thesis using lead_byte_start by simp
qed

lemma lead_byte_more: "lead_byte c = Some (lo, hi, m) \<Longrightarrow> m \<le> 2"
  by (auto simp: lead_byte_def split: if_splits)

lemma rune_width_le_4: "rune_width s = Some n \<Longrightarrow> n \<le> 4"
  by (drule rune_width_cases) (auto dest: lead_byte_more)

text \<open>Among four consecutive bytes one starts a rune.\<close>

lemma rune_start_near:
  "utf8_valid s \<Longrightarrow> k < length s \<Longrightarrow> \<exists>j \<le> k. k \<le> j + 3 \<and> rune_start (s ! j)"
proof (induction s arbitrary: k rule: utf8_valid.induct)
  case (2 c s)
  let ?s = "c # s"
  from "2.prems"(1) obtain n where n: "rune_width ?s = Some n" "utf8_valid (drop (n - 1) s)"
    by (auto simp: utf8_valid.simps(2) split: option.splits)
  note bound = rune_width_bound [OF n(1)]
  show ?case
  proof (cases "k < n")
    case True
    with rune_width_le_4 [OF n(1)] rune_width_start [OF n(1)] show ?thesis
      by (intro exI [of _ 0]) auto
  next
    case False
    have drop: "drop n ?s = drop (n - 1) s" using bound by (cases n) auto
    have "k - n < length (drop (n - 1) s)" using "2.prems"(2) False bound by auto
    from "2.IH" [OF n(1) n(2) this] obtain j where j: "j \<le> k - n" "k - n \<le> j + 3"
      "rune_start (drop n ?s ! j)" unfolding drop by blast
    then have "rune_start (?s ! (n + j))" using nth_drop [of n ?s j] bound by simp
    with j(1,2) False show ?thesis by (intro exI [of _ "n + j"]) linarith
  qed
qed simp

lemma back_off_le: "back_off s k \<le> k"
  by (induction k) (auto simp: le_SucI)

lemma back_off_start: "rune_start (s ! back_off s k) \<or> back_off s k = 0"
  by (induction k) auto

lemma back_off_ge: "j \<le> k \<Longrightarrow> rune_start (s ! j) \<Longrightarrow> j \<le> back_off s k"
  by (induction k) (auto simp: le_Suc_eq)

lemma cut_valid:
  assumes "k < length s"
  shows "length (take (back_off s k) s) \<le> k"
    and "utf8_valid s \<Longrightarrow> utf8_valid (take (back_off s k) s) \<and> k \<le> back_off s k + 3"
proof -
  show "length (take (back_off s k) s) \<le> k" using back_off_le [of s k] by simp
  assume v: "utf8_valid s"
  obtain j where "j \<le> k" "k \<le> j + 3" "rune_start (s ! j)" using rune_start_near [OF v assms] by blast
  with back_off_ge have "k \<le> back_off s k + 3" by (meson add_le_mono1 le_trans)
  moreover have "utf8_valid (take (back_off s k) s)"
    using back_off_le [of s k] assms by (intro utf8_valid_take v back_off_start) simp
  ultimately show "utf8_valid (take (back_off s k) s) \<and> k \<le> back_off s k + 3" by simp
qed

lemma notice_facts:
  "utf8_valid snsTruncationNotice" "length snsTruncationNotice < snsMaxMessageBytes"
proof -
  show "utf8_valid snsTruncationNotice" by code_simp
  show "length snsTruncationNotice < snsMaxMessageBytes"
    by (simp add: snsTruncationNotice_def snsMaxMessageBytes_def)
qed

lemma truncateMessage_length: "length (truncateMessage body) \<le> snsMaxMessageBytes"
proof (cases "length body \<le> snsMaxMessageBytes")
  case True
  then show ?thesis by (simp add: truncateMessage_def)
next
  case False
  let ?k = "snsMaxMessageBytes - length snsTruncationNotice"
  have "length (take (back_off body ?k) body) \<le> ?k" using False by (intro cut_valid(1)) linarith
  with False notice_facts(2) show ?thesis
    unfolding truncateMessage_def by (simp only: if_False length_append)
qed

text \<open>
  C34. A message to SNS never exceeds the limit, valid UTF-8 stays valid, a text that fits is sent
  as it is, and of one that does not the cut takes no more than it must: up to the three bytes
  that keep a rune whole, as much of it is sent as leaves room for the notice.
\<close>

theorem truncate_message_ok:
  assumes "utf8_valid body"
  shows "length (truncateMessage body) \<le> snsMaxMessageBytes \<and> utf8_valid (truncateMessage body) \<and>
    (if length body \<le> snsMaxMessageBytes then truncateMessage body = body
     else \<exists>k. truncateMessage body = take k body @ snsTruncationNotice \<and>
            k + length snsTruncationNotice \<le> snsMaxMessageBytes \<and>
            snsMaxMessageBytes \<le> k + length snsTruncationNotice + 3)"
proof (cases "length body \<le> snsMaxMessageBytes")
  case True
  with assms show ?thesis by (simp add: truncateMessage_def)
next
  case False
  let ?k = "snsMaxMessageBytes - length snsTruncationNotice"
  have "?k < length body" using False by linarith
  note cut = cut_valid(2) [OF this assms] and le = back_off_le [of body ?k]
  have "truncateMessage body = take (back_off body ?k) body @ snsTruncationNotice"
    using False by (simp add: truncateMessage_def)
  moreover have "back_off body ?k + length snsTruncationNotice \<le> snsMaxMessageBytes"
    "snsMaxMessageBytes \<le> back_off body ?k + length snsTruncationNotice + 3"
    using cut le notice_facts(2) by linarith+
  ultimately show ?thesis
    using False truncateMessage_length [of body] cut notice_facts(1)
    by (auto simp: utf8_valid_append)
qed

lemma utf8_valid_x: "utf8_valid (replicate n (CHR ''x''))"
proof (induction n)
  case (Suc n)
  have "rune_width (CHR ''x'' # s) = Some 1" for s by (cases s) (simp_all add: code_def)
  with Suc show ?case by (simp add: utf8_valid.simps(2))
qed simp

lemma truncate_message_ok_witness:
  "\<exists>n k. n = 300000 \<and>
     truncateMessage (replicate n (CHR ''x'')) = replicate k (CHR ''x'') @ snsTruncationNotice \<and>
     261120 \<le> k + length snsTruncationNotice + 3"
proof -
  obtain n :: nat where n: "n = 300000" by simp
  let ?s = "replicate n (CHR ''x'')"
  have max: "snsMaxMessageBytes = 261120" by (simp add: snsMaxMessageBytes_def)
  have long: "\<not> length ?s \<le> snsMaxMessageBytes" unfolding length_replicate max by (simp add: n)
  from truncate_message_ok [OF utf8_valid_x [of n], unfolded if_not_P [OF long]] obtain k where
    "truncateMessage ?s = take k ?s @ snsTruncationNotice"
    "snsMaxMessageBytes \<le> k + length snsTruncationNotice + 3"
    by blast
  then have "truncateMessage ?s = replicate (min k n) (CHR ''x'') @ snsTruncationNotice"
    "261120 \<le> min k n + length snsTruncationNotice + 3"
    unfolding take_replicate max by (auto simp: n)
  with n show ?thesis by blast
qed

section \<open>Every alert is in the message\<close>

definition other_level :: "alert \<Rightarrow> bool" where
  "other_level a \<longleftrightarrow> Level a \<noteq> LevelCritical \<and> Level a \<noteq> LevelWarning"

lemma group_alerts_filter:
  "group_alerts as (cs, ws, os) =
     (cs @ filter (\<lambda>a. Level a = LevelCritical) as, ws @ filter (\<lambda>a. Level a = LevelWarning) as,
      os @ filter other_level as)"
  by (induction as arbitrary: cs ws os) (auto simp: other_level_def split: alert_level.split)

lemma mset_groups:
  "group_alerts as ([], [], []) = (cs, ws, os) \<Longrightarrow> mset cs + mset ws + mset os = mset as"
proof (induction as arbitrary: cs ws os)
  case (Cons a as)
  then show ?case
    by (auto simp: group_alerts_filter other_level_def)
qed simp

definition group_pieces :: "string \<Rightarrow> alert list \<Rightarrow> string list" where
  "group_pieces title items =
     (if items = [] then []
      else (title @ [NL] @ replicate (length title) (CHR ''-'') @ [NL]) # map expiry_line items @ [[NL]])"

lemma write_group_pieces: "write_group title items = concat (group_pieces title items)"
  by (simp add: write_group_def group_pieces_def)

lemma lines_in_pieces: "mset (map expiry_line items) \<subseteq># mset (group_pieces title items)"
  by (simp add: group_pieces_def)

lemma expiry_text_pieces:
  "\<exists>pieces. buildExpiryText alerts = concat pieces \<and> mset (map expiry_line alerts) \<subseteq># mset pieces"
proof -
  obtain cs ws os where g: "group_alerts alerts ([], [], []) = (cs, ws, os)"
    by (cases "group_alerts alerts ([], [], [])")
  define head where "head = ''SmartRenew Alert '' @ em_dash @ '' '' @ itoa (int (length alerts)) @
        '' resources expiring within 30 days'' @ [NL] @ replicate 70 (CHR ''='') @ [NL, NL]"
  define foot where "foot = em_dash @ [NL] @ ''Sent by SmartRenew'' @ [NL]"
  define gs where "gs = group_pieces (''URGENT ('' @ le_sign @ ''3 days)'') cs @
        group_pieces (''WARNING ('' @ le_sign @ ''7 days)'') ws @
        group_pieces (''ATTENTION ('' @ le_sign @ ''30 days)'') os"
  have "buildExpiryText alerts = head @ concat gs @ foot"
    unfolding buildExpiryText_def g head_def foot_def gs_def
    by (simp only: prod.case write_group_pieces concat_append append_assoc)
  then have whole: "buildExpiryText alerts = concat ([head] @ gs @ [foot])" by simp
  have "mset (map expiry_line alerts) = mset (map expiry_line cs) + mset (map expiry_line ws) + mset (map expiry_line os)"
    using mset_groups [OF g] by (metis mset_map image_mset_union)
  also have "\<dots> \<subseteq># mset gs"
    unfolding gs_def mset_append add.assoc
    by (intro subset_mset.add_mono lines_in_pieces)
  also have "\<dots> \<subseteq># mset ([head] @ gs @ [foot])" by (simp add: subset_mset.add_increasing2)
  finally show ?thesis using whole by blast
qed

text \<open>
  What is published to SNS for alerts keeps to the limits of 100 bytes for the subject and of
  the message size, and its message holds the line of every alert, once for each, unless it is too
  long; then it says at its end that it was cut.
\<close>

theorem sns_alerts_complete:
  assumes "sns_Send alerts = Some (subject, msg)"
  shows "length subject \<le> 100 \<and> length msg \<le> snsMaxMessageBytes \<and>
    (if length (buildExpiryText alerts) \<le> snsMaxMessageBytes
     then \<exists>pieces. msg = concat pieces \<and> mset (map expiry_line alerts) \<subseteq># mset pieces
     else \<exists>part. msg = part @ snsTruncationNotice)"
proof -
  from assms have "subject = truncateSubject (''[SmartRenew] '' @ itoa (int (length alerts)) @
      '' resources expiring within 30 days'')" and msg: "msg = truncateMessage (buildExpiryText alerts)"
    by (auto simp: sns_Send_def split: if_splits)
  moreover have "length (truncateSubject t) \<le> 100" for t
    using back_off_le [of t 100] by (simp add: truncateSubject_def min_def)
  ultimately have "length subject \<le> 100" by simp
  moreover have "length msg \<le> snsMaxMessageBytes" unfolding msg by (rule truncateMessage_length)
  moreover have "if length (buildExpiryText alerts) \<le> snsMaxMessageBytes
     then \<exists>pieces. msg = concat pieces \<and> mset (map expiry_line alerts) \<subseteq># mset pieces
     else \<exists>part. msg = part @ snsTruncationNotice"
    using expiry_text_pieces [of alerts] by (auto simp: msg truncateMessage_def)
  ultimately show ?thesis by blast
qed

definition sample_alert :: alert where
  "sample_alert = NewAlert (zero_reservation\<lparr>ResourceID := ''r-1'', EndTime := 5 * Day\<rparr>) Day [7, 1]"

lemma sns_alerts_complete_witness:
  "\<exists>subject msg. sns_Send [sample_alert] = Some (subject, msg) \<and> length msg \<le> snsMaxMessageBytes"
proof -
  obtain subject msg where m: "sns_Send [sample_alert] = Some (subject, msg)"
    by (simp add: sns_Send_def)
  from sns_alerts_complete [OF m] m show ?thesis by blast
qed

end
