(* ===== verification/Pipeline.thy ===== *)
theory Pipeline
  imports Reminders Provider Notify
begin

text \<open>
  What the parts make together, from an account at AWS to the row in the store and the line in a message:
  the fetches that a synchronisation starts from are those of \<open>SyncAccount\<close>, and what a check hands
  out is what a notifier publishes. The IDs of the rows keep the accounts apart, since the number of an
  account has no underscore.
\<close>

section \<open>IDs keep the accounts apart\<close>

definition account_number :: "string \<Rightarrow> bool" where
  "account_number s \<longleftrightarrow> s \<noteq> [] \<and> CHR ''_'' \<notin> set s"

lemma canonical_id_account:
  assumes "account_number a" "account_number b" "canonical_id a region res = canonical_id b region' res'"
  shows "a = b"
proof -
  have "takeWhile (\<lambda>c. c \<noteq> CHR ''_'') (canonical_id n region res) = n" if "account_number n" for n region res
    using that unfolding canonical_id_def account_number_def
    by (subst takeWhile_append2) (auto simp del: takeWhile_append2)
  with assms show ?thesis by metis
qed

text \<open>An item with the ID of its account, and a table of such rows.\<close>

definition item_keyed :: "reservation \<Rightarrow> bool" where
  "item_keyed r \<longleftrightarrow>
     account_number (AccountID r) \<and> ID r = canonical_id (AccountID r) (Region r) (ResourceID r)"

definition row_keyed :: "res_row \<Rightarrow> bool" where
  "row_keyed row \<longleftrightarrow>
     account_number (AccountID (rrData row)) \<and>
     (\<exists>region res. row_id row = canonical_id (AccountID (rrData row)) region res)"

definition keyed :: "db \<Rightarrow> bool" where
  "keyed d \<longleftrightarrow> (\<forall>row \<in> set (dbRes d). row_keyed row)"

lemma row_keyed_to_row: "item_keyed r \<Longrightarrow> row_keyed (to_row now r)"
  by (auto simp: item_keyed_def row_keyed_def to_row_def row_id_def)

lemma row_keyed_merge: "row_keyed old \<Longrightarrow> row_keyed (merge_row old new)"
  by (simp add: row_keyed_def merge_row_def row_id_def)

lemma keyed_upsert: "keyed d \<Longrightarrow> item_keyed r \<Longrightarrow> keyed (upsert_stmt now r d)"
  using row_keyed_to_row row_keyed_merge
  by (auto simp: keyed_def upsert_stmt_def dest!: upsert_key_set)

interpretation keyed: table_invariant keyed item_keyed "\<lambda>acct. True"
  by unfold_locales (simp add: keyed_def, erule (1) keyed_upsert, simp add: keyed_def delete_account_stmt_def)

lemma keyed_prune: "keyed d \<Longrightarrow> keyed (snd (prune_removed faults as d))"
  by (simp add: keyed_def PruneAccounts_def exec_def Let_def prune_res_stmt_def prune_gpu_stmt_def)

lemma keyed_apart:
  assumes "keyed d" "\<forall>r \<in> set items. item_keyed r \<and> AccountID r = acct"
  shows "ids_apart (ID ` set items) acct d"
  unfolding ids_apart_def
proof (intro ballI impI)
  fix row assume row: "row \<in> set (dbRes d)" "row_id row \<in> ID ` set items"
  then obtain r where r: "r \<in> set items" "row_id row = ID r" by auto
  with assms have "account_number acct" "row_id row = canonical_id acct (Region r) (ResourceID r)"
    by (auto simp: item_keyed_def)
  moreover obtain region res where "account_number (AccountID (rrData row))"
    "row_id row = canonical_id (AccountID (rrData row)) region res"
    using assms(1) row(1) by (auto simp: keyed_def row_keyed_def)
  ultimately show "AccountID (rrData row) = acct" using canonical_id_account by metis
qed

section \<open>What a synchronisation starts from\<close>

text \<open>The accounts that are synchronised have numbers, each its own.\<close>

definition accounts_apart :: "account list \<Rightarrow> bool" where
  "accounts_apart as \<longleftrightarrow>
     (\<forall>i < length as. \<not> acSNSOnly (as ! i) \<longrightarrow> account_number (acAccountID (as ! i)) \<and>
        (\<forall>j < length as. \<not> acSNSOnly (as ! j) \<and> acAccountID (as ! j) = acAccountID (as ! i) \<longrightarrow> j = i))"

definition fetched_from ::
  "overrides \<Rightarrow> (rate_table \<Rightarrow> rate_table) \<Rightarrow> (nat \<Rightarrow> aws) \<Rightarrow> account list \<Rightarrow> reservation fetched \<Rightarrow> bool" where
  "fetched_from ov ord clouds as fetch \<longleftrightarrow>
     (\<forall>i < length as. \<not> acSNSOnly (as ! i) \<longrightarrow> SyncAccount ov ord (clouds i) (as ! i) = Some (fetch i))"

lemma fetched_items:
  assumes "fetched_from ov ord clouds as fetch" "accounts_apart as" "i < length as" "\<not> acSNSOnly (as ! i)"
    and "r \<in> set (fst (fetch i))"
  shows "item_keyed r \<and> AccountID r = acAccountID (as ! i)"
proof -
  have "SyncAccount ov ord (clouds i) (as ! i) = Some (fst (fetch i), snd (fetch i))"
    using assms by (simp add: fetched_from_def)
  from fetched_rows_of_account [OF this] assms(5) have "row_of (as ! i) r" by (simp add: list_all_iff)
  then show ?thesis using assms(2-4) by (auto simp: row_of_def item_keyed_def accounts_apart_def)
qed

lemma keyed_SyncAll:
  assumes "fetched_from ov ord clouds as fetch" "accounts_apart as" "keyed d"
  shows "keyed (snd (SyncAll faults clock fetch gpu_fetch as d))"
  unfolding snd_sync(3)
  using fetched_items [OF assms(1,2)]
  by (intro keyed.sync_accounts [OF keyed_prune [OF assms(3)]]) auto

text \<open>The AWS calls of an account that it needs all succeed.\<close>

definition account_reached :: "overrides \<Rightarrow> aws \<Rightarrow> account \<Rightarrow> bool" where
  "account_reached ov cloud a \<longleftrightarrow>
     (\<exists>plans. pages (awPlans cloud) None plans \<and> (\<forall>p \<in> set plans. plan_end p \<noteq> None)) \<and>
     (\<forall>region \<in> set (acRegions a). calls_ok (region_calls ov cloud a region))"

lemma reached_errors:
  assumes "SyncAccount ov ord cloud a = Some (items, errs)"
  shows "errs = [] \<longleftrightarrow> acRegions a \<noteq> [] \<and> account_reached ov cloud a"
  using SyncAccount_errors [OF assms] by (simp add: account_reached_def)

lemma no_regions: "SyncAccount ov ord cloud a = Some (items, errs) \<Longrightarrow> items \<noteq> [] \<Longrightarrow> acRegions a \<noteq> []"
  by (auto simp: SyncAccount_def)

lemma reached_items:
  assumes "SyncAccount ov ord cloud a = Some (items, errs)" "items \<noteq> []" "account_reached ov cloud a"
  shows "\<exists>plans plan_rows. pages (awPlans cloud) None plans \<and>
    list_all2 (row_of_plan ov ord cloud a) plans plan_rows \<and> items = plan_rows @ called_rows ov cloud a"
proof -
  obtain plans where plans: "pages (awPlans cloud) None plans" "\<forall>p \<in> set plans. plan_end p \<noteq> None"
    using assms(3) by (auto simp: account_reached_def)
  then have "fetch_pages (awPlans cloud) None [] = Some (plans, None)"
    using fetch_pages_complete [OF plans(1), of "[]"] by simp
  moreover have "filter (\<lambda>p. plan_end p \<noteq> None) plans = plans" using plans(2) by (intro filter_True)
  ultimately show ?thesis
    using SyncAccount_rows [OF assms(1) no_regions [OF assms(1,2)]] plans(1) by (auto simp del: not_None_eq)
qed

lemma mirrored_account:
  assumes "\<forall>n. \<not> faults n" "fetched_from ov ord clouds as fetch" "accounts_apart as" "keyed d"
    and i: "i < length as" "\<not> acSNSOnly (as ! i)"
    and f: "fetch i = (items, errs)" "items \<noteq> []" "distinct (map ID items)"
    and "account_reached ov (clouds i) (as ! i)"
  shows "\<exists>n. rows_of (acAccountID (as ! i)) (snd (SyncAll faults clock fetch gpu_fetch as d)) =
      map (to_row (clock n)) items"
proof -
  have sync: "SyncAccount ov ord (clouds i) (as ! i) = Some (items, errs)"
    using assms(2) i f(1) by (simp add: fetched_from_def)
  have errs: "errs = []" using reached_errors [OF sync] no_regions [OF sync f(2)] assms(10) by simp
  have mine: "\<forall>r \<in> set items. item_keyed r \<and> AccountID r = acAccountID (as ! i)"
    using fetched_items [OF assms(2,3) i] f(1) by simp
  have other: "acAccountID (as ! j) \<noteq> acAccountID (as ! i) \<and>
      (\<forall>r \<in> set (fst (fetch j)). AccountID r = acAccountID (as ! j) \<and> ID r \<notin> ID ` set items)"
    if j: "j < length as" "j \<noteq> i" "\<not> acSNSOnly (as ! j)" for j
  proof -
    have ne: "acAccountID (as ! j) \<noteq> acAccountID (as ! i)" using assms(3) i j by (auto simp: accounts_apart_def)
    have "ID r \<notin> ID ` set items" if r: "r \<in> set (fst (fetch j))" for r
    proof
      assume "ID r \<in> ID ` set items"
      then obtain r' where "r' \<in> set items" "ID r = ID r'" by auto
      with mine fetched_items [OF assms(2,3) j(1,3) r] canonical_id_account ne show False
        unfolding item_keyed_def by metis
    qed
    with ne fetched_items [OF assms(2,3) j(1,3)] show ?thesis by blast
  qed
  have as: "as = take i as @ as ! i # drop (Suc i) as" "length (take i as) = i"
    using i(1) by (simp_all add: id_take_nth_drop)
  show ?thesis
  proof (rule sync_refreshes [OF assms(1) as(1) i(2) _ f(2,3)])
    show "fetch (length (take i as)) = (items, [])" by (simp only: as(2) f(1) errs)
    show "\<forall>r \<in> set items. AccountID r = acAccountID (as ! i)" using mine by blast
    show "ids_apart (ID ` set items) (acAccountID (as ! i)) d" by (rule keyed_apart [OF assms(4) mine])
    show "\<forall>j < length as. j \<noteq> length (take i as) \<and> \<not> acSNSOnly (as ! j) \<longrightarrow>
        acAccountID (as ! j) \<noteq> acAccountID (as ! i) \<and>
        (\<forall>r \<in> set (fst (fetch j)). AccountID r = acAccountID (as ! j) \<and> ID r \<notin> ID ` set items)"
      using other by (simp only: as(2)) blast
  qed
qed

lemma unreached_merged:
  assumes "fetched_from ov ord clouds as fetch" "accounts_apart as"
    and "i < length as" "\<not> acSNSOnly (as ! i)" "\<not> account_reached ov (clouds i) (as ! i)"
  shows "merged_only (acAccountID (as ! i)) fetch 0 as"
proof -
  have "SyncAccount ov ord (clouds i) (as ! i) = Some (fst (fetch i), snd (fetch i))"
    using assms(1,3,4) by (simp add: fetched_from_def)
  from reached_errors [OF this] assms(5) have "snd (fetch i) \<noteq> []" by simp
  then show ?thesis using assms(2-4) by (auto simp: merged_only_def accounts_apart_def)
qed

section \<open>From a row to a message\<close>

lemma line_in_pieces:
  assumes "mset ls \<subseteq># mset pieces" "l \<in> set ls"
  shows "\<exists>a b. concat pieces = a @ l @ b"
proof -
  have "l \<in> set pieces" using assms by (metis mset_subset_eqD set_mset_mset)
  then obtain xs ys where "pieces = xs @ l # ys" by (metis split_list)
  then have "concat pieces = concat xs @ l @ concat ys" by simp
  then show ?thesis by blast
qed

lemma published_line:
  assumes "a \<in> set alerts"
  shows "\<exists>subject msg. sns_Send alerts = Some (subject, msg) \<and> length subject \<le> 100 \<and>
    length msg \<le> snsMaxMessageBytes \<and>
    (if length (buildExpiryText alerts) \<le> snsMaxMessageBytes then \<exists>u v. msg = u @ expiry_line a @ v
     else \<exists>part. msg = part @ snsTruncationNotice)"
proof -
  have "alerts \<noteq> []" using assms by auto
  then obtain subject msg where sent: "sns_Send alerts = Some (subject, msg)"
    by (simp add: sns_Send_def)
  have "\<exists>u v. msg = u @ expiry_line a @ v"
    if p: "msg = concat pieces" "mset (map expiry_line alerts) \<subseteq># mset pieces" for pieces
    using line_in_pieces [OF p(2), of "expiry_line a"] assms p(1) by simp
  with sns_alerts_complete [OF sent] sent show ?thesis by (metis (no_types, lifting))
qed

lemma wanted_handed:
  assumes "\<forall>n. \<not> faults n" "jd_canonical jd" "stored_ok d" "0 \<le> now" "sends \<noteq> []"
    and "CheckAndNotify faults jd cfg now now' sends d = (out, d')"
    and "r \<in> set (wanted cfg now now' d)"
  shows "NewAlert r now' (cfRemindDays cfg) \<in> set (handed out) \<and>
    (True \<in> set sends \<longrightarrow> alert_key (NewAlert r now' (cfRemindDays cfg)) \<in> set (dbLog d'))"
proof -
  note exact = check_exact_lemma [OF assms(1-6)]
  from exact have "set (map aRes (handed out)) = set (wanted cfg now now' d)" by (metis mset_eq_setD)
  with assms(7) have "r \<in> aRes ` set (handed out)" by simp
  then obtain a where a: "a \<in> set (handed out)" "aRes a = r" by blast
  with exact have "a = NewAlert r now' (cfRemindDays cfg)" by metis
  with a exact show ?thesis by auto
qed

section \<open>From the cloud to the store\<close>

text \<open>
  C9. When the calls of an account all succeed and the database has no faults, a synchronisation leaves
  in the store exactly the rows made from what AWS reports for that account: one for every savings plan
  of every page, and behind them those of every call of every region, whatever happens to the other accounts; and the IDs in
  the store keep the accounts apart, as they did before. This is for an account with at least one row
  (\<open>SyncAll\<close> keeps the old rows of one without any) whose resources have IDs of their own, among accounts with
  numbers of their own.
\<close>

theorem reached_account_mirrored:
  assumes "\<forall>n. \<not> faults n" "fetched_from ov ord clouds as fetch" "accounts_apart as" "keyed d"
    and "i < length as" "\<not> acSNSOnly (as ! i)" "account_reached ov (clouds i) (as ! i)"
    and "fetch i = (items, errs)" "items \<noteq> []" "distinct (map ID items)"
  shows "(\<exists>n. rows_of (acAccountID (as ! i)) (snd (SyncAll faults clock fetch gpu_fetch as d)) =
        map (to_row (clock n)) items) \<and>
    (\<exists>plans plan_rows. pages (awPlans (clouds i)) None plans \<and>
      list_all2 (row_of_plan ov ord (clouds i) (as ! i)) plans plan_rows \<and>
      items = plan_rows @ called_rows ov (clouds i) (as ! i)) \<and>
    keyed (snd (SyncAll faults clock fetch gpu_fetch as d))"
proof (intro conjI)
  show "\<exists>n. rows_of (acAccountID (as ! i)) (snd (SyncAll faults clock fetch gpu_fetch as d)) =
      map (to_row (clock n)) items"
    using mirrored_account [OF assms(1-6,8-10,7)] .
  have "SyncAccount ov ord (clouds i) (as ! i) = Some (items, errs)"
    using assms(2,5,6,8) by (simp add: fetched_from_def)
  then show "\<exists>plans plan_rows. pages (awPlans (clouds i)) None plans \<and>
      list_all2 (row_of_plan ov ord (clouds i) (as ! i)) plans plan_rows \<and>
      items = plan_rows @ called_rows ov (clouds i) (as ! i)"
    using assms(9,7) by (rule reached_items)
  show "keyed (snd (SyncAll faults clock fetch gpu_fetch as d))" by (rule keyed_SyncAll [OF assms(2-4)])
qed

text \<open>A store with a row of the account that AWS no longer reports.\<close>

definition gone_row :: res_row where
  "gone_row = to_row 0 (base_row (fetch_account []) ''eu'' TypeRI ''ri-0'')"

definition cloud_db :: db where
  "cloud_db = \<lparr>dbRes = [gone_row], dbGpu = [], dbLog = [], dbStmts = 0\<rparr>"

lemma gone_row_keyed: "row_keyed gone_row"
  unfolding gone_row_def
  by (rule row_keyed_to_row) (simp add: item_keyed_def base_row_def account_number_def fetch_account_def)

lemma cloud_facts:
  "keyed cloud_db" "accounts_apart [fetch_account skip]"
  "AccountID (rrData gone_row) = ''1''" "acAccountID (fetch_account skip) = ''1''" "\<not> acSNSOnly (fetch_account skip)"
  by (simp_all add: keyed_def cloud_db_def gone_row_keyed account_number_def fetch_account_def accounts_apart_def)
    (simp add: gone_row_def to_row_def base_row_def fetch_account_def)

lemma cloud_fetches:
  "fetched_from Map.empty id (\<lambda>_. sample_aws) [fetch_account []]
     (\<lambda>_. (sample_rows_for (fetch_account []), [''prod/eu/MemoryDB-RI: denied'']))"
  "fetched_from Map.empty id (\<lambda>_. sample_aws) [fetch_account [TypeMemoryDBRI]]
     (\<lambda>_. (sample_rows_for (fetch_account [TypeMemoryDBRI]), []))"
  "\<not> account_reached Map.empty sample_aws (fetch_account [])"
  "account_reached Map.empty sample_aws (fetch_account [TypeMemoryDBRI])"
  using sample_sync reached_errors [OF sample_sync(1)] reached_errors [OF sample_sync(2)]
  by (simp_all add: fetched_from_def) (simp add: fetch_account_def)

lemma sample_rows_distinct: "distinct (map ID (sample_rows_for (fetch_account skip)))"
  by (simp add: sample_rows_for_def canonical_id_def queued_plan_def sample_ri_def fetch_account_def)

lemma reached_account_mirrored_witness:
  "\<exists>n. rows_of ''1'' (snd (SyncAll (\<lambda>n. False) (\<lambda>n. int n)
      (\<lambda>_. (sample_rows_for (fetch_account [TypeMemoryDBRI]), [])) (\<lambda>_. ([], []))
      [fetch_account [TypeMemoryDBRI]] cloud_db)) =
    map (to_row (int n)) (sample_rows_for (fetch_account [TypeMemoryDBRI]))"
  using reached_account_mirrored [OF _ cloud_fetches(2) cloud_facts(2,1), of "\<lambda>n. False" 0
      "sample_rows_for (fetch_account [TypeMemoryDBRI])" "[]" "\<lambda>n. int n" "\<lambda>_. ([], [])"]
    cloud_facts(4,5) [of "[TypeMemoryDBRI]"] cloud_fetches(4) sample_rows_distinct [of "[TypeMemoryDBRI]"]
  by (simp add: sample_rows_for_def)

text \<open>
  C10. When some call of an account fails, or one of its plans has an end that cannot be read, no row
  of the account is lost, whatever else fails at AWS or in the database: each is still there,
  and as it was unless it was fetched again.
\<close>

theorem unreached_account_kept:
  assumes "fetched_from ov ord clouds as fetch" "accounts_apart as"
    and "i < length as" "\<not> acSNSOnly (as ! i)" "\<not> account_reached ov (clouds i) (as ! i)"
    and "row \<in> set (dbRes d)" "AccountID (rrData row) = acAccountID (as ! i)"
  shows "survives (fetched_ids fetch) row (snd (SyncAll faults clock fetch gpu_fetch as d))"
proof (rule SyncAll_keeps_rows [OF assms(6)])
  have "acAccountID (as ! i) \<noteq> []" using assms(2-4) by (auto simp: accounts_apart_def account_number_def)
  with assms(3,4,7) show "\<exists>a \<in> set as. acAccountID a = AccountID (rrData row) \<and> \<not> acSNSOnly a \<and> acAccountID a \<noteq> []"
    by (metis nth_mem)
  show "merged_only (AccountID (rrData row)) fetch 0 as"
    unfolding assms(7) by (rule unreached_merged [OF assms(1-5)])
qed

lemma unreached_account_kept_witness:
  "survives (fetched_ids (\<lambda>_. (sample_rows_for (fetch_account []), [''prod/eu/MemoryDB-RI: denied''])))
     gone_row (snd (SyncAll (\<lambda>n. n = 1) (\<lambda>n. 0)
       (\<lambda>_. (sample_rows_for (fetch_account []), [''prod/eu/MemoryDB-RI: denied''])) (\<lambda>_. ([], []))
       [fetch_account []] cloud_db))"
  by (rule unreached_account_kept [OF cloud_fetches(1) cloud_facts(2), of 0])
    (simp_all add: cloud_facts cloud_fetches(3), simp add: cloud_db_def)

section \<open>From the store to the subscriber\<close>

text \<open>
  C33. Every stored reservation that is due and whose reminder is not in the log is in the message that a check
  publishes to SNS: its line with the days left is there, within the limits of SNS, unless the
  message is too long, which it then says; and when a notifier accepts the alerts, the reminder
  is in the log.
\<close>

theorem due_reservation_published:
  assumes "\<forall>n. \<not> faults n" "jd_canonical jd" "stored_ok d" "0 \<le> now" "sends \<noteq> []"
    and "CheckAndNotify faults jd cfg now now' sends d = (out, d')"
    and "row \<in> set (dbRes d)" "due now (MaxRemindDays cfg) (read_row row)"
    and "alert_key (NewAlert (read_row row) now' (cfRemindDays cfg)) \<notin> set (dbLog d)"
  shows "(\<exists>subject msg. sns_Send (handed out) = Some (subject, msg) \<and> length subject \<le> 100 \<and>
      length msg \<le> snsMaxMessageBytes \<and>
      (if length (buildExpiryText (handed out)) \<le> snsMaxMessageBytes
       then \<exists>u v. msg = u @ expiry_line (NewAlert (read_row row) now' (cfRemindDays cfg)) @ v
       else \<exists>part. msg = part @ snsTruncationNotice)) \<and>
    (True \<in> set sends \<longrightarrow> alert_key (NewAlert (read_row row) now' (cfRemindDays cfg)) \<in> set (dbLog d'))"
proof -
  have "read_row row \<in> set (wanted cfg now now' d)" using assms(7-9) by (simp add: wanted_def)
  from wanted_handed [OF assms(1-6) this] published_line show ?thesis by blast
qed

lemma due_reservation_published_witness:
  "\<exists>out d' subject msg. CheckAndNotify (\<lambda>n. False) sample_jd DefaultConfig 0 0 [False, True]
      (sample_db\<lparr>dbRes := [to_row 0 (sample_res ''a'' ''1'' Day)]\<rparr>) = (out, d') \<and>
     sns_Send (handed out) = Some (subject, msg) \<and> length msg \<le> snsMaxMessageBytes \<and> dbLog d' \<noteq> []"
proof -
  let ?row = "to_row 0 (sample_res ''a'' ''1'' Day)"
  let ?d = "sample_db\<lparr>dbRes := [?row]\<rparr>"
  have t: "times_ok (sample_res ''a'' ''1'' Day)"
    by (simp add: times_ok_def sample_res_def zero_reservation_def storable_0 storable_day)
  then have ok: "stored_ok ?d" using canonical_to_row [OF t] by (simp add: stored_ok_def)
  have due: "due 0 (MaxRemindDays DefaultConfig) (read_row ?row)" by code_simp
  obtain out d' where c: "CheckAndNotify (\<lambda>n. False) sample_jd DefaultConfig 0 0 [False, True] ?d = (out, d')"
    by (metis surj_pair)
  from due_reservation_published [OF _ sample_jd ok order_refl _ c _ due] c show ?thesis
    by (fastforce simp: sample_db_def)
qed

end
