(* ===== verification/RateLimit.thy ===== *)
theory RateLimit
  imports GoTime
begin

text \<open>
  The login limiter of \<^verbatim>\<open>auth/ratelimit.go\<close>. Its state is the attempts map, a list of
  entries with distinct keys whose order is the order in which Go ranges over the map, with
  the two settings. \<open>l.now()\<close> is the argument \<open>now\<close>; the mutex makes each operation one
  step. The lemmas show that locked entries are never dropped, that the map stays bounded,
  and that one key gets at most \<open>max\<close> attempts in any span shorter than the window.
\<close>

record attemptRecord =
  count :: int
  lockedUntil :: gotime
  lastSeen :: gotime

type_synonym attempts = "(string \<times> attemptRecord) list"

record LoginLimiter =
  attempts :: attempts
  maxAttempts :: int
  window :: duration

definition maxLimiterKeys :: nat where
  "maxLimiterKeys = 50000"

definition NewLoginLimiter :: "int \<Rightarrow> duration \<Rightarrow> LoginLimiter" where
  "NewLoginLimiter mx w =
     \<lparr>attempts = [], maxAttempts = (if mx \<le> 0 then 5 else mx),
      window = (if w \<le> 0 then 15 * 60 * nano else w)\<rparr>"

section \<open>Pruning\<close>

definition is_locked :: "gotime \<Rightarrow> attemptRecord \<Rightarrow> bool" where
  "is_locked now rec \<longleftrightarrow> Before now (lockedUntil rec)"

definition drop_stale :: "gotime \<Rightarrow> duration \<Rightarrow> attempts \<Rightarrow> attempts" where
  "drop_stale now w es =
     filter (\<lambda>(key, rec). is_locked now rec \<or> \<not> Before (lastSeen rec) (now - w)) es"

text \<open>The scan for the entry that was seen longest ago; the empty key means none was found.\<close>

fun scan_oldest :: "gotime \<Rightarrow> string \<Rightarrow> gotime \<Rightarrow> attempts \<Rightarrow> string" where
  "scan_oldest now oldestKey oldest [] = oldestKey"
| "scan_oldest now oldestKey oldest ((key, rec) # es) =
     (if is_locked now rec then scan_oldest now oldestKey oldest es
      else if oldestKey = [] \<or> Before (lastSeen rec) oldest
      then scan_oldest now key (lastSeen rec) es
      else scan_oldest now oldestKey oldest es)"

lemma scan_oldest_unlocked:
  "scan_oldest now k t es \<noteq> k \<Longrightarrow>
   \<exists>rec. (scan_oldest now k t es, rec) \<in> set es \<and> \<not> is_locked now rec"
proof (induction es arbitrary: k t)
  case Nil
  then show ?case by simp
next
  case (Cons e es)
  obtain key rec where e: "e = (key, rec)" by (cases e)
  show ?case
  proof (cases "\<not> is_locked now rec \<and> (k = [] \<or> Before (lastSeen rec) t)")
    case True
    then have eq: "scan_oldest now k t (e # es) = scan_oldest now key (lastSeen rec) es"
      by (simp add: e)
    show ?thesis
    proof (cases "scan_oldest now key (lastSeen rec) es = key")
      case True
      with \<open>\<not> is_locked now rec \<and> _\<close> eq e show ?thesis by auto
    next
      case False
      from Cons.IH [OF this] eq show ?thesis by auto
    qed
  next
    case False
    then have "scan_oldest now k t (e # es) = scan_oldest now k t es" by (auto simp: e)
    with Cons show ?thesis by auto
  qed
qed

function drop_oldest :: "gotime \<Rightarrow> attempts \<Rightarrow> attempts" where
  "drop_oldest now es =
     (if length es \<ge> maxLimiterKeys
      then (let oldestKey = scan_oldest now [] 0 es
            in if oldestKey = [] then es
               else drop_oldest now (delete_key fst oldestKey es))
      else es)"
  by pat_completeness auto
termination
proof (relation "measure (\<lambda>(now, es). length es)", goal_cases)
  case (2 now es k)
  then obtain rec where "(k, rec) \<in> set es"
    using scan_oldest_unlocked [of now "[]" 0 es] by auto
  then show ?case unfolding delete_key_def by (auto intro: length_filter_less)
qed simp

declare drop_oldest.simps [simp del]

definition pruneLocked :: "gotime \<Rightarrow> LoginLimiter \<Rightarrow> LoginLimiter" where
  "pruneLocked now l = l\<lparr>attempts := drop_oldest now (drop_stale now (window l) (attempts l))\<rparr>"

section \<open>The operations\<close>

definition set_attempt :: "string \<Rightarrow> attemptRecord \<Rightarrow> LoginLimiter \<Rightarrow> LoginLimiter" where
  "set_attempt key rec l =
     l\<lparr>attempts := upsert_key fst (\<lambda>_ new. new) (key, rec) (attempts l)\<rparr>"

definition lookup_attempt :: "string \<Rightarrow> LoginLimiter \<Rightarrow> attemptRecord option" where
  "lookup_attempt key l = map_option snd (find_key fst key (attempts l))"

definition Reserve :: "gotime \<Rightarrow> string \<Rightarrow> LoginLimiter \<Rightarrow> (bool \<times> duration) \<times> LoginLimiter" where
  "Reserve now key l0 =
     (let l = pruneLocked now l0 in
      case lookup_attempt key l of
        None \<Rightarrow>
          ((True, 0), set_attempt key \<lparr>count = 1, lockedUntil = 0, lastSeen = now\<rparr> l)
      | Some rec0 \<Rightarrow>
          if Before now (lockedUntil rec0) then ((False, Sub (lockedUntil rec0) now), l)
          else
            (let rec1 = (if \<not> IsZero (lockedUntil rec0)
                         then rec0\<lparr>lockedUntil := 0, count := 0\<rparr> else rec0);
                 rec2 = rec1\<lparr>lastSeen := now\<rparr>
             in if count rec2 \<ge> maxAttempts l
                then ((False, window l),
                      set_attempt key (rec2\<lparr>lockedUntil := now + window l, count := 0\<rparr>) l)
                else ((True, 0), set_attempt key (rec2\<lparr>count := count rec2 + 1\<rparr>) l)))"

definition Succeed :: "string \<Rightarrow> LoginLimiter \<Rightarrow> LoginLimiter" where
  "Succeed key l = l\<lparr>attempts := delete_key fst key (attempts l)\<rparr>"

section \<open>What pruning keeps\<close>

lemma set_drop_stale:
  "(key, rec) \<in> set (drop_stale now w es) \<longleftrightarrow>
   (key, rec) \<in> set es \<and> (is_locked now rec \<or> now - w \<le> lastSeen rec)"
  by (auto simp: drop_stale_def Before_def)

lemma drop_oldest_subset: "set (drop_oldest now es) \<subseteq> set es"
proof (induction now es rule: drop_oldest.induct)
  case (1 now es)
  then show ?case by (subst drop_oldest.simps) (auto simp: Let_def delete_key_def)
qed

lemma drop_oldest_distinct:
  "distinct (map fst es) \<Longrightarrow> distinct (map fst (drop_oldest now es))"
proof (induction now es rule: drop_oldest.induct)
  case (1 now es)
  then show ?case by (subst drop_oldest.simps) (simp add: Let_def distinct_delete_key)
qed

lemma drop_oldest_keeps_locked:
  "distinct (map fst es) \<Longrightarrow> (key, rec) \<in> set es \<Longrightarrow> is_locked now rec \<Longrightarrow>
   (key, rec) \<in> set (drop_oldest now es)"
proof (induction now es rule: drop_oldest.induct)
  case (1 now es)
  show ?case
  proof (cases "length es \<ge> maxLimiterKeys \<and> scan_oldest now [] 0 es \<noteq> []")
    case True
    let ?k = "scan_oldest now [] 0 es"
    from True obtain old where old: "(?k, old) \<in> set es" "\<not> is_locked now old"
      using scan_oldest_unlocked [of now "[]" 0 es] by auto
    have "?k \<noteq> key"
      using old 1(2-4) by (metis eq_key_imp_eq_value)
    then have "(key, rec) \<in> set (delete_key fst ?k es)" using 1(3) by (auto simp: delete_key_def)
    with True 1 show ?thesis by (subst drop_oldest.simps) (simp add: Let_def distinct_delete_key)
  next
    case False
    with 1(3) show ?thesis by (subst drop_oldest.simps) (auto simp: Let_def)
  qed
qed

lemma drop_oldest_small: "length es < maxLimiterKeys \<Longrightarrow> drop_oldest now es = es"
  by (subst drop_oldest.simps) simp

lemma scan_oldest_nonempty:
  "k \<noteq> [] \<or> (\<exists>(key, rec) \<in> set es. \<not> is_locked now rec) \<Longrightarrow> [] \<notin> fst ` set es \<Longrightarrow>
   scan_oldest now k t es \<noteq> []"
proof (induction es arbitrary: k t)
  case Nil
  then show ?case by simp
next
  case (Cons e es)
  obtain key rec where e: "e = (key, rec)" by (cases e)
  have ne: "key \<noteq> []" "[] \<notin> fst ` set es" using Cons.prems(2) e by auto
  show ?case
  proof (cases "is_locked now rec")
    case True
    then have "k \<noteq> [] \<or> (\<exists>(key, rec) \<in> set es. \<not> is_locked now rec)"
      using Cons.prems(1) e by auto
    from Cons.IH [OF this ne(2)] True e show ?thesis by simp
  next
    case False
    with Cons.IH [of key] Cons.IH [of k] ne e show ?thesis by auto
  qed
qed

lemma drop_oldest_bound:
  "[] \<notin> fst ` set es \<Longrightarrow>
   length (drop_oldest now es) < maxLimiterKeys \<or>
   (\<forall>(key, rec) \<in> set (drop_oldest now es). is_locked now rec)"
proof (induction now es rule: drop_oldest.induct)
  case (1 now es)
  show ?case
  proof (cases "length es \<ge> maxLimiterKeys \<and> scan_oldest now [] 0 es \<noteq> []")
    case True
    have "[] \<notin> fst ` set (delete_key fst (scan_oldest now [] 0 es) es)"
      using 1(2) by (auto simp: delete_key_def)
    with True 1 show ?thesis by (subst (1 2) drop_oldest.simps) (simp add: Let_def)
  next
    case False
    then show ?thesis
      using scan_oldest_nonempty [of "[]" es now 0] 1(2)
      by (subst (1 2) drop_oldest.simps) (auto simp: Let_def)
  qed
qed

section \<open>The invariant\<close>

definition limiter_wf :: "LoginLimiter \<Rightarrow> bool" where
  "limiter_wf l \<longleftrightarrow>
     distinct (map fst (attempts l)) \<and> 0 < maxAttempts l \<and> 0 < window l \<and>
     (\<forall>(key, rec) \<in> set (attempts l). 0 \<le> count rec)"

lemma limiter_wf_new: "limiter_wf (NewLoginLimiter mx w)"
  by (simp add: limiter_wf_def NewLoginLimiter_def nano_def)

lemma limiter_settings [simp]:
  "maxAttempts (pruneLocked now l) = maxAttempts l" "window (pruneLocked now l) = window l"
  "maxAttempts (set_attempt k r l) = maxAttempts l" "window (set_attempt k r l) = window l"
  "maxAttempts (Succeed k l) = maxAttempts l" "window (Succeed k l) = window l"
  by (simp_all add: pruneLocked_def set_attempt_def Succeed_def)

lemma limiter_wf_prune: "limiter_wf l \<Longrightarrow> limiter_wf (pruneLocked now l)"
proof -
  assume wf: "limiter_wf l"
  have "set (attempts (pruneLocked now l)) \<subseteq> set (attempts l)"
    using drop_oldest_subset [of now "drop_stale now (window l) (attempts l)"]
    by (auto simp: pruneLocked_def drop_stale_def)
  moreover have "distinct (map fst (attempts (pruneLocked now l)))"
    using wf by (simp add: limiter_wf_def pruneLocked_def drop_oldest_distinct
        distinct_filter_keys drop_stale_def)
  ultimately show "limiter_wf (pruneLocked now l)" using wf unfolding limiter_wf_def by auto
qed

lemma limiter_wf_set: "limiter_wf l \<Longrightarrow> 0 \<le> count r \<Longrightarrow> limiter_wf (set_attempt k r l)"
proof -
  have "(key, rec) \<in> set (upsert_key fst (\<lambda>_ new. new) (k, r) es) \<Longrightarrow> rec = r \<or> (key, rec) \<in> set es"
    for key rec and es :: attempts
    by (induction es) (auto split: if_splits)
  then show "limiter_wf l \<Longrightarrow> 0 \<le> count r \<Longrightarrow> limiter_wf (set_attempt k r l)"
    by (fastforce simp: limiter_wf_def set_attempt_def distinct_upsert_key)
qed

lemma limiter_wf_succeed: "limiter_wf l \<Longrightarrow> limiter_wf (Succeed k l)"
  by (auto simp: limiter_wf_def Succeed_def distinct_delete_key)

lemma attempt_update:
  "rec\<lparr>lastSeen := s, lockedUntil := u, count := c\<rparr> =
   \<lparr>count = c, lockedUntil = u, lastSeen = s\<rparr>"
  "rec\<lparr>lastSeen := s, count := c\<rparr> = \<lparr>count = c, lockedUntil = lockedUntil rec, lastSeen = s\<rparr>"
  by (cases rec; simp)+

lemma reserve_cases:
  obtains (absent) "lookup_attempt key (pruneLocked now l) = None"
      "Reserve now key l = ((True, 0), set_attempt key
        \<lparr>count = 1, lockedUntil = 0, lastSeen = now\<rparr> (pruneLocked now l))"
  | (locked) rec where "lookup_attempt key (pruneLocked now l) = Some rec"
      "now < lockedUntil rec"
      "Reserve now key l = ((False, Sub (lockedUntil rec) now), pruneLocked now l)"
  | (lockout) rec rec' where "lookup_attempt key (pruneLocked now l) = Some rec"
      "\<not> now < lockedUntil rec"
      "rec' = \<lparr>count = 0, lockedUntil = now + window l, lastSeen = now\<rparr>"
      "Reserve now key l = ((False, window l), set_attempt key rec' (pruneLocked now l))"
      "(if lockedUntil rec = 0 then count rec else 0) \<ge> maxAttempts l"
  | (counted) rec rec' where "lookup_attempt key (pruneLocked now l) = Some rec"
      "\<not> now < lockedUntil rec"
      "rec' = \<lparr>count = (if lockedUntil rec = 0 then count rec else 0) + 1, lockedUntil = 0,
         lastSeen = now\<rparr>"
      "Reserve now key l = ((True, 0), set_attempt key rec' (pruneLocked now l))"
      "(if lockedUntil rec = 0 then count rec else 0) < maxAttempts l"
proof (cases "lookup_attempt key (pruneLocked now l)")
  case None
  then show ?thesis by (intro absent) (simp_all add: Reserve_def Let_def)
next
  case (Some rec)
  note r = Some
  show ?thesis
  proof (cases "now < lockedUntil rec")
    case True
    with r show ?thesis by (intro locked) (simp_all add: Reserve_def Let_def Before_def)
  next
    case False
    show ?thesis
    proof (cases "(if lockedUntil rec = 0 then count rec else 0) \<ge> maxAttempts l")
      case True
      with r False show ?thesis
        by (intro lockout [OF r False refl])
           (auto simp: Reserve_def Let_def Before_def IsZero_def attempt_update split: if_splits)
    next
      case le: False
      with r False show ?thesis
        by (intro counted [OF r False refl])
           (auto simp: Reserve_def Let_def Before_def IsZero_def attempt_update split: if_splits)
    qed
  qed
qed

lemma lookup_attempt_mem:
  "distinct (map fst (attempts l)) \<Longrightarrow>
   lookup_attempt k l = Some rec \<longleftrightarrow> (k, rec) \<in> set (attempts l)"
  unfolding lookup_attempt_def
  using find_key_Some [of fst k "attempts l"] find_key_mem [of fst "attempts l" "(k, rec)"] by force

lemma lookup_count_nonneg: "limiter_wf l \<Longrightarrow> lookup_attempt k l = Some rec \<Longrightarrow> 0 \<le> count rec"
  by (auto simp: limiter_wf_def lookup_attempt_mem)

lemma limiter_wf_reserve: "limiter_wf l \<Longrightarrow> limiter_wf (snd (Reserve now key l))"
  using lookup_count_nonneg [OF limiter_wf_prune, of l key now]
  by (cases rule: reserve_cases [of key now l])
     (simp_all add: limiter_wf_prune limiter_wf_set)

section \<open>Lookups after an operation\<close>

lemma lookup_set_attempt [simp]:
  "lookup_attempt k (set_attempt key rec l) = (if k = key then Some rec else lookup_attempt k l)"
  by (simp add: lookup_attempt_def set_attempt_def find_key_upsert_key split: option.splits)

lemma lookup_succeed [simp]:
  "lookup_attempt k (Succeed key l) = (if k = key then None else lookup_attempt k l)"
  by (simp add: lookup_attempt_def Succeed_def)

lemma lookup_prune_small:
  assumes "limiter_wf l" "length (attempts l) < maxLimiterKeys" "lookup_attempt k l = Some rec"
    and "is_locked t rec \<or> t - window l \<le> lastSeen rec"
  shows "lookup_attempt k (pruneLocked t l) = Some rec"
proof -
  have "length (drop_stale t (window l) (attempts l)) < maxLimiterKeys"
    using assms(2) unfolding drop_stale_def by (rule le_less_trans [OF length_filter_le])
  then have "attempts (pruneLocked t l) = drop_stale t (window l) (attempts l)"
    by (simp add: pruneLocked_def drop_oldest_small)
  with assms limiter_wf_prune [OF assms(1), of t] show ?thesis
    by (simp add: lookup_attempt_mem limiter_wf_def set_drop_stale)
qed

lemma lookup_prune_locked:
  assumes "limiter_wf l" "lookup_attempt k l = Some rec" "is_locked t rec"
  shows "lookup_attempt k (pruneLocked t l) = Some rec"
proof -
  let ?es = "drop_stale t (window l) (attempts l)"
  have "distinct (map fst ?es)" "(k, rec) \<in> set ?es"
    using assms by (auto simp: limiter_wf_def drop_stale_def distinct_filter_keys lookup_attempt_mem)
  from drop_oldest_keeps_locked [OF this assms(3)]
  show ?thesis
    using limiter_wf_prune [OF assms(1), of t]
    by (simp add: lookup_attempt_mem limiter_wf_def) (simp add: pruneLocked_def)
qed

lemma lookup_prune_Some:
  "limiter_wf l \<Longrightarrow> lookup_attempt k (pruneLocked t l) = Some rec \<Longrightarrow> lookup_attempt k l = Some rec"
  using limiter_wf_prune [of l t]
    subsetD [OF drop_oldest_subset, of "(k, rec)" t "drop_stale t (window l) (attempts l)"]
  by (simp add: lookup_attempt_mem limiter_wf_def) (simp add: pruneLocked_def set_drop_stale)

lemma length_set_attempt: "length (attempts (set_attempt k r l)) \<le> Suc (length (attempts l))"
proof -
  have "length (upsert_key fst (\<lambda>_ new. new) x es) \<le> Suc (length es)" for x and es :: attempts
    by (induction es) auto
  then show ?thesis by (simp add: set_attempt_def)
qed

lemma length_drop_oldest: "length (drop_oldest now es) \<le> length es"
proof (induction now es rule: drop_oldest.induct)
  case (1 now es)
  show ?case
  proof (cases "length es \<ge> maxLimiterKeys \<and> scan_oldest now [] 0 es \<noteq> []")
    case True
    with 1 have "length (drop_oldest now es) \<le> length (delete_key fst (scan_oldest now [] 0 es) es)"
      by (subst drop_oldest.simps) (simp add: Let_def)
    then show ?thesis unfolding delete_key_def by (rule order_trans) (rule length_filter_le)
  next
    case False
    then show ?thesis by (subst drop_oldest.simps) (auto simp: Let_def)
  qed
qed

lemma length_prune: "length (attempts (pruneLocked now l)) \<le> length (attempts l)"
  using le_trans [OF length_drop_oldest length_filter_le]
  by (simp add: pruneLocked_def drop_stale_def)

lemma length_reserve: "length (attempts (snd (Reserve t k l))) \<le> Suc (length (attempts l))"
  using length_prune [of t l] length_set_attempt [of k _ "pruneLocked t l"]
  by (cases rule: reserve_cases [of k t l]) (auto intro: order_trans le_SucI)

lemma lookup_reserve_other:
  "key \<noteq> k \<Longrightarrow> lookup_attempt k (snd (Reserve t key l)) = lookup_attempt k (pruneLocked t l)"
  by (cases rule: reserve_cases [of key t l]) simp_all

lemma reserve_settings [simp]:
  "maxAttempts (snd (Reserve t k l)) = maxAttempts l" "window (snd (Reserve t k l)) = window l"
  by (cases rule: reserve_cases [of k t l]; simp)+

section \<open>Runs\<close>

datatype limiter_event = EReserve gotime string | ESucceed string

fun limiter_step :: "limiter_event \<Rightarrow> LoginLimiter \<Rightarrow> LoginLimiter" where
  "limiter_step (EReserve t key) l = snd (Reserve t key l)"
| "limiter_step (ESucceed key) l = Succeed key l"

definition allowed :: "string \<Rightarrow> limiter_event \<Rightarrow> LoginLimiter \<Rightarrow> bool" where
  "allowed k e l \<longleftrightarrow> (\<exists>t. e = EReserve t k \<and> fst (fst (Reserve t k l)))"

lemma allowed_code [code]:
  "allowed k (EReserve t key) l \<longleftrightarrow> key = k \<and> fst (fst (Reserve t key l))"
  "allowed k (ESucceed key) l \<longleftrightarrow> False"
  by (auto simp: allowed_def)

text \<open>How many attempts of key \<open>k\<close> a run lets through.\<close>

fun allowed_attempts :: "string \<Rightarrow> LoginLimiter \<Rightarrow> limiter_event list \<Rightarrow> nat" where
  "allowed_attempts k l [] = 0"
| "allowed_attempts k l (e # es) =
     (if allowed k e l then 1 else 0) + allowed_attempts k (limiter_step e l) es"

lemma limiter_wf_step: "limiter_wf l \<Longrightarrow> limiter_wf (limiter_step e l)"
  by (cases e) (simp_all add: limiter_wf_reserve limiter_wf_succeed)

lemma step_settings [simp]:
  "maxAttempts (limiter_step e l) = maxAttempts l" "window (limiter_step e l) = window l"
  by (cases e; simp)+

lemma length_step: "length (attempts (limiter_step e l)) \<le> Suc (length (attempts l))"
  by (cases e) (simp_all add: length_reserve Succeed_def delete_key_def le_SucI)

text \<open>
  The part of the budget of key \<open>k\<close> that \<open>a\<close> attempts since time \<open>t0\<close> have used: the
  counter is at least \<open>a\<close>, or the key is locked until a full window after \<open>t0\<close>.
\<close>

definition used :: "gotime \<Rightarrow> string \<Rightarrow> nat \<Rightarrow> LoginLimiter \<Rightarrow> bool" where
  "used t0 k a l \<longleftrightarrow>
     int a \<le> maxAttempts l \<and>
     (a = 0 \<or> (\<exists>rec. lookup_attempt k l = Some rec \<and> t0 \<le> lastSeen rec \<and>
       (lockedUntil rec = 0 \<and> int a \<le> count rec \<and> count rec \<le> maxAttempts l \<or>
        t0 + window l \<le> lockedUntil rec)))"

lemma used_reserve_other:
  assumes "limiter_wf l" "length (attempts l) < maxLimiterKeys" "t < t0 + window l"
    and "used t0 k a l" "key \<noteq> k"
  shows "used t0 k a (snd (Reserve t key l))"
proof (cases "a = 0")
  case True
  with assms show ?thesis by (simp add: used_def)
next
  case False
  with assms(4) obtain rec where rec: "lookup_attempt k l = Some rec" "t0 \<le> lastSeen rec"
    "lockedUntil rec = 0 \<and> int a \<le> count rec \<and> count rec \<le> maxAttempts l \<or>
     t0 + window l \<le> lockedUntil rec"
    by (auto simp: used_def)
  then have "lookup_attempt k (pruneLocked t l) = Some rec"
    using assms(1-3) by (intro lookup_prune_small) auto
  with rec assms show ?thesis by (auto simp: used_def lookup_reserve_other)
qed

lemma used_reserve:
  assumes "limiter_wf l" "length (attempts l) < maxLimiterKeys" "0 \<le> t" "t0 \<le> t"
    and "t < t0 + window l" "used t0 k a l"
  shows "used t0 k (if fst (fst (Reserve t k l)) then Suc a else a) (snd (Reserve t k l))"
proof -
  have mx: "0 < maxAttempts l" "0 < window l" using assms(1) by (auto simp: limiter_wf_def)
  have kept: "\<exists>rec. lookup_attempt k (pruneLocked t l) = Some rec \<and>
      (lockedUntil rec = 0 \<and> int a \<le> count rec \<or> t0 + window l \<le> lockedUntil rec)" if "a \<noteq> 0"
  proof -
    from that assms(6) obtain rec where rec: "lookup_attempt k l = Some rec" "t0 \<le> lastSeen rec"
      "lockedUntil rec = 0 \<and> int a \<le> count rec \<or> t0 + window l \<le> lockedUntil rec"
      by (auto simp: used_def)
    then have "lookup_attempt k (pruneLocked t l) = Some rec"
      using assms(1,2,5) by (intro lookup_prune_small) auto
    with rec show ?thesis by auto
  qed
  show ?thesis
  proof (cases rule: reserve_cases [of k t l])
    case absent
    with kept have "a = 0" by auto
    with absent mx assms(4) show ?thesis by (simp add: used_def)
  next
    case (locked rec)
    have "used t0 k a (pruneLocked t l)"
      using assms lookup_prune_small [OF assms(1,2), of k _ t] by (fastforce simp: used_def)
    with locked show ?thesis by simp
  next
    case (lockout rec rec')
    with assms show ?thesis by (simp add: used_def)
  next
    case (counted rec rec')
    then have "a \<noteq> 0 \<Longrightarrow> lockedUntil rec = 0 \<and> int a \<le> count rec"
      using kept assms(5) by fastforce
    moreover have "0 \<le> count rec"
      using lookup_count_nonneg [OF limiter_wf_prune [OF assms(1)] counted(1)] .
    ultimately show ?thesis
      using counted mx assms(4) by (cases "a = 0") (auto simp: used_def)
  qed
qed

text \<open>How often a run releases key \<open>k\<close>, which gives it a new budget.\<close>

definition releases :: "string \<Rightarrow> limiter_event list \<Rightarrow> nat" where
  "releases k es = length (filter (\<lambda>e. e = ESucceed k) es)"

text \<open>The attempts of a run lie within a window from \<open>t0\<close> on.\<close>

definition within_window :: "gotime \<Rightarrow> duration \<Rightarrow> limiter_event \<Rightarrow> bool" where
  "within_window t0 w e \<longleftrightarrow> (\<forall>t key. e = EReserve t key \<longrightarrow> 0 \<le> t \<and> t0 \<le> t \<and> t < t0 + w)"

lemma used_step:
  assumes "limiter_wf l" "length (attempts l) < maxLimiterKeys" "within_window t0 (window l) e"
    and "used t0 k a l" "e \<noteq> ESucceed k"
  shows "used t0 k (if allowed k e l then Suc a else a) (limiter_step e l)"
proof (cases e)
  case (EReserve t key)
  with assms show ?thesis
    using used_reserve [of l t t0 k a] used_reserve_other [of l t t0 k a key]
    by (cases "key = k") (auto simp: allowed_def within_window_def)
next
  case (ESucceed key)
  with assms show ?thesis by (simp add: used_def allowed_def)
qed

lemma allowed_attempts_budget:
  assumes "limiter_wf l" "length (attempts l) + length es \<le> maxLimiterKeys"
    and "\<forall>e \<in> set es. within_window t0 (window l) e" "used t0 k a l"
  shows "int (a + allowed_attempts k l es) \<le> maxAttempts l * (1 + int (releases k es))"
  using assms
proof (induction es arbitrary: l a)
  case Nil
  then show ?case by (simp add: used_def releases_def)
next
  case (Cons e es)
  let ?l = "limiter_step e l"
  have rest: "limiter_wf ?l" "length (attempts ?l) + length es \<le> maxLimiterKeys"
    "\<forall>e \<in> set es. within_window t0 (window ?l) e"
    using length_step [of e l] Cons.prems by (simp_all add: limiter_wf_step)
  show ?case
  proof (cases "e = ESucceed k")
    case True
    have "used t0 k 0 ?l" using rest(1) by (simp add: used_def limiter_wf_def)
    from Cons.IH [OF rest this] have "int (allowed_attempts k ?l es) \<le> maxAttempts l * (1 + int (releases k es))"
      by simp
    moreover have "int a \<le> maxAttempts l" using Cons.prems(4) by (simp add: used_def)
    ultimately show ?thesis by (simp add: True releases_def allowed_def algebra_simps)
  next
    case False
    have "length (attempts l) < maxLimiterKeys" using Cons.prems(2) by simp
    from used_step [OF Cons.prems(1) this _ Cons.prems(4) False] Cons.prems(3)
    have "used t0 k (if allowed k e l then Suc a else a) ?l" by simp
    from Cons.IH [OF rest this] False show ?thesis by (simp add: releases_def split: if_splits)
  qed
qed

text \<open>
  C19. Throttling. Take any state of the limiter and any run of \<open>Reserve\<close> and \<open>Succeed\<close>
  calls on any keys, in any order, whose attempts lie within a span of time shorter than the window, and
  that is too short to fill the attempts map (from its capacity on, new keys drop old ones). A key gets at
  most \<open>max\<close> attempts, and at most \<open>max\<close> more for every \<open>Succeed\<close> on it.
\<close>

theorem reserve_throttles:
  assumes "limiter_wf l" and "length (attempts l) + length es \<le> maxLimiterKeys"
    and "\<forall>t key. EReserve t key \<in> set es \<longrightarrow> 0 \<le> t \<and> t0 \<le> t \<and> t < t0 + window l"
  shows "int (allowed_attempts k l es) \<le> maxAttempts l * (1 + int (releases k es))"
proof -
  have "\<forall>e \<in> set es. within_window t0 (window l) e" using assms(3) by (auto simp: within_window_def)
  moreover have "used t0 k 0 l" using assms(1) by (simp add: used_def limiter_wf_def)
  ultimately show ?thesis using allowed_attempts_budget [OF assms(1,2)] by fastforce
qed

text \<open>Evaluates a short run from an empty limiter.\<close>

lemmas limiter_run = NewLoginLimiter_def Reserve_def pruneLocked_def drop_stale_def drop_oldest_small
  maxLimiterKeys_def lookup_attempt_def set_attempt_def Succeed_def delete_key_def is_locked_def
  Before_def IsZero_def allowed_code Let_def

text \<open>The bound is reached: with a release in between, four attempts at two each.\<close>

definition sample_attempts :: "limiter_event list" where
  "sample_attempts =
     [EReserve 1 ''a'', EReserve 2 ''a'', EReserve 3 ''a'', EReserve 3 ''b'', ESucceed ''a'',
      EReserve 4 ''a'', EReserve 5 ''a'', EReserve 6 ''a'']"

lemma reserve_throttles_witness:
  "int (allowed_attempts ''a'' (NewLoginLimiter 2 900) sample_attempts) \<le> 4 \<and>
   allowed_attempts ''a'' (NewLoginLimiter 2 900) sample_attempts = 4"
proof -
  have "int (allowed_attempts ''a'' (NewLoginLimiter 2 900) sample_attempts) \<le>
      maxAttempts (NewLoginLimiter 2 900) * (1 + int (releases ''a'' sample_attempts))"
    by (rule reserve_throttles [of _ _ 1, OF limiter_wf_new])
      (auto simp: NewLoginLimiter_def maxLimiterKeys_def sample_attempts_def)
  moreover have "releases ''a'' sample_attempts = 1" by (simp add: releases_def sample_attempts_def)
  moreover have "allowed_attempts ''a'' (NewLoginLimiter 2 900) sample_attempts = 4"
    by (simp add: sample_attempts_def limiter_run)
  ultimately show ?thesis by (simp add: NewLoginLimiter_def)
qed

text \<open>
  A lockout holds. While a key is locked, \<open>Reserve\<close> refuses it, reports the time
  that is left, and leaves its entry as it is; calls for other keys leave it too, even
  when the map overflows and entries are dropped.
\<close>

theorem lockout_holds:
  assumes "limiter_wf l" and "lookup_attempt k l = Some rec" and "now < lockedUntil rec"
  shows "fst (Reserve now k l) = (False, Sub (lockedUntil rec) now) \<and>
    lookup_attempt k (snd (Reserve now key l)) = Some rec"
proof -
  have kept: "lookup_attempt k (pruneLocked now l) = Some rec"
    using assms by (intro lookup_prune_locked) (simp_all add: is_locked_def Before_def)
  then have "fst (Reserve now k l) = (False, Sub (lockedUntil rec) now)"
    "lookup_attempt k (snd (Reserve now k l)) = Some rec"
    using assms(3) by (simp_all add: Reserve_def Before_def Let_def)
  with kept show ?thesis by (cases "key = k") (simp_all add: lookup_reserve_other)
qed

lemma lockout_holds_witness:
  "fst (Reserve 5 ''a'' \<lparr>attempts = [(''a'', \<lparr>count = 0, lockedUntil = 9, lastSeen = 1\<rparr>)],
      maxAttempts = 5, window = 8\<rparr>) = (False, 4)"
  using lockout_holds [of "\<lparr>attempts = [(''a'', \<lparr>count = 0, lockedUntil = 9, lastSeen = 1\<rparr>)],
      maxAttempts = 5, window = 8\<rparr>" "''a''" "\<lparr>count = 0, lockedUntil = 9, lastSeen = 1\<rparr>" 5 "''a''"]
  by (simp add: limiter_wf_def lookup_attempt_def Sub_def sat64_def)

text \<open>
  The map stays bounded: after any \<open>Reserve\<close> there are at most \<open>maxLimiterKeys\<close>
  entries, unless every entry the pruning left is locked out. (The empty key, which no
  caller uses, is the scan's marker for having found nothing.)
\<close>

theorem reserve_bounds_map:
  assumes "[] \<notin> fst ` set (attempts l)"
  shows "length (attempts (snd (Reserve now key l))) \<le> maxLimiterKeys \<or>
    (\<forall>(k, rec) \<in> set (attempts (pruneLocked now l)). now < lockedUntil rec)"
proof -
  have "[] \<notin> fst ` set (drop_stale now (window l) (attempts l))"
    using assms by (auto simp: drop_stale_def)
  from drop_oldest_bound [OF this, of now]
  have "length (attempts (pruneLocked now l)) < maxLimiterKeys \<or>
      (\<forall>(k, rec) \<in> set (attempts (pruneLocked now l)). now < lockedUntil rec)"
    by (simp add: pruneLocked_def is_locked_def Before_def)
  moreover have "length (attempts (snd (Reserve now key l))) \<le>
      Suc (length (attempts (pruneLocked now l)))"
    using length_set_attempt [of key _ "pruneLocked now l"]
    by (cases rule: reserve_cases [of key now l]) simp_all
  ultimately show ?thesis by (metis Suc_le_eq order_trans)
qed

lemma reserve_bounds_map_witness:
  "length (attempts (snd (Reserve 1 ''a'' (NewLoginLimiter 5 900)))) \<le> maxLimiterKeys"
proof -
  have "[] \<notin> fst ` set (attempts (NewLoginLimiter 5 900))" by (simp add: NewLoginLimiter_def)
  from reserve_bounds_map [OF this, of 1 "''a''"] show ?thesis
  proof
    assume "\<forall>(k, rec) \<in> set (attempts (pruneLocked 1 (NewLoginLimiter 5 900))). 1 < lockedUntil rec"
    show ?thesis
      using length_reserve [of 1 "''a''" "NewLoginLimiter 5 900"]
      by (simp add: NewLoginLimiter_def maxLimiterKeys_def)
  qed
qed

end
