(* ===== verification/Session.thy ===== *)
theory Session
  imports GoTime Password
begin

text \<open>
  The in-memory session store of \<^verbatim>\<open>auth/session.go\<close>. The sessions map is a list of entries
  with distinct tokens; \<open>s.now()\<close> is the argument \<open>now\<close>, and a read of the random source
  is the bytes it returned, or \<open>None\<close>.

  The locale \<open>session_registry\<close> states what the HTTP handlers rely on: the store behaves
  as a map from tokens to the sessions that are live at a given time. Its interpretation
  on the model's operations proves the contract; the lemmas of the locale say what a
  whole run of operations leaves of a session.
\<close>

record Session =
  SessionUser :: string
  CreatedAt :: gotime
  ExpiresAt :: gotime

record SessionStore =
  session_map :: "(string \<times> Session) list"
  ttl :: duration

datatype session_error = TokenRandomFailed | TooManySessions nat

definition tokenBytes :: nat where "tokenBytes = 32"
definition maxSessions :: nat where "maxSessions = 10000"

definition NewSessionStore :: "duration \<Rightarrow> SessionStore" where
  "NewSessionStore t = \<lparr>session_map = [], ttl = (if t \<le> 0 then 12 * Hour else t)\<rparr>"

definition prune_sessions :: "gotime \<Rightarrow> SessionStore \<Rightarrow> SessionStore" where
  "prune_sessions now s =
     s\<lparr>session_map := filter (\<lambda>(token, sess). Before now (ExpiresAt sess)) (session_map s)\<rparr>"

definition Create ::
  "gotime \<Rightarrow> string option \<Rightarrow> string \<Rightarrow> SessionStore
   \<Rightarrow> (session_error + string \<times> Session) \<times> SessionStore" where
  "Create now rnd user s0 =
     (case rnd of
        None \<Rightarrow> (Inl TokenRandomFailed, s0)
      | Some raw \<Rightarrow>
          (let token = b64_encode raw; s = prune_sessions now s0
           in if length (session_map s) \<ge> maxSessions
              then (Inl (TooManySessions (length (session_map s))), s)
              else (let sess = \<lparr>SessionUser = user, CreatedAt = now, ExpiresAt = now + ttl s\<rparr>
                    in (Inr (token, sess),
                        s\<lparr>session_map := upsert_key fst (\<lambda>_ new. new) (token, sess) (session_map s)\<rparr>))))"

definition Delete :: "string \<Rightarrow> SessionStore \<Rightarrow> SessionStore" where
  "Delete token s =
     (if token = [] then s else s\<lparr>session_map := delete_key fst token (session_map s)\<rparr>)"

definition Get :: "gotime \<Rightarrow> string \<Rightarrow> SessionStore \<Rightarrow> Session option \<times> SessionStore" where
  "Get now token s =
     (if token = [] then (None, s)
      else case find_key fst token (session_map s) of
             None \<Rightarrow> (None, s)
           | Some (_, sess) \<Rightarrow>
               if \<not> Before now (ExpiresAt sess)
               then (None, s\<lparr>session_map := delete_key fst token (session_map s)\<rparr>)
               else (Some sess, s))"

definition Count :: "gotime \<Rightarrow> SessionStore \<Rightarrow> nat \<times> SessionStore" where
  "Count now s0 = (let s = prune_sessions now s0 in (length (session_map s), s))"

section \<open>The contract\<close>

datatype session_op =
    OpCreate gotime "string option" string
  | OpGet gotime string
  | OpDelete string

fun op_time :: "session_op \<Rightarrow> gotime option" where
  "op_time (OpCreate now rnd user) = Some now"
| "op_time (OpGet now token) = Some now"
| "op_time (OpDelete token) = None"

locale session_registry =
  fixes create :: "gotime \<Rightarrow> string option \<Rightarrow> string \<Rightarrow> 's
      \<Rightarrow> (session_error + string \<times> Session) \<times> 's"
    and get :: "gotime \<Rightarrow> string \<Rightarrow> 's \<Rightarrow> Session option \<times> 's"
    and delete :: "string \<Rightarrow> 's \<Rightarrow> 's"
    and live :: "gotime \<Rightarrow> 's \<Rightarrow> string \<Rightarrow> Session option"
    and lifetime :: "'s \<Rightarrow> duration"
    and wf :: "'s \<Rightarrow> bool"
  assumes get_live: "wf s \<Longrightarrow> fst (get now token s) = live now s token"
    and live_get: "wf s \<Longrightarrow> now \<le> t \<Longrightarrow> live t (snd (get now token s)) = live t s"
    and live_delete: "wf s \<Longrightarrow> token \<noteq> [] \<Longrightarrow> live t (delete token s) = (live t s)(token := None)"
    and delete_empty: "delete [] s = s"
    and live_create: "wf s \<Longrightarrow> create now (Some raw) user s = (Inr (token, sess), s') \<Longrightarrow> raw \<noteq> [] \<Longrightarrow>
      now \<le> t \<Longrightarrow> live t s' = (live t s)(token := (if t < ExpiresAt sess then Some sess else None))"
    and create_session: "create now rnd user s = (Inr (token, sess), s') \<Longrightarrow>
      SessionUser sess = user \<and> ExpiresAt sess = now + lifetime s \<and> rnd \<noteq> None \<and>
      token = b64_encode (the rnd)"
    and live_create_failed: "wf s \<Longrightarrow> create now rnd user s = (Inl e, s') \<Longrightarrow> now \<le> t \<Longrightarrow>
      live t s' = live t s"
    and live_expiry: "live t s token = Some sess \<Longrightarrow> t < ExpiresAt sess"
    and live_later: "live t s token = Some sess \<Longrightarrow> u < ExpiresAt sess \<Longrightarrow> live u s token = Some sess"
    and wf_create: "wf s \<Longrightarrow> wf (snd (create now rnd user s))"
    and wf_get: "wf s \<Longrightarrow> wf (snd (get now token s))"
    and wf_delete: "wf s \<Longrightarrow> wf (delete token s)"
begin

fun apply_op :: "session_op \<Rightarrow> 's \<Rightarrow> 's" where
  "apply_op (OpCreate now rnd user) s = snd (create now rnd user s)"
| "apply_op (OpGet now token) s = snd (get now token s)"
| "apply_op (OpDelete token) s = delete token s"

text \<open>An operation that cannot end the session of a token: not its deletion, and not a
  creation that draws the same random bytes again.\<close>

fun spares :: "string \<Rightarrow> session_op \<Rightarrow> bool" where
  "spares token (OpCreate now rnd user) = (\<forall>raw. rnd = Some raw \<longrightarrow> raw \<noteq> [] \<and> b64_encode raw \<noteq> token)"
| "spares token (OpGet now token') = True"
| "spares token (OpDelete token') = (token' \<noteq> token)"

lemma wf_apply_op: "wf s \<Longrightarrow> wf (apply_op op s)"
  by (cases op) (simp_all add: wf_create wf_get wf_delete)

lemma live_apply_op:
  assumes "wf s" "spares token op" "\<forall>now. op_time op = Some now \<longrightarrow> now \<le> t"
  shows "live t (apply_op op s) token = live t s token"
proof (cases op)
  case (OpCreate now rnd user)
  show ?thesis
  proof (cases "create now rnd user s")
    case (Pair r s')
    show ?thesis
    proof (cases r)
      case (Inl e)
      with Pair OpCreate assms show ?thesis by (simp add: live_create_failed)
    next
      case (Inr p)
      obtain tok sess where p: "p = (tok, sess)" by (cases p)
      have "create now rnd user s = (Inr (tok, sess), s')" using Pair Inr p by simp
      moreover from create_session [OF this] obtain raw where "rnd = Some raw" "tok = b64_encode raw"
        by auto
      ultimately show ?thesis
        using OpCreate assms live_create [of s now raw user tok sess s' t] by auto
    qed
  qed
next
  case (OpGet now tok)
  with assms show ?thesis by (simp add: live_get)
next
  case (OpDelete tok)
  with assms show ?thesis by (cases "tok = []") (simp_all add: live_delete delete_empty)
qed

text \<open>A session survives every run of operations that spare it, until it expires.\<close>

lemma live_run:
  assumes "wf s" "\<forall>op \<in> set ops. spares token op \<and> (\<forall>now. op_time op = Some now \<longrightarrow> now \<le> t)"
  shows "live t (fold apply_op ops s) token = live t s token"
  using assms
proof (induction ops arbitrary: s)
  case (Cons op ops)
  then show ?case using live_apply_op [of s token op t] by (simp add: wf_apply_op)
qed simp

text \<open>A deleted session stays gone, unless the same token is drawn again.\<close>

lemma deleted_run:
  assumes "wf s" "token \<noteq> []"
    and "\<forall>op \<in> set ops. spares token op \<and> (\<forall>now. op_time op = Some now \<longrightarrow> now \<le> t)"
  shows "live t (fold apply_op ops (delete token s)) token = None"
  using live_run [OF wf_delete [OF assms(1)] assms(3)] live_delete [OF assms(1,2)] by simp

end

section \<open>The store fulfils it\<close>

definition sessions_wf :: "SessionStore \<Rightarrow> bool" where
  "sessions_wf s \<longleftrightarrow> distinct (map fst (session_map s)) \<and> 0 < ttl s"

text \<open>The session of a token, if it has one that has not expired at time \<open>t\<close>.\<close>

definition live_session :: "gotime \<Rightarrow> SessionStore \<Rightarrow> string \<Rightarrow> Session option" where
  "live_session t s token =
     (if token = [] then None
      else case find_key fst token (session_map s) of
             None \<Rightarrow> None
           | Some (_, sess) \<Rightarrow> if t < ExpiresAt sess then Some sess else None)"

lemma live_prune: "distinct (map fst (session_map s)) \<Longrightarrow> now \<le> t \<Longrightarrow>
  live_session t (prune_sessions now s) = live_session t s"
proof (rule ext)
  fix token :: string
  assume "distinct (map fst (session_map s))" "now \<le> t"
  then have "find_key fst token (filter (\<lambda>(token, sess). now < ExpiresAt sess) es) =
      (case find_key fst token es of
         None \<Rightarrow> None
       | Some (k, sess) \<Rightarrow> if now < ExpiresAt sess then Some (k, sess) else None)"
    if "distinct (map fst es)" for es :: "(string \<times> Session) list"
    using that
  proof (induction es)
    case (Cons e es)
    then show ?case using find_key_None [of fst token es] by (cases e) (auto split: if_splits)
  qed simp
  with \<open>distinct _\<close> \<open>now \<le> t\<close> show "live_session t (prune_sessions now s) token = live_session t s token"
    by (auto simp: live_session_def prune_sessions_def Before_def split: option.splits)
qed

lemma sessions_wf_prune: "sessions_wf s \<Longrightarrow> sessions_wf (prune_sessions now s)"
  by (simp add: sessions_wf_def prune_sessions_def distinct_filter_keys)

lemma live_delete_session:
  "token \<noteq> [] \<Longrightarrow> live_session t (s\<lparr>session_map := delete_key fst token (session_map s)\<rparr>) =
     (live_session t s)(token := None)"
  by (rule ext) (auto simp: live_session_def)

lemma live_upsert_session:
  "token \<noteq> [] \<Longrightarrow>
   live_session t (s\<lparr>session_map := upsert_key fst (\<lambda>_ new. new) (token, sess) (session_map s)\<rparr>) =
     (live_session t s)(token := (if t < ExpiresAt sess then Some sess else None))"
  by (rule ext) (auto simp: live_session_def find_key_upsert_key split: option.splits)

lemma create_cases:
  assumes "Create now rnd user s = (r, s')"
  shows "(r = Inl TokenRandomFailed \<and> rnd = None \<and> s' = s) \<or>
    (\<exists>n. r = Inl (TooManySessions n) \<and> s' = prune_sessions now s) \<or>
    (\<exists>raw sess. rnd = Some raw \<and> r = Inr (b64_encode raw, sess) \<and>
       sess = \<lparr>SessionUser = user, CreatedAt = now, ExpiresAt = now + ttl s\<rparr> \<and>
       length (session_map (prune_sessions now s)) < maxSessions \<and>
       s' = (prune_sessions now s)\<lparr>session_map := upsert_key fst (\<lambda>_ new. new)
         (b64_encode raw, sess) (session_map (prune_sessions now s))\<rparr>)"
  using assms
  by (auto simp: Create_def Let_def prune_sessions_def split: option.splits if_splits)

interpretation sr: session_registry Create Get Delete live_session ttl sessions_wf
proof (unfold_locales, goal_cases)
  case (1 s now token)
  then show ?case by (auto simp: Get_def live_session_def Before_def split: option.splits)
next
  case (2 s now t token)
  show ?case
  proof (cases "fst (Get now token s) = None \<and> token \<noteq> [] \<and> find_key fst token (session_map s) \<noteq> None")
    case True
    then obtain k sess where k: "find_key fst token (session_map s) = Some (k, sess)"
      "\<not> now < ExpiresAt sess" "token \<noteq> []"
      by (auto simp: Get_def Before_def split: option.splits if_splits)
    then have "snd (Get now token s) = s\<lparr>session_map := delete_key fst token (session_map s)\<rparr>"
      by (simp add: Get_def Before_def)
    moreover have "live_session t s token = None" using k 2 by (simp add: live_session_def)
    ultimately show ?thesis using k by (simp add: live_delete_session fun_upd_idem)
  next
    case False
    then have "snd (Get now token s) = s"
      by (auto simp: Get_def split: option.splits if_splits)
    then show ?thesis by simp
  qed
next
  case (3 s token t)
  then show ?case by (simp add: Delete_def live_delete_session)
next
  case (4 s)
  then show ?case by (simp add: Delete_def)
next
  case (5 s now raw user token sess s' t)
  then show ?case
    using create_cases [OF 5(2)] live_prune [of s now t]
    by (auto simp: live_upsert_session sessions_wf_def)
next
  case (6 now rnd user s token sess s')
  then show ?case using create_cases [OF 6] by auto
next
  case (7 s now rnd user e s' t)
  then show ?case using create_cases [OF 7(2)] by (auto simp: live_prune sessions_wf_def)
next
  case (8 t s token sess)
  then show ?case by (auto simp: live_session_def split: if_splits option.splits)
next
  case (9 t s token sess u)
  then show ?case by (auto simp: live_session_def split: if_splits option.splits)
next
  case (10 s now rnd user)
  obtain r s' where r: "Create now rnd user s = (r, s')" by (cases "Create now rnd user s")
  with 10 sessions_wf_prune [OF 10] create_cases [OF r] show ?case
    by (auto simp: sessions_wf_def distinct_upsert_key)
next
  case (11 s now token)
  then show ?case
    by (auto simp: sessions_wf_def Get_def distinct_delete_key split: option.splits)
next
  case (12 s token)
  then show ?case by (simp add: sessions_wf_def Delete_def distinct_delete_key)
qed

text \<open>
  The session store never holds more than \<open>maxSessions\<close> sessions, and \<open>Create\<close>
  fails only when the random source does or when that many sessions are live.
\<close>

theorem create_bounded:
  assumes "sessions_wf s" and "length (session_map s) \<le> maxSessions"
  shows "length (session_map (snd (Create now rnd user s))) \<le> maxSessions \<and>
    (isl (fst (Create now rnd user s)) \<longleftrightarrow>
       rnd = None \<or> card {e \<in> set (session_map s). now < ExpiresAt (snd e)} \<ge> maxSessions)"
proof -
  let ?p = "session_map (prune_sessions now s)"
  have up: "length (upsert_key fst (\<lambda>_ new. new) e es) \<le> Suc (length es)"
    for e :: "string \<times> Session" and es
    by (induction es) auto
  have "distinct (session_map s)"
    using assms(1) by (simp add: sessions_wf_def distinct_map)
  then have "distinct ?p" by (simp add: prune_sessions_def)
  then have "length ?p = card (set ?p)" by (rule distinct_card [symmetric])
  also have "set ?p = {e \<in> set (session_map s). now < ExpiresAt (snd e)}"
    by (auto simp: prune_sessions_def Before_def)
  finally have len: "length ?p = card {e \<in> set (session_map s). now < ExpiresAt (snd e)}" .
  have "length ?p \<le> maxSessions"
    using assms(2) by (simp add: prune_sessions_def order_trans [OF length_filter_le])
  with len up [of _ ?p] assms(2) show ?thesis
    by (auto simp: Create_def Let_def not_le intro: order_trans [OF up] split: option.splits)
qed

lemma create_bounded_witness:
  "isl (fst (Create 0 (Some ''x'') ''a'' (NewSessionStore 0))) = False"
proof -
  have "sessions_wf (NewSessionStore 0)" "length (session_map (NewSessionStore 0)) \<le> maxSessions"
    by (simp_all add: NewSessionStore_def sessions_wf_def Hour_def)
  from create_bounded [OF this, of 0 "Some ''x''" "''a''"] show ?thesis
    by (simp add: NewSessionStore_def maxSessions_def)
qed

end
