(* ===== verification/AuthHandler.thy ===== *)
theory AuthHandler
  imports RateLimit Authenticator Session
begin

text \<open>
  Authentication in the HTTP handlers, \<^verbatim>\<open>handler/auth.go\<close> and the routes of
  \<^verbatim>\<open>handler/api.go\<close>. A request is a record of what the handlers read, its body already
  decoded (\<open>None\<close> when the decoder reports an error). A handler returns its reply and the
  server state, the parts of the \<open>Handler\<close> it uses. A login is cut in two steps,
  \<open>login_admit\<close> up to the reservation of an attempt and \<open>login_finish\<close> from the password
  check on, because the requests of other clients run between them; each limiter and
  session operation is atomic. \<open>parse_host\<close> is the host part of \<open>url.Parse\<close>, \<open>None\<close> on an
  error; the key derivation and the random source are arguments as in the components.
\<close>

record login_request =
  lrUsername :: string
  lrPassword :: string

record http_request =
  rMethod :: string
  rPath :: string
  rHost :: string
  rOrigin :: string
  rReferer :: string
  rForwardedFor :: string
  rRealIP :: string
  rRemoteAddr :: string
  rCookie :: "string option"
  rBody :: "login_request option"

datatype cookie_change = SetSession string gotime int bool | ClearSession bool

datatype reply_body =
    ErrorText string
  | LoginOK string string
  | StatusOK
  | AuthDisabled
  | NotAuthenticated
  | Authenticated string string
  | Redirect string
  | Handled string

record reply =
  rpStatus :: nat
  rpBody :: reply_body
  rpCookie :: "cookie_change option"
  rpRetryAfter :: "string option"

record server =
  hAuthenticator :: "Authenticator option"
  hSessions :: "SessionStore option"
  hLoginLimiter :: LoginLimiter
  hUserLimiter :: LoginLimiter
  hCookieSecure :: bool
  hTrustProxy :: bool

definition maxCredentialLen :: nat where "maxCredentialLen = 256"

definition plain_reply :: "nat \<Rightarrow> reply_body \<Rightarrow> reply" where
  "plain_reply st b = \<lparr>rpStatus = st, rpBody = b, rpCookie = None, rpRetryAfter = None\<rparr>"

definition writeError :: "nat \<Rightarrow> string \<Rightarrow> reply" where
  "writeError st msg = plain_reply st (ErrorText msg)"

definition isSafeMethod :: "string \<Rightarrow> bool" where
  "isSafeMethod m \<longleftrightarrow> m \<in> {''GET'', ''HEAD'', ''OPTIONS''}"

definition sameOriginRequest :: "(string \<Rightarrow> string option) \<Rightarrow> http_request \<Rightarrow> bool" where
  "sameOriginRequest parse_host r =
     (let origin = (if rOrigin r = [] then rReferer r else rOrigin r) in
      if origin = [] then True
      else case parse_host origin of
             None \<Rightarrow> False
           | Some host \<Rightarrow> if host = [] then False else equal_fold host (rHost r))"

definition isPublicAsset :: "string \<Rightarrow> bool" where
  "isPublicAsset p \<longleftrightarrow>
     p \<in> {''/login.html'', ''/static/css/style.css'', ''/static/js/login.js'',
          ''/static/js/vue.global.prod.js''}"

definition currentSession :: "gotime \<Rightarrow> http_request \<Rightarrow> server \<Rightarrow> Session option \<times> server" where
  "currentSession now r h =
     (case hSessions h of
        None \<Rightarrow> (None, h)
      | Some s \<Rightarrow>
          (case rCookie r of
             None \<Rightarrow> (None, h)
           | Some token \<Rightarrow>
               (case Get now token s of (res, s') \<Rightarrow> (res, h\<lparr>hSessions := Some s'\<rparr>))))"

definition requireAuth ::
  "(string \<Rightarrow> string option) \<Rightarrow> gotime \<Rightarrow> reply \<Rightarrow> http_request \<Rightarrow> server \<Rightarrow> reply \<times> server" where
  "requireAuth parse_host now next_reply r h =
     (if hSessions h = None then (next_reply, h)
      else case currentSession now r h of
             (None, h) \<Rightarrow> (writeError 401 ''authentication required'', h)
           | (Some _, h) \<Rightarrow>
               if \<not> isSafeMethod (rMethod r) \<and> \<not> sameOriginRequest parse_host r
               then (writeError 403 ''cross-origin request rejected'', h)
               else (next_reply, h))"

definition requireAuthPage ::
  "gotime \<Rightarrow> reply \<Rightarrow> http_request \<Rightarrow> server \<Rightarrow> reply \<times> server" where
  "requireAuthPage now next_reply r h =
     (if hSessions h = None then (next_reply, h)
      else case currentSession now r h of
             (Some _, h) \<Rightarrow> (next_reply, h)
           | (None, h) \<Rightarrow>
               if isPublicAsset (rPath r) then (next_reply, h)
               else (plain_reply 302 (Redirect ''/login.html''), h))"

section \<open>Client address\<close>

text \<open>\<open>net.SplitHostPort\<close>: the host, or \<open>None\<close> on an error.\<close>

definition split_host_port :: "string \<Rightarrow> string option" where
  "split_host_port hp =
     (case last_index (CHR '':'') hp of
        None \<Rightarrow> None
      | Some i \<Rightarrow>
          if hp \<noteq> [] \<and> hd hp = CHR ''['' then
            (let e = length (takeWhile (\<lambda>c. c \<noteq> CHR '']'') hp) in
             if e = length hp \<or> e + 1 \<noteq> i then None
             else if CHR ''['' \<in> set (drop 1 hp) \<or> CHR '']'' \<in> set (drop (e + 1) hp) then None
             else Some (take (e - 1) (drop 1 hp)))
          else if CHR '':'' \<in> set (take i hp) \<or> CHR ''['' \<in> set hp \<or> CHR '']'' \<in> set hp then None
          else Some (take i hp))"

definition clientIP :: "http_request \<Rightarrow> server \<Rightarrow> string" where
  "clientIP r h =
     (let first = trim_space (hd (split_on (CHR '','') (rForwardedFor r)));
          xr = trim_space (rRealIP r)
      in if hTrustProxy h \<and> rForwardedFor r \<noteq> [] \<and> first \<noteq> [] then first
         else if hTrustProxy h \<and> xr \<noteq> [] then xr
         else case split_host_port (rRemoteAddr r) of None \<Rightarrow> rRemoteAddr r | Some host \<Rightarrow> host)"

section \<open>Login, logout, me\<close>

text \<open>\<open>int(d.Seconds())\<close>\<close>

definition seconds :: "duration \<Rightarrow> int" where
  "seconds d = go_div d nano"

definition writeLockout :: "duration \<Rightarrow> reply" where
  "writeLockout retryAfter =
     (let secs = itoa (seconds retryAfter + 1)
      in (writeError 429 (''too many failed login attempts, retry in '' @ secs @ ''s''))
           \<lparr>rpRetryAfter := Some secs\<rparr>)"

definition limiter_user_key :: "string \<Rightarrow> string" where
  "limiter_user_key name = ''user:'' @ to_lower (trim_space name)"

text \<open>
  The first step of a login: a final reply, or the credentials to check with the two keys
  on which an attempt was reserved. The two reservations read the clock at \<open>t1\<close> and \<open>t2\<close>.
\<close>

definition login_admit ::
  "(string \<Rightarrow> string option) \<Rightarrow> gotime \<Rightarrow> gotime \<Rightarrow> http_request \<Rightarrow> server
   \<Rightarrow> (reply + login_request \<times> string \<times> string) \<times> server" where
  "login_admit parse_host t1 t2 r h =
     (if hSessions h = None \<or> hAuthenticator h = None
      then (Inl (writeError 404 ''authentication is disabled''), h)
      else if \<not> sameOriginRequest parse_host r
      then (Inl (writeError 403 ''cross-origin request rejected''), h)
      else case rBody r of
             None \<Rightarrow> (Inl (writeError 400 ''invalid request body''), h)
           | Some req \<Rightarrow>
               if lrUsername req = [] \<or> lrPassword req = []
               then (Inl (writeError 400 ''username and password are required''), h)
               else if length (lrUsername req) > maxCredentialLen \<or>
                       length (lrPassword req) > maxCredentialLen
               then (Inl (writeError 400 ''username or password too long''), h)
               else
                 (let clientKey = clientIP r h; userKey = limiter_user_key (lrUsername req) in
                  case Reserve t1 clientKey (hLoginLimiter h) of
                    ((False, retryAfter), l) \<Rightarrow>
                      (Inl (writeLockout retryAfter), h\<lparr>hLoginLimiter := l\<rparr>)
                  | ((True, _), l) \<Rightarrow>
                      (case Reserve t2 userKey (hUserLimiter h) of
                         ((False, retryAfter), ul) \<Rightarrow>
                           (Inl (writeLockout retryAfter), h\<lparr>hLoginLimiter := l, hUserLimiter := ul\<rparr>)
                       | ((True, _), ul) \<Rightarrow>
                           (Inr (req, clientKey, userKey), h\<lparr>hLoginLimiter := l, hUserLimiter := ul\<rparr>))))"

definition session_cookie :: "string \<Rightarrow> gotime \<Rightarrow> gotime \<Rightarrow> server \<Rightarrow> cookie_change" where
  "session_cookie token expires now h =
     SetSession token expires (seconds (Sub expires now)) (hCookieSecure h)"

text \<open>The second step: the session is created at \<open>t3\<close>, the cookie written at \<open>t4\<close>.\<close>

definition login_finish ::
  "kdf \<Rightarrow> gotime \<Rightarrow> gotime \<Rightarrow> string option \<Rightarrow> login_request \<times> string \<times> string \<Rightarrow> server \<Rightarrow> reply \<times> server" where
  "login_finish kdf t3 t4 rnd p h =
     (case (p, hAuthenticator h, hSessions h) of
        ((req, clientKey, userKey), Some a, Some s) \<Rightarrow>
          (case Verify kdf a (lrUsername req) (lrPassword req) of
             (_, False) \<Rightarrow> (writeError 401 ''invalid username or password'', h)
           | (user, True) \<Rightarrow>
               (case Create t3 rnd user s of
                  (Inl e, s') \<Rightarrow>
                    (writeError 500 ''could not start session'', h\<lparr>hSessions := Some s'\<rparr>)
                | (Inr (token, sess), s') \<Rightarrow>
                    ((plain_reply 200 (LoginOK user (format_rfc3339 (ExpiresAt sess))))
                       \<lparr>rpCookie := Some (session_cookie token (ExpiresAt sess) t4 h)\<rparr>,
                     h\<lparr>hSessions := Some s',
                       hLoginLimiter := Succeed clientKey (hLoginLimiter h),
                       hUserLimiter := Succeed userKey (hUserLimiter h)\<rparr>)))
      | _ \<Rightarrow> (writeError 404 ''authentication is disabled'', h))"

definition logout ::
  "(string \<Rightarrow> string option) \<Rightarrow> http_request \<Rightarrow> server \<Rightarrow> reply \<times> server" where
  "logout parse_host r h =
     (case hSessions h of
        None \<Rightarrow> (writeError 404 ''authentication is disabled'', h)
      | Some s \<Rightarrow>
          if \<not> sameOriginRequest parse_host r
          then (writeError 403 ''cross-origin request rejected'', h)
          else ((plain_reply 200 StatusOK)\<lparr>rpCookie := Some (ClearSession (hCookieSecure h))\<rparr>,
                case rCookie r of
                  None \<Rightarrow> h
                | Some token \<Rightarrow> h\<lparr>hSessions := Some (Delete token s)\<rparr>))"

definition me :: "gotime \<Rightarrow> http_request \<Rightarrow> server \<Rightarrow> reply \<times> server" where
  "me now r h =
     (if hSessions h = None then (plain_reply 200 AuthDisabled, h)
      else case currentSession now r h of
             (None, h) \<Rightarrow> (plain_reply 401 NotAuthenticated, h)
           | (Some sess, h) \<Rightarrow>
               (plain_reply 200 (Authenticated (SessionUser sess) (format_rfc3339 (ExpiresAt sess))), h))"

section \<open>Routes\<close>

datatype route = RProtected string | RHealth | RLogin | RLogout | RMe | RPage

definition protected_get :: "string set" where
  "protected_get =
     {''/api/reservations'', ''/api/alerts'', ''/api/sync/status'', ''/api/export'', ''/api/gpu-coverage''}"

definition protected_post :: "string set" where
  "protected_post = {''/api/sync'', ''/api/import''}"

text \<open>A pattern with method \<open>GET\<close> matches \<open>HEAD\<close> too; what no other pattern matches is the
  pattern \<open>/\<close>'s. Paths are clean: the multiplexer redirects others before any handler.\<close>

definition route_of :: "string \<Rightarrow> string \<Rightarrow> route" where
  "route_of meth path =
     (let get = (meth = ''GET'' \<or> meth = ''HEAD''); post = (meth = ''POST'') in
      if get \<and> path \<in> protected_get \<or> post \<and> path \<in> protected_post then RProtected path
      else if get \<and> path = ''/api/health'' then RHealth
      else if post \<and> path = ''/api/login'' then RLogin
      else if post \<and> path = ''/api/logout'' then RLogout
      else if get \<and> path = ''/api/me'' then RMe
      else RPage)"

text \<open>The times at which one request reads the clock, in this order.\<close>

record clocks =
  cAuth :: gotime
  cClient :: gotime
  cUser :: gotime
  cSession :: gotime
  cCookie :: gotime

text \<open>A login without other requests in between.\<close>

definition login ::
  "kdf \<Rightarrow> (string \<Rightarrow> string option) \<Rightarrow> clocks \<Rightarrow> string option \<Rightarrow> http_request \<Rightarrow> server \<Rightarrow> reply \<times> server" where
  "login kdf parse_host c rnd r h0 =
     (case login_admit parse_host (cClient c) (cUser c) r h0 of
        (Inl rp, h) \<Rightarrow> (rp, h)
      | (Inr p, h) \<Rightarrow> login_finish kdf (cSession c) (cCookie c) rnd p h)"

text \<open>\<open>Handled\<close> marks that the wrapped handler, a data endpoint, the health check or the file
  server, was called.\<close>

definition serve ::
  "kdf \<Rightarrow> (string \<Rightarrow> string option) \<Rightarrow> clocks \<Rightarrow> string option \<Rightarrow> http_request \<Rightarrow> server \<Rightarrow> reply \<times> server" where
  "serve kdf parse_host c rnd r h =
     (case route_of (rMethod r) (rPath r) of
        RProtected path \<Rightarrow> requireAuth parse_host (cAuth c) (plain_reply 200 (Handled path)) r h
      | RHealth \<Rightarrow> (plain_reply 200 (Handled ''health''), h)
      | RLogin \<Rightarrow> login kdf parse_host c rnd r h
      | RLogout \<Rightarrow> logout parse_host r h
      | RMe \<Rightarrow> me (cAuth c) r h
      | RPage \<Rightarrow> requireAuthPage (cAuth c) (plain_reply 200 (Handled ''file'')) r h)"

section \<open>Who gets through\<close>

lemma currentSession_live:
  assumes "hSessions h = Some s" "sessions_wf s"
  shows "fst (currentSession now r h) =
    (case rCookie r of None \<Rightarrow> None | Some token \<Rightarrow> live_session now s token)"
  using assms by (simp add: currentSession_def case_prod_beta sr.get_live split: option.split)

definition signed_in :: "gotime \<Rightarrow> http_request \<Rightarrow> SessionStore \<Rightarrow> Session option" where
  "signed_in now r s = (case rCookie r of None \<Rightarrow> None | Some token \<Rightarrow> live_session now s token)"

text \<open>
  C21. Access control. With authentication on, a data endpoint is called exactly for
  requests whose cookie is the token of a session that has not expired and which, when
  they can change state, do not come from another origin; all others get 401 or 403. The
  file server is called for such sessions and otherwise only for the four assets of the
  login page; every other page request is redirected to it.
\<close>

theorem access_control:
  assumes "hSessions h = Some s" and "sessions_wf s"
  shows "(route_of (rMethod r) (rPath r) = RProtected path \<longrightarrow>
      fst (serve kdf ph c rnd r h) =
        (if signed_in (cAuth c) r s = None then writeError 401 ''authentication required''
         else if \<not> isSafeMethod (rMethod r) \<and> \<not> sameOriginRequest ph r
         then writeError 403 ''cross-origin request rejected''
         else plain_reply 200 (Handled path))) \<and>
    (route_of (rMethod r) (rPath r) = RPage \<longrightarrow>
      fst (serve kdf ph c rnd r h) =
        (if signed_in (cAuth c) r s \<noteq> None \<or> isPublicAsset (rPath r)
         then plain_reply 200 (Handled ''file'') else plain_reply 302 (Redirect ''/login.html'')))"
proof -
  obtain res h' where c: "currentSession (cAuth c) r h = (res, h')" by (cases "currentSession (cAuth c) r h")
  then have "res = signed_in (cAuth c) r s"
    using currentSession_live [OF assms, of "cAuth c" r] by (simp add: signed_in_def)
  with c assms(1) show ?thesis
    by (auto simp: serve_def requireAuth_def requireAuthPage_def split: option.split)
qed

lemma access_control_witness:
  "fst (serve undefined (\<lambda>_. None) \<lparr>cAuth = 0, cClient = 0, cUser = 0, cSession = 0, cCookie = 0\<rparr> None
     \<lparr>rMethod = ''GET'', rPath = ''/api/alerts'', rHost = [], rOrigin = [], rReferer = [],
      rForwardedFor = [], rRealIP = [], rRemoteAddr = [], rCookie = Some ''x'', rBody = None\<rparr>
     \<lparr>hAuthenticator = None, hSessions = Some (NewSessionStore 0),
      hLoginLimiter = NewLoginLimiter 0 0, hUserLimiter = NewLoginLimiter 0 0,
      hCookieSecure = True, hTrustProxy = True\<rparr>) = writeError 401 ''authentication required''"
  (is "fst (serve _ _ _ _ ?r ?h) = _")
proof -
  have s: "hSessions ?h = Some (NewSessionStore 0)" "sessions_wf (NewSessionStore 0)"
    by (simp_all add: NewSessionStore_def sessions_wf_def Hour_def)
  have "route_of (rMethod ?r) (rPath ?r) = RProtected ''/api/alerts''"
    by (simp add: route_of_def protected_get_def)
  with access_control [OF s, of ?r "''/api/alerts''"] show ?thesis
    by (simp add: signed_in_def live_session_def NewSessionStore_def)
qed

lemma rejected_login_costs_nothing_aux:
  assumes "login_admit ph t1 t2 r h = (Inl rp, h')"
  shows "(rpStatus rp \<in> {400, 403, 404} \<and> h' = h \<or> rpStatus rp = 429) \<and> hSessions h' = hSessions h \<and>
    rpCookie rp = None"
  using assms
  by (auto simp: login_admit_def Let_def writeError_def plain_reply_def writeLockout_def
      split: if_splits option.splits prod.splits bool.splits)

text \<open>
  A login that is turned down before the password check because it is malformed, from
  another origin or not possible leaves the whole server state as it was: it costs no user an
  attempt. One that is locked out leaves the sessions alone.
\<close>

theorem rejected_login_costs_nothing:
  assumes "login_admit ph t1 t2 r h = (Inl rp, h')"
  shows "(rpStatus rp \<in> {400, 403, 404} \<and> h' = h \<or> rpStatus rp = 429) \<and> hSessions h' = hSessions h \<and>
    rpCookie rp = None"
  by (rule rejected_login_costs_nothing_aux [OF assms])

lemma rejected_login_costs_nothing_witness:
  "hSessions \<lparr>hAuthenticator = None, hSessions = None, hLoginLimiter = NewLoginLimiter 0 0,
     hUserLimiter = NewLoginLimiter 0 0, hCookieSecure = True, hTrustProxy = True\<rparr> = None \<and>
   rpCookie (writeError 404 ''authentication is disabled'') = None"
proof -
  let ?h = "\<lparr>hAuthenticator = None, hSessions = None, hLoginLimiter = NewLoginLimiter 0 0,
     hUserLimiter = NewLoginLimiter 0 0, hCookieSecure = True, hTrustProxy = True\<rparr>"
  have "login_admit undefined 0 0 undefined ?h = (Inl (writeError 404 ''authentication is disabled''), ?h)"
    by (simp add: login_admit_def)
  from rejected_login_costs_nothing [OF this] show ?thesis by simp
qed

text \<open>
  C23. A login succeeds only for verified credentials, and then the cookie is a session: a reply
  of 200 means that an attempt was reserved, that \<open>Verify\<close> accepted the submitted name and
  password, that the cookie's token is live for that user from its creation until a whole
  lifetime later, and that both counters of failed attempts are cleared.
\<close>

theorem login_success:
  assumes "login kdf ph c rnd r h = (rp, h')" and "rpStatus rp = 200"
    and "hSessions h = Some s" and "hAuthenticator h = Some a" and "sessions_wf s" and "rnd \<noteq> Some []"
  shows "\<exists>req user token sess s'. rBody r = Some req \<and>
    Verify kdf a (lrUsername req) (lrPassword req) = (user, True) \<and>
    rpCookie rp = Some (session_cookie token (ExpiresAt sess) (cCookie c) h) \<and>
    SessionUser sess = user \<and> ExpiresAt sess = cSession c + ttl s \<and> hSessions h' = Some s' \<and>
    (\<forall>t. cSession c \<le> t \<and> t < ExpiresAt sess \<longrightarrow> live_session t s' token = Some sess) \<and>
    lookup_attempt (clientIP r h) (hLoginLimiter h') = None \<and>
    lookup_attempt (limiter_user_key (lrUsername req)) (hUserLimiter h') = None"
proof -
  obtain p h1 where adm: "login_admit ph (cClient c) (cUser c) r h = (Inr p, h1)"
    and fin: "login_finish kdf (cSession c) (cCookie c) rnd p h1 = (rp, h')"
  proof (cases "login_admit ph (cClient c) (cUser c) r h")
    case (Pair x h1)
    show thesis
    proof (cases x)
      case (Inl y)
      from rejected_login_costs_nothing_aux [OF Pair [unfolded Inl]] assms(1,2) Pair Inl
      show ?thesis by (auto simp: login_def)
    next
      case (Inr p)
      with Pair assms(1) that show ?thesis by (simp add: login_def)
    qed
  qed
  from adm obtain req where req: "rBody r = Some req"
    "p = (req, clientIP r h, limiter_user_key (lrUsername req))"
    and h1: "hSessions h1 = Some s" "hAuthenticator h1 = Some a" "hCookieSecure h1 = hCookieSecure h"
    using assms(3,4)
    by (auto simp: login_admit_def Let_def split: if_splits option.splits prod.splits bool.splits)
  from fin assms(2) obtain user token sess s' where
    v: "Verify kdf a (lrUsername req) (lrPassword req) = (user, True)"
    and cr: "Create (cSession c) rnd user s = (Inr (token, sess), s')"
    and rp: "rpCookie rp = Some (session_cookie token (ExpiresAt sess) (cCookie c) h1)"
    and h': "h' = h1\<lparr>hSessions := Some s', hLoginLimiter := Succeed (clientIP r h) (hLoginLimiter h1),
      hUserLimiter := Succeed (limiter_user_key (lrUsername req)) (hUserLimiter h1)\<rparr>"
    by (auto simp: login_finish_def req h1 writeError_def plain_reply_def
        split: prod.splits bool.splits sum.splits)
  from sr.create_session [OF cr] obtain raw where sess: "SessionUser sess = user"
    "ExpiresAt sess = cSession c + ttl s" "rnd = Some raw" by auto
  then have "raw \<noteq> []" using assms(6) by auto
  have "live_session t s' token = Some sess" if "cSession c \<le> t" "t < ExpiresAt sess" for t
    using sr.live_create [OF assms(5) cr [unfolded sess(3)] \<open>raw \<noteq> []\<close> that(1)] that(2) by simp
  with v req(1) rp h' sess h1(3) show ?thesis
    by (intro exI [of _ req] exI [of _ user] exI [of _ token] exI [of _ sess] exI [of _ s'])
      (simp add: session_cookie_def)
qed

definition sample_kdf :: kdf where
  "sample_kdf = (\<lambda>p s i n. Some (replicate n (if p = ''pw'' then CHR ''k'' else CHR ''x'')))"

definition sample_clocks :: clocks where
  "sample_clocks = \<lparr>cAuth = 1, cClient = 1, cUser = 1, cSession = 2, cCookie = 2\<rparr>"

definition sample_request :: http_request where
  "sample_request =
     \<lparr>rMethod = ''POST'', rPath = ''/api/login'', rHost = [], rOrigin = [], rReferer = [],
      rForwardedFor = [], rRealIP = [], rRemoteAddr = ''10.0.0.1:80'', rCookie = None,
      rBody = Some \<lparr>lrUsername = ''bob'', lrPassword = ''pw''\<rparr>\<rparr>"

definition sample_server :: "string \<Rightarrow> server" where
  "sample_server h =
     \<lparr>hAuthenticator = Some \<lparr>users = [(''bob'', \<lparr>username = ''bob'', hash = h\<rparr>)], dummyHash = []\<rparr>,
      hSessions = Some (NewSessionStore 0), hLoginLimiter = NewLoginLimiter 5 900,
      hUserLimiter = NewLoginLimiter 20 900, hCookieSecure = True, hTrustProxy = True\<rparr>"

lemma sample_login:
  "\<exists>h. Verify sample_kdf \<lparr>users = [(''bob'', \<lparr>username = ''bob'', hash = h\<rparr>)], dummyHash = []\<rparr> ''bob'' ''pw'' =
       (''bob'', True)"
proof -
  have len: "kdf_length sample_kdf" by (simp add: kdf_length_def sample_kdf_def)
  obtain h where h: "HashPassword sample_kdf (Some ''salt'') ''pw'' = Inr h"
    by (simp add: HashPassword_def hashPasswordWithIterations_def sample_kdf_def)
  have "VerifyPassword sample_kdf h ''pw'' = Inr True"
    using verify_hashed [OF len, of "''salt''" "''pw''" DefaultIterations h "''pw''"] h
    by (simp add: HashPassword_def DefaultIterations_def minIterations_def sample_kdf_def)
  moreover have "user_key ''bob'' = ''bob''" by code_simp
  ultimately show ?thesis by (intro exI [of _ h]) (simp add: Verify_def)
qed

lemma login_success_witness:
  "\<exists>h rp h'. login sample_kdf (\<lambda>_. None) sample_clocks (Some ''t'') sample_request (sample_server h) = (rp, h') \<and>
     rpStatus rp = 200 \<and> (\<exists>s' token sess. hSessions h' = Some s' \<and> live_session 3 s' token = Some sess)"
proof -
  obtain h where v: "Verify sample_kdf \<lparr>users = [(''bob'', \<lparr>username = ''bob'', hash = h\<rparr>)], dummyHash = []\<rparr>
      ''bob'' ''pw'' = (''bob'', True)"
    using sample_login by (rule exE)
  obtain rp h' where l: "login sample_kdf (\<lambda>_. None) sample_clocks (Some ''t'') sample_request
      (sample_server h) = (rp, h')"
    by (cases "login sample_kdf (\<lambda>_. None) sample_clocks (Some ''t'') sample_request (sample_server h)")
  have first: "fst (Reserve t k (NewLoginLimiter m w)) = (True, 0)" for t k m w
    by (simp add: Reserve_def pruneLocked_def NewLoginLimiter_def drop_stale_def drop_oldest.simps
        maxLimiterKeys_def lookup_attempt_def Let_def)
  have r: "\<exists>l. Reserve t k (NewLoginLimiter m w) = ((True, 0), l)" for t k m w
    using first [of t k m w] by (cases "Reserve t k (NewLoginLimiter m w)") auto
  obtain l1 where l1: "Reserve 1 (clientIP sample_request (sample_server h)) (NewLoginLimiter 5 900) = ((True, 0), l1)"
    using r by blast
  obtain l2 where l2: "Reserve 1 (limiter_user_key ''bob'') (NewLoginLimiter 20 900) = ((True, 0), l2)"
    using r by blast
  have s: "hSessions (sample_server h) = Some (NewSessionStore 0)"
    "hAuthenticator (sample_server h) =
       Some \<lparr>users = [(''bob'', \<lparr>username = ''bob'', hash = h\<rparr>)], dummyHash = []\<rparr>"
    "sessions_wf (NewSessionStore 0)" "ttl (NewSessionStore 0) = 12 * Hour"
    by (simp_all add: sample_server_def NewSessionStore_def sessions_wf_def Hour_def)
  have q: "rBody sample_request = Some \<lparr>lrUsername = ''bob'', lrPassword = ''pw''\<rparr>"
    "sameOriginRequest (\<lambda>_. None) sample_request"
    "hLoginLimiter (sample_server h) = NewLoginLimiter 5 900"
    "hUserLimiter (sample_server h) = NewLoginLimiter 20 900"
    by (simp_all add: sample_request_def sample_server_def sameOriginRequest_def)
  have adm: "login_admit (\<lambda>_. None) 1 1 sample_request (sample_server h) =
      (Inr (\<lparr>lrUsername = ''bob'', lrPassword = ''pw''\<rparr>, clientIP sample_request (sample_server h),
         limiter_user_key ''bob''), (sample_server h)\<lparr>hLoginLimiter := l1, hUserLimiter := l2\<rparr>)"
    using q s(1,2) l1 l2 by (simp add: login_admit_def maxCredentialLen_def Let_def)
  obtain sess s' where cr: "Create 2 (Some ''t'') ''bob'' (NewSessionStore 0) = (Inr (b64_encode ''t'', sess), s')"
    by (simp add: Create_def prune_sessions_def NewSessionStore_def maxSessions_def Let_def)
  have ok: "rpStatus rp = 200"
    using l adm s(1,2) v cr
    by (auto simp: login_def login_finish_def sample_clocks_def plain_reply_def)
  from login_success [OF l ok s(1-3)] s(4) obtain token sess s' where
    "hSessions h' = Some s'" "ExpiresAt sess = 2 + 12 * Hour"
    "\<forall>t. 2 \<le> t \<and> t < ExpiresAt sess \<longrightarrow> live_session t s' token = Some sess"
    by (auto simp: sample_clocks_def)
  then have "hSessions h' = Some s' \<and> live_session 3 s' token = Some sess" by (simp add: Hour_def)
  with l ok show ?thesis by blast
qed

section \<open>Runs\<close>

text \<open>
  The steps of a server in the order in which they happen. \<open>Serve\<close> is a request served without
  interruption; the two steps of a login may have others between them.
\<close>

datatype server_event =
    Admit gotime gotime http_request
  | Finish gotime gotime "string option" "login_request \<times> string \<times> string"
  | Serve clocks "string option" http_request

fun server_step :: "kdf \<Rightarrow> (string \<Rightarrow> string option) \<Rightarrow> server_event \<Rightarrow> server \<Rightarrow> server" where
  "server_step kdf ph (Admit t1 t2 r) h = snd (login_admit ph t1 t2 r h)"
| "server_step kdf ph (Finish t3 t4 rnd p) h = snd (login_finish kdf t3 t4 rnd p h)"
| "server_step kdf ph (Serve c rnd r) h = snd (serve kdf ph c rnd r h)"

text \<open>What a step does to the session store, as operations of its contract.\<close>

definition finish_ops :: "kdf \<Rightarrow> gotime \<Rightarrow> string option \<Rightarrow> login_request \<Rightarrow> server \<Rightarrow> session_op list" where
  "finish_ops kdf t3 rnd req h =
     (case hAuthenticator h of
        None \<Rightarrow> []
      | Some a \<Rightarrow>
          (case Verify kdf a (lrUsername req) (lrPassword req) of
             (user, True) \<Rightarrow> [OpCreate t3 rnd user] | _ \<Rightarrow> []))"

lemma admit_sessions: "hSessions (snd (login_admit ph t1 t2 r h)) = hSessions h \<and>
    hAuthenticator (snd (login_admit ph t1 t2 r h)) = hAuthenticator h"
  by (simp add: login_admit_def Let_def split: option.split prod.split bool.split)

lemma finish_sessions:
  assumes "hSessions h = Some s"
  shows "hSessions (snd (login_finish kdf t3 t4 rnd (req, ck, uk) h)) =
      Some (fold sr.apply_op (finish_ops kdf t3 rnd req h) s)"
  using assms
  by (auto simp: login_finish_def finish_ops_def split: option.split prod.split bool.split sum.split)

text \<open>A step that cannot end the session of a token: no logout with that cookie, no draw of the
  same token; and the step reads no clock after \<open>t\<close>.\<close>

definition draw_spares :: "string \<Rightarrow> string option \<Rightarrow> bool" where
  "draw_spares token rnd \<longleftrightarrow> (\<forall>raw. rnd = Some raw \<longrightarrow> raw \<noteq> [] \<and> b64_encode raw \<noteq> token)"

fun event_spares :: "string \<Rightarrow> gotime \<Rightarrow> server_event \<Rightarrow> bool" where
  "event_spares token t (Admit t1 t2 r) = True"
| "event_spares token t (Finish t3 t4 rnd p) = (draw_spares token rnd \<and> t3 \<le> t)"
| "event_spares token t (Serve c rnd r) =
     (draw_spares token rnd \<and> cAuth c \<le> t \<and> cSession c \<le> t \<and>
      (route_of (rMethod r) (rPath r) = RLogout \<longrightarrow> rCookie r \<noteq> Some token))"

definition op_spares :: "string \<Rightarrow> gotime \<Rightarrow> session_op \<Rightarrow> bool" where
  "op_spares token t op \<longleftrightarrow> sr.spares token op \<and> (\<forall>now. op_time op = Some now \<longrightarrow> now \<le> t)"

lemma finish_ops_spare:
  "draw_spares token rnd \<Longrightarrow> t3 \<le> t \<Longrightarrow> \<forall>op \<in> set (finish_ops kdf t3 rnd req h). op_spares token t op"
  by (auto simp: finish_ops_def op_spares_def draw_spares_def split: option.split prod.split bool.split)

lemma currentSession_ops:
  assumes "hSessions h = Some s"
  shows "\<exists>ops. hSessions (snd (currentSession now r h)) = Some (fold sr.apply_op ops s) \<and>
    (\<forall>op \<in> set ops. now \<le> t \<longrightarrow> op_spares token t op)"
proof (cases "rCookie r")
  case None
  with assms show ?thesis by (intro exI [of _ "[]"]) (simp add: currentSession_def)
next
  case (Some tok)
  with assms show ?thesis
    by (intro exI [of _ "[OpGet now tok]"]) (simp add: currentSession_def op_spares_def case_prod_beta)
qed

lemma login_ops:
  assumes "hSessions h = Some s" "draw_spares token rnd" "cSession c \<le> t"
  shows "\<exists>ops. hSessions (snd (login kdf ph c rnd r h)) = Some (fold sr.apply_op ops s) \<and>
    (\<forall>op \<in> set ops. op_spares token t op)"
proof (cases "login_admit ph (cClient c) (cUser c) r h")
  case (Pair x h1)
  then have h1: "hSessions h1 = Some s" using admit_sessions [of ph "cClient c" "cUser c" r h] assms(1) by simp
  show ?thesis
  proof (cases x)
    case (Inl rp)
    with Pair h1 show ?thesis by (intro exI [of _ "[]"]) (simp add: login_def)
  next
    case (Inr p)
    obtain req ck uk where p: "p = (req, ck, uk)" by (cases p)
    from finish_ops_spare [OF assms(2,3)] finish_sessions [OF h1] Pair Inr p show ?thesis
      by (intro exI [of _ "finish_ops kdf (cSession c) rnd req h1"]) (simp add: login_def)
  qed
qed

lemma step_ops:
  assumes "hSessions h = Some s" "event_spares token t ev"
  shows "\<exists>ops. hSessions (server_step kdf ph ev h) = Some (fold sr.apply_op ops s) \<and>
    (\<forall>op \<in> set ops. op_spares token t op)"
proof (cases ev)
  case (Admit t1 t2 r)
  with assms(1) show ?thesis
    by (intro exI [of _ "[]"]) (simp add: admit_sessions)
next
  case (Finish t3 t4 rnd p)
  obtain req ck uk where p: "p = (req, ck, uk)" by (cases p)
  from assms(2) Finish have "draw_spares token rnd" "t3 \<le> t" by auto
  from finish_ops_spare [OF this] finish_sessions [OF assms(1)] show ?thesis
    by (intro exI [of _ "finish_ops kdf t3 rnd req h"]) (simp add: Finish p)
next
  case (Serve c rnd r)
  then have sp: "draw_spares token rnd" "cAuth c \<le> t" "cSession c \<le> t"
    "route_of (rMethod r) (rPath r) = RLogout \<longrightarrow> rCookie r \<noteq> Some token"
    using assms(2) by auto
  obtain ops where ops: "hSessions (snd (currentSession (cAuth c) r h)) = Some (fold sr.apply_op ops s)"
    "\<forall>op \<in> set ops. op_spares token t op"
    using currentSession_ops [OF assms(1), of "cAuth c" r t token] sp(2) by auto
  show ?thesis
  proof (cases "route_of (rMethod r) (rPath r)")
    case (RProtected path)
    with ops show ?thesis
      by (intro exI [of _ ops])
        (auto simp: Serve serve_def requireAuth_def assms(1) split: prod.split option.split)
  next
    case RHealth
    with assms(1) show ?thesis by (intro exI [of _ "[]"]) (simp add: Serve serve_def)
  next
    case RLogin
    with login_ops [OF assms(1) sp(1,3)] show ?thesis by (simp add: Serve serve_def)
  next
    case RLogout
    show ?thesis
    proof (cases "sameOriginRequest ph r \<and> rCookie r \<noteq> None")
      case True
      then obtain tok where "rCookie r = Some tok" by auto
      with True RLogout assms(1) sp(4) show ?thesis
        by (intro exI [of _ "[OpDelete tok]"]) (simp add: Serve serve_def logout_def op_spares_def)
    next
      case False
      with RLogout assms(1) show ?thesis
        by (intro exI [of _ "[]"]) (auto simp: Serve serve_def logout_def)
    qed
  next
    case RMe
    with ops show ?thesis
      by (intro exI [of _ ops]) (auto simp: Serve serve_def me_def assms(1) split: prod.split option.split)
  next
    case RPage
    with ops show ?thesis
      by (intro exI [of _ ops])
        (auto simp: Serve serve_def requireAuthPage_def assms(1) split: prod.split option.split)
  qed
qed

lemma run_ops:
  assumes "hSessions h = Some s" "\<forall>ev \<in> set evs. event_spares token t ev"
  shows "\<exists>ops. hSessions (fold (server_step kdf ph) evs h) = Some (fold sr.apply_op ops s) \<and>
    (\<forall>op \<in> set ops. op_spares token t op)"
  using assms
proof (induction evs arbitrary: h s)
  case Nil
  then show ?case by (intro exI [of _ "[]"]) simp
next
  case (Cons ev evs)
  then obtain ops1 where "hSessions (server_step kdf ph ev h) = Some (fold sr.apply_op ops1 s)"
    "\<forall>op \<in> set ops1. op_spares token t op"
    using step_ops [of h s token t ev kdf ph] by auto
  moreover from Cons.IH [OF this(1)] Cons.prems(2) obtain ops2 where
    "hSessions (fold (server_step kdf ph) evs (server_step kdf ph ev h)) =
       Some (fold sr.apply_op ops2 (fold sr.apply_op ops1 s))" "\<forall>op \<in> set ops2. op_spares token t op"
    by auto
  ultimately show ?case by (intro exI [of _ "ops1 @ ops2"]) auto
qed

text \<open>
  C24. A session lasts: whatever requests of whatever clients the server handles, in any
  interleaving, the session of a token is at time \<open>t\<close> what it was, as long as nobody logs
  out with that very token and the random source does not draw it again.
\<close>

theorem session_lasts:
  assumes "hSessions h = Some s" and "sessions_wf s"
    and "\<forall>ev \<in> set evs. event_spares token t ev"
  shows "\<exists>s'. hSessions (fold (server_step kdf ph) evs h) = Some s' \<and>
    live_session t s' token = live_session t s token"
proof -
  from run_ops [OF assms(1,3)] obtain ops where
    "hSessions (fold (server_step kdf ph) evs h) = Some (fold sr.apply_op ops s)"
    "\<forall>op \<in> set ops. op_spares token t op" by blast
  with sr.live_run [OF assms(2), of ops token t] show ?thesis by (auto simp: op_spares_def)
qed

text \<open>A server with one session, and three requests after it began.\<close>

definition session_token :: string where "session_token = b64_encode ''t''"

definition bobs_server :: server where
  "bobs_server = (sample_server [])\<lparr>hSessions := Some (snd (Create 2 (Some ''t'') ''bob'' (NewSessionStore 0)))\<rparr>"

definition other_requests :: "server_event list" where
  "other_requests =
     [Admit 3 3 sample_request,
      Serve sample_clocks (Some ''u'') (sample_request\<lparr>rMethod := ''GET'', rPath := ''/'', rCookie := Some session_token\<rparr>),
      Serve sample_clocks None (sample_request\<lparr>rPath := ''/api/logout'', rCookie := Some ''x''\<rparr>)]"

lemma bob_session:
  "\<exists>s sess. hSessions bobs_server = Some s \<and> sessions_wf s \<and> live_session 5 s session_token = Some sess"
proof -
  have wf: "sessions_wf (NewSessionStore 0)"
    by (simp add: NewSessionStore_def sessions_wf_def Hour_def)
  obtain sess s' where cr: "Create 2 (Some ''t'') ''bob'' (NewSessionStore 0) = (Inr (session_token, sess), s')"
    by (simp add: Create_def prune_sessions_def NewSessionStore_def maxSessions_def session_token_def Let_def)
  from sr.create_session [OF cr] have "5 < ExpiresAt sess"
    by (simp add: NewSessionStore_def Hour_def)
  then have "live_session 5 s' session_token = Some sess"
    using sr.live_create [OF wf cr, of 5] by simp
  moreover have "sessions_wf s'" using sr.wf_create [OF wf, of 2 "Some ''t''" "''bob''"] cr by simp
  ultimately show ?thesis using cr by (simp add: bobs_server_def)
qed

lemma other_requests_spare: "\<forall>ev \<in> set other_requests. event_spares session_token 5 ev"
proof -
  have "b64_encode ''u'' \<noteq> session_token" "session_token \<noteq> ''x''" "route_of ''GET'' ''/'' \<noteq> RLogout" by code_simp+
  then show ?thesis
    by (auto simp: other_requests_def draw_spares_def sample_clocks_def)
qed

lemma session_lasts_witness:
  "\<exists>s' sess. hSessions (fold (server_step undefined (\<lambda>_. None)) other_requests bobs_server) = Some s' \<and>
     live_session 5 s' session_token = Some sess"
proof -
  obtain s sess where "hSessions bobs_server = Some s" "sessions_wf s" "live_session 5 s session_token = Some sess"
    using bob_session by blast
  with session_lasts [of bobs_server s other_requests session_token 5 undefined "\<lambda>_. None"] other_requests_spare
  show ?thesis by auto
qed

text \<open>
  C25. A logout is final: after it, no run of requests makes the token valid again, unless
  the random source draws it once more.
\<close>

theorem logout_is_final:
  assumes "hSessions h = Some s" and "sessions_wf s" and "sameOriginRequest ph r"
    and "rCookie r = Some token" and "token \<noteq> []"
    and "\<forall>ev \<in> set evs. event_spares token t ev"
  shows "\<exists>s'. hSessions (fold (server_step kdf ph) evs (snd (logout ph r h))) = Some s' \<and>
    live_session t s' token = None"
proof -
  have "hSessions (snd (logout ph r h)) = Some (Delete token s)"
    using assms(1,3,4) by (simp add: logout_def)
  from run_ops [OF this assms(6)] obtain ops where
    "hSessions (fold (server_step kdf ph) evs (snd (logout ph r h))) =
       Some (fold sr.apply_op ops (Delete token s))"
    "\<forall>op \<in> set ops. op_spares token t op" by blast
  with sr.deleted_run [OF assms(2,5), of ops t] show ?thesis by (auto simp: op_spares_def)
qed

lemma logout_is_final_witness:
  "(\<exists>s sess. hSessions bobs_server = Some s \<and> live_session 5 s session_token = Some sess) \<and>
   (\<exists>s'. hSessions (fold (server_step undefined (\<lambda>_. None)) other_requests
        (snd (logout (\<lambda>_. None) (sample_request\<lparr>rCookie := Some session_token\<rparr>) bobs_server))) = Some s' \<and>
      live_session 5 s' session_token = None)"
proof -
  obtain s sess where s: "hSessions bobs_server = Some s" "sessions_wf s" "live_session 5 s session_token = Some sess"
    using bob_session by blast
  then have "session_token \<noteq> []" by (auto simp: live_session_def)
  with logout_is_final [OF s(1,2), of "\<lambda>_. None" "sample_request\<lparr>rCookie := Some session_token\<rparr>" session_token
      other_requests 5 undefined] s(1,3) other_requests_spare
  show ?thesis by (simp add: sample_request_def sameOriginRequest_def)
qed

section \<open>Guessing a password\<close>

text \<open>
  What a step does to the per-user limiter, and how often it lets a password of the user
  with key \<open>k\<close> be checked. A successful login releases the key.
\<close>

definition admitted :: "(string \<Rightarrow> string option) \<Rightarrow> gotime \<Rightarrow> gotime \<Rightarrow> http_request \<Rightarrow> server \<Rightarrow> string option" where
  "admitted ph t1 t2 r h =
     (case fst (login_admit ph t1 t2 r h) of Inl _ \<Rightarrow> None | Inr (_, _, userKey) \<Rightarrow> Some userKey)"

fun password_checks :: "(string \<Rightarrow> string option) \<Rightarrow> string \<Rightarrow> server_event \<Rightarrow> server \<Rightarrow> nat" where
  "password_checks ph k (Admit t1 t2 r) h = (if admitted ph t1 t2 r h = Some k then 1 else 0)"
| "password_checks ph k (Finish t3 t4 rnd p) h = 0"
| "password_checks ph k (Serve c rnd r) h =
     (if route_of (rMethod r) (rPath r) = RLogin \<and> admitted ph (cClient c) (cUser c) r h = Some k
      then 1 else 0)"

fun total_checks :: "kdf \<Rightarrow> (string \<Rightarrow> string option) \<Rightarrow> string \<Rightarrow> server_event list \<Rightarrow> server \<Rightarrow> nat" where
  "total_checks kdf ph k [] h = 0"
| "total_checks kdf ph k (ev # evs) h =
     password_checks ph k ev h + total_checks kdf ph k evs (server_step kdf ph ev h)"

text \<open>The step is a login of the user with key \<open>k\<close> that succeeds.\<close>

fun logs_in :: "kdf \<Rightarrow> (string \<Rightarrow> string option) \<Rightarrow> string \<Rightarrow> server_event \<Rightarrow> server \<Rightarrow> bool" where
  "logs_in kdf ph k (Admit t1 t2 r) h = False"
| "logs_in kdf ph k (Finish t3 t4 rnd p) h =
     (snd (snd p) = k \<and> rpStatus (fst (login_finish kdf t3 t4 rnd p h)) = 200)"
| "logs_in kdf ph k (Serve c rnd r) h =
     (route_of (rMethod r) (rPath r) = RLogin \<and>
      (\<exists>req. rBody r = Some req \<and> limiter_user_key (lrUsername req) = k) \<and>
      rpStatus (fst (login kdf ph c rnd r h)) = 200)"

fun total_logins :: "kdf \<Rightarrow> (string \<Rightarrow> string option) \<Rightarrow> string \<Rightarrow> server_event list \<Rightarrow> server \<Rightarrow> nat" where
  "total_logins kdf ph k [] h = 0"
| "total_logins kdf ph k (ev # evs) h =
     (if logs_in kdf ph k ev h then 1 else 0) + total_logins kdf ph k evs (server_step kdf ph ev h)"

text \<open>The times at which the step reads the clock for the per-user limiter.\<close>

fun user_times :: "server_event \<Rightarrow> gotime list" where
  "user_times (Admit t1 t2 r) = [t2]"
| "user_times (Finish t3 t4 rnd p) = []"
| "user_times (Serve c rnd r) = [cUser c]"

text \<open>The effect of a step on the limiter of the users, as limiter events.\<close>

definition limiter_effect ::
  "server_event \<Rightarrow> string \<Rightarrow> nat \<Rightarrow> nat \<Rightarrow> limiter_event list \<Rightarrow> LoginLimiter \<Rightarrow> LoginLimiter \<Rightarrow> bool" where
  "limiter_effect ev k n m les l l' \<longleftrightarrow>
     l' = fold limiter_step les l \<and> allowed_attempts k l les = n \<and> length les \<le> 2 \<and>
     (\<forall>t key. EReserve t key \<in> set les \<longrightarrow> t \<in> set (user_times ev)) \<and> releases k les \<le> m"

lemma releases_simps [simp]:
  "releases k [] = 0" "releases k (EReserve t key # es) = releases k es"
  "releases k (ESucceed key # es) = (if key = k then Suc (releases k es) else releases k es)"
  "releases k (es @ es') = releases k es + releases k es'"
  by (simp_all add: releases_def)

lemma releases_reserves: "\<forall>e \<in> set es. \<exists>key. e = EReserve t key \<Longrightarrow> releases k es = 0"
  by (auto simp: releases_def filter_empty_conv)

lemma admit_effect:
  assumes "login_admit ph t1 t2 r h = (x, h1)"
  shows "\<exists>les. hUserLimiter h1 = fold limiter_step les (hUserLimiter h) \<and> length les \<le> 1 \<and>
    allowed_attempts k (hUserLimiter h) les = (if admitted ph t1 t2 r h = Some k then 1 else 0) \<and>
    (\<forall>e \<in> set les. \<exists>key. e = EReserve t2 key)"
proof (cases "\<exists>l rt req. Reserve t1 (clientIP r h) (hLoginLimiter h) = ((True, rt), l) \<and> rBody r = Some req \<and>
    hSessions h \<noteq> None \<and> hAuthenticator h \<noteq> None \<and> sameOriginRequest ph r \<and>
    lrUsername req \<noteq> [] \<and> lrPassword req \<noteq> [] \<and> length (lrUsername req) \<le> maxCredentialLen \<and>
    length (lrPassword req) \<le> maxCredentialLen")
  case True
  then obtain l rt req where adm: "Reserve t1 (clientIP r h) (hLoginLimiter h) = ((True, rt), l)"
    "rBody r = Some req" "hSessions h \<noteq> None" "hAuthenticator h \<noteq> None" "sameOriginRequest ph r"
    "lrUsername req \<noteq> []" "lrPassword req \<noteq> []" "\<not> maxCredentialLen < length (lrUsername req)"
    "\<not> maxCredentialLen < length (lrPassword req)"
    by (auto simp: not_less)
  let ?uk = "limiter_user_key (lrUsername req)"
  obtain b rt2 ul where ul: "Reserve t2 ?uk (hUserLimiter h) = ((b, rt2), ul)"
    by (metis prod.collapse)
  have h1: "hUserLimiter h1 = ul" and ad: "admitted ph t1 t2 r h = (if b then Some ?uk else None)"
    using assms adm ul
    by (auto simp: login_admit_def admitted_def Let_def simp del: not_None_eq split: bool.splits)
  show ?thesis
    by (rule exI [of _ "[EReserve t2 ?uk]"]) (auto simp: h1 ad ul allowed_def)
next
  case False
  then have "hUserLimiter h1 = hUserLimiter h" "admitted ph t1 t2 r h = None"
    using assms
    by (auto simp: login_admit_def admitted_def Let_def not_less split: if_splits option.splits prod.splits bool.splits)
  then show ?thesis by (intro exI [of _ "[]"]) simp
qed

lemma finish_effect:
  "\<exists>les. hUserLimiter (snd (login_finish kdf t3 t4 rnd (req, ck, uk) h)) =
      fold limiter_step les (hUserLimiter h) \<and> length les \<le> 1 \<and>
    (\<forall>l. allowed_attempts k l les = 0) \<and> (\<forall>e \<in> set les. \<exists>key. e = ESucceed key) \<and>
    releases k les \<le> (if uk = k \<and> rpStatus (fst (login_finish kdf t3 t4 rnd (req, ck, uk) h)) = 200 then 1 else 0)"
proof (cases "hUserLimiter (snd (login_finish kdf t3 t4 rnd (req, ck, uk) h)) = hUserLimiter h")
  case True
  then show ?thesis by (intro exI [of _ "[]"]) simp
next
  case False
  then have "hUserLimiter (snd (login_finish kdf t3 t4 rnd (req, ck, uk) h)) = Succeed uk (hUserLimiter h) \<and>
      rpStatus (fst (login_finish kdf t3 t4 rnd (req, ck, uk) h)) = 200"
    by (auto simp: login_finish_def plain_reply_def split: option.splits prod.splits bool.splits sum.splits)
  then show ?thesis by (intro exI [of _ "[ESucceed uk]"]) (simp add: allowed_def)
qed

lemma admitted_key:
  "login_admit ph t1 t2 r h = (Inr (req, ck, uk), h1) \<Longrightarrow>
   rBody r = Some req \<and> uk = limiter_user_key (lrUsername req)"
  by (auto simp: login_admit_def Let_def split: if_splits option.splits prod.splits bool.splits)

lemma allowed_attempts_append:
  "allowed_attempts k l (xs @ ys) = allowed_attempts k l xs + allowed_attempts k (fold limiter_step xs l) ys"
  by (induction xs arbitrary: l) simp_all

lemma other_routes_limiter:
  "route_of (rMethod r) (rPath r) \<noteq> RLogin \<Longrightarrow> hUserLimiter (snd (serve kdf ph c rnd r h)) = hUserLimiter h"
  by (auto simp: serve_def requireAuth_def requireAuthPage_def logout_def me_def currentSession_def
      split: route.split option.split prod.split)

lemma step_effect:
  "\<exists>les. limiter_effect ev k (password_checks ph k ev h) (if logs_in kdf ph k ev h then 1 else 0) les
    (hUserLimiter h) (hUserLimiter (server_step kdf ph ev h))"
proof (cases ev)
  case (Admit t1 t2 r)
  obtain x h1 where x: "login_admit ph t1 t2 r h = (x, h1)" by (cases "login_admit ph t1 t2 r h")
  from admit_effect [OF x, of k] obtain les where
    "hUserLimiter h1 = fold limiter_step les (hUserLimiter h)" "length les \<le> 1"
    "allowed_attempts k (hUserLimiter h) les = (if admitted ph t1 t2 r h = Some k then 1 else 0)"
    "\<forall>e \<in> set les. \<exists>key. e = EReserve t2 key" by blast
  then show ?thesis
    using releases_reserves by (intro exI [of _ les]) (auto simp: limiter_effect_def Admit x)
next
  case (Finish t3 t4 rnd p)
  obtain req ck uk where p: "p = (req, ck, uk)" by (cases p)
  from finish_effect [of kdf t3 t4 rnd req ck uk h k] obtain les where
    "hUserLimiter (snd (login_finish kdf t3 t4 rnd (req, ck, uk) h)) = fold limiter_step les (hUserLimiter h)"
    "length les \<le> 1" "\<forall>l. allowed_attempts k l les = 0" "\<forall>e \<in> set les. \<exists>key. e = ESucceed key"
    "releases k les \<le> (if logs_in kdf ph k ev h then 1 else 0)"
    by (auto simp: Finish p)
  then show ?thesis by (intro exI [of _ les]) (auto simp: limiter_effect_def Finish p)
next
  case (Serve c rnd r)
  show ?thesis
  proof (cases "route_of (rMethod r) (rPath r) = RLogin")
    case False
    with other_routes_limiter [OF False] show ?thesis
      by (intro exI [of _ "[]"]) (simp add: limiter_effect_def Serve)
  next
    case True
    obtain x h1 where x: "login_admit ph (cClient c) (cUser c) r h = (x, h1)"
      by (cases "login_admit ph (cClient c) (cUser c) r h")
    from admit_effect [OF x, of k] obtain les where les:
      "hUserLimiter h1 = fold limiter_step les (hUserLimiter h)" "length les \<le> 1"
      "allowed_attempts k (hUserLimiter h) les =
         (if admitted ph (cClient c) (cUser c) r h = Some k then 1 else 0)"
      "\<forall>e \<in> set les. \<exists>key. e = EReserve (cUser c) key" by blast
    show ?thesis
    proof (cases x)
      case (Inl rp)
      with True x les show ?thesis
        using releases_reserves [OF les(4)]
        by (intro exI [of _ les]) (auto simp: limiter_effect_def Serve serve_def login_def)
    next
      case (Inr p)
      obtain req ck uk where p: "p = (req, ck, uk)" by (cases p)
      have "login_admit ph (cClient c) (cUser c) r h = (Inr (req, ck, uk), h1)" using x Inr p by simp
      then have login: "login kdf ph c rnd r h = login_finish kdf (cSession c) (cCookie c) rnd (req, ck, uk) h1"
        and req: "rBody r = Some req" "uk = limiter_user_key (lrUsername req)"
        using admitted_key by (auto simp: login_def)
      from finish_effect [of kdf "cSession c" "cCookie c" rnd req ck uk h1 k] obtain les2 where les2:
        "hUserLimiter (snd (login kdf ph c rnd r h)) = fold limiter_step les2 (hUserLimiter h1)"
        "length les2 \<le> 1" "\<forall>l. allowed_attempts k l les2 = 0" "\<forall>e \<in> set les2. \<exists>key. e = ESucceed key"
        "releases k les2 \<le> (if logs_in kdf ph k ev h then 1 else 0)"
        using True req by (auto simp: login Serve)
      with True les releases_reserves [OF les(4)] show ?thesis
        by (intro exI [of _ "les @ les2"])
          (auto simp: limiter_effect_def Serve serve_def allowed_attempts_append)
    qed
  qed
qed

lemma run_effect:
  "\<exists>les. allowed_attempts k (hUserLimiter h) les = total_checks kdf ph k evs h \<and>
    length les \<le> 2 * length evs \<and> releases k les \<le> total_logins kdf ph k evs h \<and>
    (\<forall>t key. EReserve t key \<in> set les \<longrightarrow> (\<exists>ev \<in> set evs. t \<in> set (user_times ev)))"
proof (induction evs arbitrary: h)
  case Nil
  then show ?case by (intro exI [of _ "[]"]) simp
next
  case (Cons ev evs)
  obtain les1 where 1: "limiter_effect ev k (password_checks ph k ev h) (if logs_in kdf ph k ev h then 1 else 0)
      les1 (hUserLimiter h) (hUserLimiter (server_step kdf ph ev h))"
    using step_effect by blast
  from Cons obtain les2 where 2:
    "allowed_attempts k (hUserLimiter (server_step kdf ph ev h)) les2 =
       total_checks kdf ph k evs (server_step kdf ph ev h)"
    "length les2 \<le> 2 * length evs"
    "releases k les2 \<le> total_logins kdf ph k evs (server_step kdf ph ev h)"
    "\<forall>t key. EReserve t key \<in> set les2 \<longrightarrow> (\<exists>ev \<in> set evs. t \<in> set (user_times ev))"
    by blast
  show ?case
    by (rule exI [of _ "les1 @ les2"])
      (use 1 2 in \<open>auto simp: limiter_effect_def allowed_attempts_append\<close>)
qed

text \<open>
  C22. Guessing is throttled per user, from wherever it comes: within one window, in any
  interleaving of the requests of any clients with any headers, the passwords submitted
  for one user name (up to case and blanks) are checked at most \<open>max\<close> times, and at most \<open>max\<close> times more
  for every successful login of that user. The clock must not run backwards past the start of the window, and the run
  must be too short to fill the limiter's map (from its capacity on, new names drop old counters).
\<close>

theorem guessing_is_throttled:
  assumes "limiter_wf (hUserLimiter h)"
    and "length (attempts (hUserLimiter h)) + 2 * length evs \<le> maxLimiterKeys"
    and "\<forall>ev \<in> set evs. \<forall>t \<in> set (user_times ev). 0 \<le> t \<and> t0 \<le> t \<and> t < t0 + window (hUserLimiter h)"
  shows "int (total_checks kdf ph k evs h) \<le>
    maxAttempts (hUserLimiter h) * (1 + int (total_logins kdf ph k evs h))"
proof -
  obtain les where les:
    "allowed_attempts k (hUserLimiter h) les = total_checks kdf ph k evs h"
    "length les \<le> 2 * length evs" "releases k les \<le> total_logins kdf ph k evs h"
    "\<forall>t key. EReserve t key \<in> set les \<longrightarrow> (\<exists>ev \<in> set evs. t \<in> set (user_times ev))"
    using run_effect by blast
  have "\<forall>e \<in> set les. within_window t0 (window (hUserLimiter h)) e"
    using les(4) assms(3) unfolding within_window_def by blast
  moreover have "used t0 k 0 (hUserLimiter h)" using assms(1) by (simp add: used_def limiter_wf_def)
  ultimately have "int (0 + allowed_attempts k (hUserLimiter h) les) \<le>
      maxAttempts (hUserLimiter h) * (1 + int (releases k les))"
    using assms(1,2) les(2) by (intro allowed_attempts_budget) auto
  also have "\<dots> \<le> maxAttempts (hUserLimiter h) * (1 + int (total_logins kdf ph k evs h))"
    using les(3) assms(1) by (intro mult_left_mono) (auto simp: limiter_wf_def)
  finally show ?thesis using les(1) by simp
qed

text \<open>
  A server with two checks a window: four requests for one user, written in three ways and from four addresses;
  the bound is reached.
\<close>

definition guess :: "string \<Rightarrow> string \<Rightarrow> http_request" where
  "guess addr name =
     sample_request\<lparr>rForwardedFor := addr, rBody := Some \<lparr>lrUsername = name, lrPassword = ''guess''\<rparr>\<rparr>"

definition guesses :: "server_event list" where
  "guesses =
     [Admit 1 1 (guess ''1.1.1.1'' ''bob''), Admit 2 2 (guess ''2.2.2.2'' ''BOB''),
      Admit 3 3 (guess ''3.3.3.3'' '' bob ''), Admit 4 4 (guess ''4.4.4.4'' ''bob'')]"

definition strict_server :: server where
  "strict_server = (sample_server [])\<lparr>hUserLimiter := NewLoginLimiter 2 900\<rparr>"

lemma guess_request:
  "sameOriginRequest (\<lambda>_. None) (guess a n)" "rBody (guess a n) = Some \<lparr>lrUsername = n, lrPassword = ''guess''\<rparr>"
  by (simp_all add: guess_def sample_request_def sameOriginRequest_def)

lemma guess_client:
  "hTrustProxy h \<Longrightarrow> a \<noteq> [] \<Longrightarrow> trim_space (hd (split_on (CHR '','') a)) = a \<Longrightarrow> clientIP (guess a n) h = a"
  by (simp add: clientIP_def guess_def Let_def)

lemma guess_addresses:
  "\<forall>a \<in> {''1.1.1.1'', ''2.2.2.2'', ''3.3.3.3'', ''4.4.4.4''}. trim_space (hd (split_on (CHR '','') a)) = a"
  by code_simp

lemma guess_clients:
  assumes "hTrustProxy h" "a \<in> {''1.1.1.1'', ''2.2.2.2'', ''3.3.3.3'', ''4.4.4.4''}"
  shows "clientIP (guess a n) h = a"
  using guess_client [OF assms(1) _ bspec [OF guess_addresses assms(2)]] assms(2) by blast

lemma guess_names:
  "limiter_user_key ''BOB'' = limiter_user_key ''bob''" "limiter_user_key '' bob '' = limiter_user_key ''bob''"
  by code_simp+

lemma guesses_checked: "total_checks kdf (\<lambda>_. None) (limiter_user_key ''bob'') guesses strict_server = 2"
  by (simp add: guesses_def strict_server_def sample_server_def admitted_def login_admit_def guess_request guess_clients guess_names
      maxCredentialLen_def limiter_run)

lemma guessing_is_throttled_witness:
  "int (total_checks undefined (\<lambda>_. None) (limiter_user_key ''bob'') guesses strict_server) \<le> 2 \<and>
   total_checks undefined (\<lambda>_. None) (limiter_user_key ''bob'') guesses strict_server = 2"
proof -
  have l: "limiter_wf (hUserLimiter strict_server)" "maxAttempts (hUserLimiter strict_server) = 2"
    "attempts (hUserLimiter strict_server) = []" "window (hUserLimiter strict_server) = 900"
    by (simp_all add: strict_server_def limiter_wf_new) (simp_all add: NewLoginLimiter_def)
  have "total_logins undefined (\<lambda>_. None) (limiter_user_key ''bob'') guesses strict_server = 0"
    by (simp add: guesses_def)
  then show ?thesis
    using guesses_checked guessing_is_throttled [OF l(1), of guesses 1 undefined "\<lambda>_. None" "limiter_user_key ''bob''"]
    by (auto simp: l guesses_def maxLimiterKeys_def)
qed

section \<open>Before the first login\<close>

definition no_sessions :: "server \<Rightarrow> bool" where
  "no_sessions h \<longleftrightarrow> (\<exists>s. hSessions h = Some s \<and> session_map s = [])"

lemma no_sessions_current:
  assumes "no_sessions h"
  shows "fst (currentSession now r h) = None" "no_sessions (snd (currentSession now r h))"
  using assms by (auto simp: no_sessions_def currentSession_def Get_def split: option.split)

lemma no_sessions_finish:
  assumes "no_sessions h" "rpStatus (fst (login_finish kdf t3 t4 rnd p h)) \<noteq> 200"
  shows "no_sessions (snd (login_finish kdf t3 t4 rnd p h))"
proof -
  obtain s where s: "hSessions h = Some s" "session_map s = []" using assms(1) by (auto simp: no_sessions_def)
  have "session_map s' = []" if "Create t rnd user s = (Inl e, s')" for t user e s'
    using create_cases [OF that] s(2) by (auto simp: prune_sessions_def)
  with s assms(2) show ?thesis
    by (auto simp: no_sessions_def login_finish_def plain_reply_def split: prod.splits option.splits bool.splits sum.splits)
qed

lemma no_sessions_login:
  assumes "no_sessions h" "rpStatus (fst (login kdf ph c rnd r h)) \<noteq> 200"
  shows "no_sessions (snd (login kdf ph c rnd r h))"
proof (cases "login_admit ph (cClient c) (cUser c) r h")
  case (Pair x h1)
  then have h1: "no_sessions h1"
    using admit_sessions [of ph "cClient c" "cUser c" r h] assms(1) by (simp add: no_sessions_def)
  with Pair assms(2) no_sessions_finish [OF h1] show ?thesis by (cases x) (simp_all add: login_def)
qed

lemma login_ok_body: "rpStatus (fst (login kdf ph c rnd r h)) = 200 \<Longrightarrow> rBody r \<noteq> None"
proof (cases "login_admit ph (cClient c) (cUser c) r h")
  case (Pair x h1)
  assume ok: "rpStatus (fst (login kdf ph c rnd r h)) = 200"
  show ?thesis
  proof (cases x)
    case (Inl rp)
    with ok Pair show ?thesis
      by (auto simp: login_def login_admit_def writeError_def plain_reply_def writeLockout_def Let_def
          split: if_splits option.splits prod.splits bool.splits)
  next
    case (Inr p)
    obtain req ck uk where "p = (req, ck, uk)" by (cases p)
    with Pair Inr admitted_key show ?thesis by fastforce
  qed
qed

lemma no_sessions_step:
  assumes "no_sessions h" "\<forall>k. \<not> logs_in kdf ph k ev h"
  shows "no_sessions (server_step kdf ph ev h)"
proof (cases ev)
  case (Admit t1 t2 r)
  with assms(1) show ?thesis by (simp add: no_sessions_def admit_sessions)
next
  case (Finish t3 t4 rnd p)
  with assms have "rpStatus (fst (login_finish kdf t3 t4 rnd p h)) \<noteq> 200" by simp
  from no_sessions_finish [OF assms(1) this] show ?thesis by (simp add: Finish)
next
  case (Serve c rnd r)
  note cur = no_sessions_current [OF assms(1), of "cAuth c" r]
  show ?thesis
  proof (cases "route_of (rMethod r) (rPath r) = RLogin")
    case True
    then have "rpStatus (fst (login kdf ph c rnd r h)) \<noteq> 200"
      using assms(2) login_ok_body [of kdf ph c rnd r h] by (auto simp: Serve)
    from no_sessions_login [OF assms(1) this] True show ?thesis by (simp add: Serve serve_def)
  next
    case False
    moreover have "no_sessions (snd (logout ph r h))"
      using assms(1) by (auto simp: no_sessions_def logout_def Delete_def delete_key_def split: option.split)
    ultimately show ?thesis
      using cur assms(1)
      by (auto simp: Serve serve_def requireAuth_def requireAuthPage_def me_def
          split: route.split option.split prod.split)
  qed
qed

text \<open>Without a successful login of anyone there is no session.\<close>

lemma no_sessions_run:
  "no_sessions h \<Longrightarrow> \<forall>k. total_logins kdf ph k evs h = 0 \<Longrightarrow> no_sessions (fold (server_step kdf ph) evs h)"
proof (induction evs arbitrary: h)
  case (Cons ev evs)
  have "\<forall>k. \<not> logs_in kdf ph k ev h" "\<forall>k. total_logins kdf ph k evs (server_step kdf ph ev h) = 0"
    using Cons.prems(2) by (auto split: if_splits)
  with Cons.IH [OF no_sessions_step [OF Cons.prems(1)]] show ?case by simp
qed simp

end
