(* ===== verification/Endpoints.thy ===== *)
theory Endpoints
  imports Csv Scheduler AuthHandler
begin

text \<open>
  The data endpoints of \<^verbatim>\<open>handler/api.go\<close> behind the access control of \<open>AuthHandler\<close>: the
  lists, the CSV export and import, the health check, and the background synchronisation
  with its status. An answer is a value; \<open>Failure\<close> carries the HTTP status and leaves out the
  text of the error. The multipart form is already parsed: \<open>BadForm\<close> stands for an error of
  \<open>ParseMultipartForm\<close>, which an upload over the limit of 32 MiB also is. \<open>ping\<close> is the result of
  the database's \<open>Ping\<close>.
\<close>

section \<open>The background synchronisation\<close>

text \<open>
  \<open>syncState\<close> and, beside it, the number of goroutines \<open>syncAll\<close> has started that have not ended.
  What a goroutine does to the database is \<open>SyncAll\<close> of the scheduler; here its end counts,
  with what \<open>SyncAll\<close> returned.
\<close>

record sync_state =
  running :: bool
  startedAt :: gotime
  finishedAt :: gotime
  synced :: nat
  syncErrors :: "string list"

record sync_job =
  sjState :: sync_state
  sjRunners :: nat

definition initial_sync :: sync_job where
  "initial_sync =
     \<lparr>sjState = \<lparr>running = False, startedAt = 0, finishedAt = 0, synced = 0, syncErrors = []\<rparr>,
      sjRunners = 0\<rparr>"

definition stamp :: "gotime \<Rightarrow> string option" where
  "stamp t = (if IsZero t then None else Some (format_rfc3339 t))"

datatype sync_reply =
  SyncConflict nat "string option"
| SyncAccepted string
| SyncStatus bool nat "string list" "string option" "string option"

definition snapshot :: "sync_state \<Rightarrow> sync_reply" where
  "snapshot s =
     SyncStatus (running s) (synced s) (syncErrors s) (stamp (startedAt s)) (stamp (finishedAt s))"

definition syncAll :: "gotime \<Rightarrow> sync_job \<Rightarrow> sync_reply \<times> sync_job" where
  "syncAll now j =
     (let s = sjState j in
      if running s then (SyncConflict (synced s) (stamp (startedAt s)), j)
      else (SyncAccepted (format_rfc3339 now),
            j\<lparr>sjState := s\<lparr>running := True, startedAt := now, finishedAt := 0, synced := 0,
                         syncErrors := []\<rparr>,
              sjRunners := Suc (sjRunners j)\<rparr>))"

definition sync_done :: "gotime \<Rightarrow> nat \<Rightarrow> string list \<Rightarrow> sync_job \<Rightarrow> sync_job" where
  "sync_done now n errs j =
     j\<lparr>sjState := (sjState j)\<lparr>running := False, finishedAt := now, synced := n,
                              syncErrors := errs\<rparr>,
       sjRunners := sjRunners j - 1\<rparr>"

definition syncStatus :: "sync_job \<Rightarrow> sync_reply" where
  "syncStatus j = snapshot (sjState j)"

text \<open>A request starts a synchronisation at any time; a goroutine ends only if there is one.\<close>

datatype sync_event = PostSync gotime | SyncDone gotime nat "string list"

inductive sync_step :: "sync_job \<Rightarrow> sync_event \<Rightarrow> sync_job \<Rightarrow> bool" where
  post: "sync_step j (PostSync now) (snd (syncAll now j))"
| ended: "0 < sjRunners j \<Longrightarrow> sync_step j (SyncDone now n errs) (sync_done now n errs j)"

inductive_cases sync_stepE: "sync_step j ev j'"

inductive sync_trace :: "sync_event list \<Rightarrow> sync_job \<Rightarrow> bool" where
  start: "sync_trace [] initial_sync"
| step: "sync_trace evs j \<Longrightarrow> sync_step j ev j' \<Longrightarrow> sync_trace (evs @ [ev]) j'"

section \<open>Handlers\<close>

datatype api_reply =
  Failure nat
| Reservations "reservation list"
| Alerts "alert list"
| GpuCoverage "gpu_coverage list"
| SyncReply sync_reply
| CsvFile string string
| Imported nat nat nat
| Healthy
| Page

definition listReservations :: "faults \<Rightarrow> string \<Rightarrow> string \<Rightarrow> db \<Rightarrow> api_reply \<times> db" where
  "listReservations faults typeFilter accountFilter d =
     (case List faults typeFilter accountFilter d of
        (None, d1) \<Rightarrow> (Failure 500, d1)
      | (Some rows, d1) \<Rightarrow> (Reservations rows, d1))"

definition getAlerts ::
  "faults \<Rightarrow> (string \<Rightarrow> int option) \<Rightarrow> config \<Rightarrow> gotime \<Rightarrow> gotime \<Rightarrow> db \<Rightarrow> api_reply \<times> db" where
  "getAlerts faults jd cfg now now' d =
     (case GetAlerts faults jd now now' (MaxRemindDays cfg) (cfRemindDays cfg) d of
        (None, d1) \<Rightarrow> (Failure 500, d1)
      | (Some alerts, d1) \<Rightarrow> (Alerts alerts, d1))"

definition listGPUCoverage :: "faults \<Rightarrow> string \<Rightarrow> db \<Rightarrow> api_reply \<times> db" where
  "listGPUCoverage faults accountFilter d =
     (case ListGPUCoverage faults accountFilter d of
        (None, d1) \<Rightarrow> (Failure 500, d1)
      | (Some rows, d1) \<Rightarrow> (GpuCoverage rows, d1))"

text \<open>The name of the file has the date of the server's local time, whose offset from UTC is \<open>zone\<close>.\<close>

definition export_name :: "(gotime \<Rightarrow> duration) \<Rightarrow> gotime \<Rightarrow> string" where
  "export_name zone now =
     (case civil_of_days (day_of (now + zone now)) of (y, m, dd) \<Rightarrow>
        ''smartrenew_'' @ append_int 4 y @ append_int 2 m @ append_int 2 dd @ ''.csv'')"

definition exportCSV :: "faults \<Rightarrow> (gotime \<Rightarrow> duration) \<Rightarrow> gotime \<Rightarrow> db \<Rightarrow> api_reply \<times> db" where
  "exportCSV faults zone now d =
     (case List faults [] [] d of
        (None, d1) \<Rightarrow> (Failure 500, d1)
      | (Some rows, d1) \<Rightarrow> (CsvFile (export_name zone now) (utf8_bom @ Export rows), d1))"

datatype upload = BadForm | NoFile | Upload string

text \<open>The rows stored and the rows that failed.\<close>

fun import_loop :: "faults \<Rightarrow> clock \<Rightarrow> nat \<Rightarrow> nat \<Rightarrow> reservation list \<Rightarrow> db \<Rightarrow> (nat \<times> nat) \<times> db" where
  "import_loop faults clock ok failed [] d = ((ok, failed), d)"
| "import_loop faults clock ok failed (r # rs) d =
     (case Upsert faults (clock (dbStmts d)) r d of
        (False, d1) \<Rightarrow> import_loop faults clock ok (Suc failed) rs d1
      | (True, d1) \<Rightarrow> import_loop faults clock (Suc ok) failed rs d1)"

fun importCSV :: "faults \<Rightarrow> clock \<Rightarrow> upload \<Rightarrow> db \<Rightarrow> api_reply \<times> db" where
  "importCSV faults clock BadForm d = (Failure 400, d)"
| "importCSV faults clock NoFile d = (Failure 400, d)"
| "importCSV faults clock (Upload text) d =
     (case Import text of
        None \<Rightarrow> (Failure 400, d)
      | Some items \<Rightarrow>
          (case import_loop faults clock 0 0 items d of
             ((ok, failed), d1) \<Rightarrow> (Imported ok failed (length items), d1)))"

definition healthCheck :: "bool \<Rightarrow> api_reply" where
  "healthCheck ping = (if ping then Healthy else Failure 503)"

section \<open>Requests\<close>

text \<open>What a request meets: its parameters, the clocks, the faults of the database.\<close>

record env =
  eType :: string
  eAccount :: string
  eUpload :: upload
  eFaults :: faults
  eClock :: clock
  eJd :: "string \<Rightarrow> int option"
  eDbNow :: gotime
  eNow :: gotime
  eZone :: "gotime \<Rightarrow> duration"
  ePing :: bool

record api =
  apDb :: db
  apSync :: sync_job

definition on_db :: "(db \<Rightarrow> api_reply \<times> db) \<Rightarrow> api \<Rightarrow> api_reply \<times> api" where
  "on_db f a = (case f (apDb a) of (out, d) \<Rightarrow> (out, a\<lparr>apDb := d\<rparr>))"

text \<open>The handler of a route, by its path.\<close>

definition endpoint :: "config \<Rightarrow> env \<Rightarrow> string \<Rightarrow> api \<Rightarrow> api_reply \<times> api" where
  "endpoint cfg e path a =
     (if path = ''/api/reservations'' then on_db (listReservations (eFaults e) (eType e) (eAccount e)) a
      else if path = ''/api/alerts'' then on_db (getAlerts (eFaults e) (eJd e) cfg (eDbNow e) (eNow e)) a
      else if path = ''/api/sync''
      then (case syncAll (eNow e) (apSync a) of (out, j) \<Rightarrow> (SyncReply out, a\<lparr>apSync := j\<rparr>))
      else if path = ''/api/sync/status'' then (SyncReply (syncStatus (apSync a)), a)
      else if path = ''/api/export'' then on_db (exportCSV (eFaults e) (eZone e) (eNow e)) a
      else if path = ''/api/import'' then on_db (importCSV (eFaults e) (eClock e) (eUpload e)) a
      else if path = ''/api/gpu-coverage'' then on_db (listGPUCoverage (eFaults e) (eAccount e)) a
      else if path = ''health'' then (healthCheck (ePing e), a)
      else (Page, a))"

text \<open>A request through the access control: the reply of that, or the answer of the handler.\<close>

definition ServeHTTP ::
  "kdf \<Rightarrow> (string \<Rightarrow> string option) \<Rightarrow> clocks \<Rightarrow> string option \<Rightarrow> config \<Rightarrow> env \<Rightarrow> http_request \<Rightarrow>
   server \<times> api \<Rightarrow> (reply + api_reply) \<times> server \<times> api" where
  "ServeHTTP kdf ph c rnd cfg e r st =
     (case st of (h, a) \<Rightarrow>
      (case serve kdf ph c rnd r h of (rp, h') \<Rightarrow>
         (case rpBody rp of
            Handled path \<Rightarrow> (case endpoint cfg e path a of (out, a') \<Rightarrow> (Inr out, h', a'))
          | _ \<Rightarrow> (Inl rp, h', a))))"

section \<open>One synchronisation at a time\<close>

text \<open>
  What a client may rely on: the service never synchronised, synchronises since a time, or has
  done so between two times with a result.
\<close>

datatype sync_phase = Never | Running gotime | Done gotime gotime nat "string list"

fun phase_step :: "sync_event \<Rightarrow> sync_phase \<Rightarrow> sync_phase" where
  "phase_step (PostSync now) (Running t) = Running t"
| "phase_step (PostSync now) p = Running now"
| "phase_step (SyncDone now n errs) (Running t) = Done t now n errs"
| "phase_step (SyncDone now n errs) p = p"

definition phase_after :: "sync_event list \<Rightarrow> sync_phase" where
  "phase_after evs = fold phase_step evs Never"

fun sync_repr :: "sync_phase \<Rightarrow> sync_job" where
  "sync_repr Never = initial_sync"
| "sync_repr (Running t) =
     \<lparr>sjState = \<lparr>running = True, startedAt = t, finishedAt = 0, synced = 0, syncErrors = []\<rparr>,
      sjRunners = 1\<rparr>"
| "sync_repr (Done t u n errs) =
     \<lparr>sjState = \<lparr>running = False, startedAt = t, finishedAt = u, synced = n, syncErrors = errs\<rparr>,
      sjRunners = 0\<rparr>"

lemma phase_after_simps [simp]:
  "phase_after [] = Never" "phase_after (evs @ [ev]) = phase_step ev (phase_after evs)"
  by (simp_all add: phase_after_def)

lemma sync_repr_post: "snd (syncAll now (sync_repr p)) = sync_repr (phase_step (PostSync now) p)"
  by (cases p) (simp_all add: syncAll_def initial_sync_def Let_def)

lemma sync_repr_done:
  "0 < sjRunners (sync_repr p) \<Longrightarrow>
   sync_done now n errs (sync_repr p) = sync_repr (phase_step (SyncDone now n errs) p)"
  by (cases p) (simp_all add: sync_done_def initial_sync_def)

lemma sync_step_phase: "sync_step (sync_repr p) ev j \<Longrightarrow> j = sync_repr (phase_step ev p)"
  by (erule sync_stepE) (simp_all add: sync_repr_post sync_repr_done)

lemma sync_trace_phase: "sync_trace evs j \<Longrightarrow> j = sync_repr (phase_after evs)"
  by (induction rule: sync_trace.induct) (auto dest: sync_step_phase)

lemma runners_repr: "sjRunners (sync_repr p) = (case p of Running t \<Rightarrow> 1 | _ \<Rightarrow> 0)"
  by (cases p) (simp_all add: initial_sync_def)

text \<open>
  C28. However requests and the ends of synchronisations interleave, at most one synchronisation
  runs: the state of the service is that of the three-phase specification. So a request is
  turned down with 409 exactly while one runs, the status polled meanwhile says so, and after
  its end it shows its result until the next one starts.
\<close>

theorem one_sync_at_a_time:
  assumes "sync_trace evs j"
  shows "j = sync_repr (phase_after evs) \<and> sjRunners j \<le> 1 \<and>
    (sjRunners j = 1 \<longleftrightarrow> running (sjState j)) \<and>
    fst (syncAll now j) =
      (case phase_after evs of
         Running t \<Rightarrow> SyncConflict 0 (stamp t)
       | _ \<Rightarrow> SyncAccepted (format_rfc3339 now)) \<and>
    syncStatus j =
      (case phase_after evs of
         Never \<Rightarrow> SyncStatus False 0 [] None None
       | Running t \<Rightarrow> SyncStatus True 0 [] (stamp t) None
       | Done t u n errs \<Rightarrow> SyncStatus False n errs (stamp t) (stamp u))"
proof -
  from assms have j: "j = sync_repr (phase_after evs)" by (rule sync_trace_phase)
  have "stamp 0 = None" by (simp add: stamp_def IsZero_def)
  then show ?thesis
    unfolding j
    by (cases "phase_after evs")
      (simp_all add: syncAll_def syncStatus_def snapshot_def initial_sync_def Let_def)
qed

lemma one_sync_at_a_time_witness:
  "\<exists>j. sync_trace [PostSync 5, PostSync 6, SyncDone 9 2 []] j \<and> sjRunners j \<le> 1 \<and>
     syncStatus j = SyncStatus False 2 [] (stamp 5) (stamp 9)"
proof -
  have t: "sync_trace [] initial_sync" by (rule sync_trace.start)
  define j1 where "j1 = snd (syncAll 5 initial_sync)"
  have "sync_trace ([] @ [PostSync 5]) j1" unfolding j1_def by (rule sync_trace.step [OF t sync_step.post])
  then have t1: "sync_trace [PostSync 5] j1" by simp
  define j2 where "j2 = snd (syncAll 6 j1)"
  have "sync_trace ([PostSync 5] @ [PostSync 6]) j2" unfolding j2_def by (rule sync_trace.step [OF t1 sync_step.post])
  then have t2: "sync_trace [PostSync 5, PostSync 6] j2" by simp
  have "j2 = sync_repr (Running 5)" using sync_trace_phase [OF t2] by (simp add: phase_after_def)
  then have "0 < sjRunners j2" by simp
  then have "sync_trace ([PostSync 5, PostSync 6] @ [SyncDone 9 2 []]) (sync_done 9 2 [] j2)"
    by (intro sync_trace.step [OF t2] sync_step.ended)
  then obtain j3 where t3: "sync_trace [PostSync 5, PostSync 6, SyncDone 9 2 []] j3" by auto
  have phase: "phase_after [PostSync 5, PostSync 6, SyncDone 9 2 []] = Done 5 9 2 []"
    by (simp add: phase_after_def)
  have "sjRunners j3 \<le> 1 \<and> syncStatus j3 = SyncStatus False 2 [] (stamp 5) (stamp 9)"
    using one_sync_at_a_time [OF t3, of 0, unfolded phase sync_phase.case] by blast
  with t3 show ?thesis by blast
qed

section \<open>Who may change the service\<close>

text \<open>The tables and the synchronisation: what requests share, less the count of statements.\<close>

definition content :: "api \<Rightarrow> res_row list \<times> gpu_row list \<times> log_key list \<times> sync_job" where
  "content a = (dbRes (apDb a), dbGpu (apDb a), dbLog (apDb a), apSync a)"

lemma exec_id_tables:
  "\<exists>n. snd (exec faults id d) = d\<lparr>dbStmts := n\<rparr>"
  by (auto simp: exec_def Let_def)

lemma query_tables: "\<exists>n. snd (queryReservations faults cond order d) = d\<lparr>dbStmts := n\<rparr>"
  using exec_id_tables [of faults d]
  by (auto simp: queryReservations_def split: prod.split bool.split)

lemma snd_list [simp]:
  "snd (listReservations faults t ac d) = snd (List faults t ac d)"
  "snd (exportCSV faults zone now d) = snd (List faults [] [] d)"
  by (simp_all add: listReservations_def exportCSV_def split: prod.split option.split)

lemma snd_getAlerts [simp]:
  "snd (getAlerts faults jd cfg now now' d) =
   snd (queryReservations faults (alert_due jd now (MaxRemindDays cfg)) (jd_order jd) d)"
  by (simp add: getAlerts_def GetAlerts_def split: prod.split option.split)

lemma snd_listGPUCoverage [simp]: "snd (listGPUCoverage faults ac d) = snd (exec faults id d)"
  by (simp add: listGPUCoverage_def ListGPUCoverage_def split: prod.split option.split bool.split)

lemma read_tables:
  "\<exists>n. snd (listReservations faults t ac d) = d\<lparr>dbStmts := n\<rparr>"
  "\<exists>n. snd (getAlerts faults jd cfg now now' d) = d\<lparr>dbStmts := n\<rparr>"
  "\<exists>n. snd (listGPUCoverage faults ac d) = d\<lparr>dbStmts := n\<rparr>"
  "\<exists>n. snd (exportCSV faults zone now d) = d\<lparr>dbStmts := n\<rparr>"
  by (simp_all only: snd_list snd_getAlerts snd_listGPUCoverage exec_id_tables List_def query_tables)

lemma read_content:
  assumes "\<exists>n. snd (f (apDb a)) = (apDb a)\<lparr>dbStmts := n\<rparr>"
  shows "content (snd (on_db f a)) = content a"
  using assms by (auto simp: content_def on_db_def split: prod.split)

lemma read_contents:
  "content (snd (on_db (listReservations faults t ac) a)) = content a"
  "content (snd (on_db (getAlerts faults jd cfg now now') a)) = content a"
  "content (snd (on_db (listGPUCoverage faults ac) a)) = content a"
  "content (snd (on_db (exportCSV faults zone now) a)) = content a"
  by (rule read_content, rule read_tables)+

lemma endpoint_content:
  assumes "content (snd (endpoint cfg e path a)) \<noteq> content a"
  shows "path \<in> protected_post"
proof (rule ccontr)
  assume "path \<notin> protected_post"
  then have "content (snd (endpoint cfg e path a)) = content a"
    unfolding endpoint_def protected_post_def by (simp add: read_contents)
  with assms show False by simp
qed

text \<open>Which requests the access control hands on, and to which handler.\<close>

lemma login_body: "fst (login kdf ph c rnd r h) = rp \<Longrightarrow> rpBody rp \<noteq> Handled path"
proof -
  assume rp: "fst (login kdf ph c rnd r h) = rp"
  have admit: "rpBody x \<noteq> Handled path" if "login_admit ph t1 t2 r h = (Inl x, h')" for t1 t2 x h'
    using that
    by (auto simp: login_admit_def Let_def writeError_def plain_reply_def writeLockout_def
        split: if_splits option.splits prod.splits bool.splits)
  have finish: "rpBody (fst (login_finish kdf t3 t4 rnd q h')) \<noteq> Handled path" for t3 t4 q h'
    by (auto simp: login_finish_def writeError_def plain_reply_def
        split: prod.splits bool.splits sum.splits option.splits)
  from rp admit finish show ?thesis by (auto simp: login_def split: prod.splits sum.splits)
qed

lemma logout_body: "rpBody (fst (logout ph r h)) \<noteq> Handled path"
  by (simp add: logout_def writeError_def plain_reply_def split: option.split)

lemma me_body: "rpBody (fst (me t r h)) \<noteq> Handled path"
  by (simp add: me_def plain_reply_def split: option.split prod.split)

lemma handled_post:
  assumes "serve kdf ph c rnd r h = (rp, h')" "rpBody rp = Handled path" "path \<in> protected_post"
  shows "route_of (rMethod r) (rPath r) = RProtected path \<and>
    fst (requireAuth ph (cAuth c) (plain_reply 200 (Handled path)) r h) = rp"
proof -
  have rp: "fst (serve kdf ph c rnd r h) = rp" by (simp add: assms(1))
  show ?thesis
  proof (cases "route_of (rMethod r) (rPath r)")
    case (RProtected q)
    with rp have "fst (requireAuth ph (cAuth c) (plain_reply 200 (Handled q)) r h) = rp"
      by (simp add: serve_def)
    moreover from this assms(2) have "q = path"
      by (auto simp: requireAuth_def plain_reply_def writeError_def split: if_splits prod.splits option.splits)
    ultimately show ?thesis using RProtected by simp
  next
    case RPage
    with rp assms(2,3) show ?thesis
      by (auto simp: serve_def requireAuthPage_def plain_reply_def protected_post_def
          split: if_splits prod.splits option.splits)
  next
    case RLogin
    with rp assms(2) login_body [of kdf ph c rnd r h rp path] show ?thesis by (simp add: serve_def)
  next
    case RLogout
    with rp assms(2) logout_body [of ph r h path] show ?thesis by (simp add: serve_def)
  next
    case RMe
    with rp assms(2) me_body [of "cAuth c" r h path] show ?thesis by (simp add: serve_def)
  next
    case RHealth
    with rp assms(2,3) show ?thesis by (auto simp: serve_def plain_reply_def protected_post_def)
  qed
qed

lemma protected_post_method:
  "route_of meth path = RProtected p \<Longrightarrow> p \<in> protected_post \<Longrightarrow> meth = ''POST'' \<and> path = p"
  by (auto simp: route_of_def Let_def protected_post_def protected_get_def split: if_splits)

lemma requireAuth_handled:
  assumes "hSessions h = Some s" "sessions_wf s"
    and "rpBody (fst (requireAuth ph now (plain_reply 200 (Handled path)) r h)) = Handled path"
  shows "signed_in now r s \<noteq> None \<and> (isSafeMethod (rMethod r) \<or> sameOriginRequest ph r)"
proof -
  obtain res h' where c: "currentSession now r h = (res, h')" by (cases "currentSession now r h")
  then have "res = signed_in now r s"
    using currentSession_live [OF assms(1,2), of now r] by (simp add: signed_in_def)
  with c assms(1,3) show ?thesis
    by (auto simp: requireAuth_def writeError_def plain_reply_def split: if_splits option.splits)
qed

text \<open>
  C27. With authentication on, a request changes the tables or starts a synchronisation only if it is a
  \<open>POST\<close> to the synchronisation or the import, its cookie is the token of a session that has
  not expired, and it does not come from another origin. In particular no page of another site
  can make a signed-in browser change anything.
\<close>

theorem changes_are_authorised:
  assumes "hSessions h = Some s" "sessions_wf s"
    and "ServeHTTP kdf ph c rnd cfg e r (h, a) = (out, h', a')"
    and "content a' \<noteq> content a"
  shows "rMethod r = ''POST'' \<and> rPath r \<in> {''/api/sync'', ''/api/import''} \<and>
    signed_in (cAuth c) r s \<noteq> None \<and> sameOriginRequest ph r"
proof -
  obtain rp h1 where srv: "serve kdf ph c rnd r h = (rp, h1)" by (cases "serve kdf ph c rnd r h")
  from assms(3,4) srv obtain path where path: "rpBody rp = Handled path"
    and "a' = snd (endpoint cfg e path a)"
    by (cases "rpBody rp") (auto simp: ServeHTTP_def split: prod.splits)
  with assms(4) have post: "path \<in> protected_post" using endpoint_content by blast
  from handled_post [OF srv path post]
  have route: "route_of (rMethod r) (rPath r) = RProtected path"
    and rp: "fst (requireAuth ph (cAuth c) (plain_reply 200 (Handled path)) r h) = rp" by auto
  have meth: "rMethod r = ''POST''" "rPath r = path" using protected_post_method [OF route post] by auto
  then have "\<not> isSafeMethod (rMethod r)" by (simp add: isSafeMethod_def)
  with requireAuth_handled [OF assms(1,2), of ph "cAuth c" path r] rp path meth post show ?thesis
    by (auto simp: protected_post_def)
qed

definition sample_env :: env where
  "sample_env =
     \<lparr>eType = [], eAccount = [], eUpload = NoFile, eFaults = (\<lambda>_. False), eClock = (\<lambda>_. 0),
      eJd = (\<lambda>_. None), eDbNow = 0, eNow = 7, eZone = (\<lambda>_. 0), ePing = True\<rparr>"

definition sample_api :: api where
  "sample_api = \<lparr>apDb = \<lparr>dbRes = [], dbGpu = [], dbLog = [], dbStmts = 0\<rparr>, apSync = initial_sync\<rparr>"

definition sync_request :: "string \<Rightarrow> http_request" where
  "sync_request token = sample_request\<lparr>rPath := ''/api/sync'', rCookie := Some token\<rparr>"

lemma sample_session:
  "\<exists>token s. sessions_wf s \<and> live_session 1 s token \<noteq> None"
proof -
  define s0 where "s0 = NewSessionStore 0"
  have wf: "sessions_wf s0" by (simp add: s0_def NewSessionStore_def sessions_wf_def Hour_def)
  obtain token sess s where c: "Create 0 (Some ''t'') ''bob'' s0 = (Inr (token, sess), s)"
    by (simp add: Create_def s0_def NewSessionStore_def prune_sessions_def maxSessions_def Let_def)
  have "ExpiresAt sess = 0 + ttl s0" using sr.create_session [OF c] by auto
  then have "1 < ExpiresAt sess" by (simp add: s0_def NewSessionStore_def Hour_def)
  then have "live_session 1 s token = Some sess" using sr.live_create [OF wf c, of 1] by simp
  moreover have "sessions_wf s" using sr.wf_create [OF wf, of 0 "Some ''t''" "''bob''"] c by simp
  ultimately show ?thesis by blast
qed

lemma changes_are_authorised_witness:
  "\<exists>token s out h' a'.
     ServeHTTP undefined (\<lambda>_. None) sample_clocks None DefaultConfig sample_env (sync_request token)
       ((sample_server [])\<lparr>hSessions := Some s\<rparr>, sample_api) = (out, h', a') \<and>
     content a' \<noteq> content sample_api \<and> signed_in 1 (sync_request token) s \<noteq> None"
proof -
  obtain token s where s: "sessions_wf s" "live_session 1 s token \<noteq> None"
    using sample_session by blast
  let ?h = "(sample_server [])\<lparr>hSessions := Some s\<rparr>" and ?r = "sync_request token"
  let ?ph = "\<lambda>_::string. None :: string option"
  have h: "hSessions ?h = Some s" by simp
  obtain res h1 where c: "currentSession 1 ?r ?h = (res, h1)" by (cases "currentSession 1 ?r ?h")
  then have "res \<noteq> None"
    using currentSession_live [OF h s(1), of 1 ?r] s(2) by (simp add: sync_request_def)
  moreover have "sameOriginRequest ?ph ?r" by (simp add: sync_request_def sample_request_def sameOriginRequest_def)
  ultimately have "requireAuth ?ph 1 (plain_reply 200 (Handled ''/api/sync'')) ?r ?h =
      (plain_reply 200 (Handled ''/api/sync''), h1)"
    using c by (auto simp: requireAuth_def)
  moreover have "route_of (rMethod ?r) (rPath ?r) = RProtected ''/api/sync''"
    by (simp add: route_of_def protected_post_def sync_request_def sample_request_def)
  ultimately have srv: "serve undefined ?ph sample_clocks None ?r ?h = (plain_reply 200 (Handled ''/api/sync''), h1)"
    by (simp add: serve_def sample_clocks_def)
  obtain out a' where e: "endpoint DefaultConfig sample_env ''/api/sync'' sample_api = (out, a')"
    by (cases "endpoint DefaultConfig sample_env ''/api/sync'' sample_api")
  have run: "ServeHTTP undefined ?ph sample_clocks None DefaultConfig sample_env ?r (?h, sample_api) =
      (Inr out, h1, a')"
    by (simp add: ServeHTTP_def srv e plain_reply_def)
  have change: "content a' \<noteq> content sample_api"
    using e by (auto simp: endpoint_def content_def syncAll_def sample_api_def initial_sync_def Let_def)
  from changes_are_authorised [OF h s(1) run change] have "signed_in 1 ?r s \<noteq> None"
    by (simp add: sample_clocks_def)
  with run change show ?thesis by blast
qed

section \<open>Importing an exported file\<close>

text \<open>What an import leaves of a row it finds: the cost and the capacity are not in the file.\<close>

definition without_capacity :: "reservation \<Rightarrow> reservation" where
  "without_capacity r = r\<lparr>HourlyRate := 0, EquivCores := 0, CapacityUnit := []\<rparr>"

definition timeless :: "reservation \<Rightarrow> reservation" where
  "timeless r = r\<lparr>StartTime := 0, EndTime := 0, UpdatedAt := 0\<rparr>"

definition merge_data :: "reservation \<Rightarrow> reservation \<Rightarrow> reservation" where
  "merge_data old new =
     old\<lparr>Status := Status new, Quantity := Quantity new, UsedCount := UsedCount new,
         Description := Description new, HourlyRate := HourlyRate new, EquivCores := EquivCores new,
         CapacityUnit := CapacityUnit new\<rparr>"

definition res_data :: "db \<Rightarrow> reservation list" where
  "res_data d = map rrData (dbRes d)"

lemma upserts_known:
  assumes "distinct (map k xs)" "\<forall>r \<in> set rs. k r \<in> k ` set xs"
    and "\<forall>r \<in> set rs. \<forall>x \<in> set xs. k x = k r \<longrightarrow> m x r = g x \<and> m (g x) r = g x"
    and g: "\<And>x. k (g x) = k x" "\<And>x. g (g x) = g x"
  shows "fold (upsert_key k m) rs xs = map (\<lambda>x. if k x \<in> k ` set rs then g x else x) xs"
  using assms(1-3)
proof (induction rs arbitrary: xs)
  case (Cons r rs)
  let ?xs = "map (\<lambda>x. if k x = k r then g x else x) xs"
  have "upsert_key k m r xs = map (\<lambda>x. if k x = k r then m x r else x) xs"
    using Cons.prems by (intro upsert_key_map) auto
  also have "\<dots> = ?xs" using Cons.prems(3) by auto
  finally have one: "upsert_key k m r xs = ?xs" .
  have keys: "map k ?xs = map k xs" by (simp add: g)
  have "distinct (map k ?xs)" unfolding keys by (rule Cons.prems(1))
  moreover have "k ` set ?xs = k ` set xs" using keys by (metis set_map)
  then have "\<forall>r \<in> set rs. k r \<in> k ` set ?xs" using Cons.prems(2) by simp
  moreover have "\<forall>r \<in> set rs. \<forall>x \<in> set ?xs. k x = k r \<longrightarrow> m x r = g x \<and> m (g x) r = g x"
    using Cons.prems(3) by (auto simp: g)
  ultimately have "fold (upsert_key k m) rs ?xs = map (\<lambda>x. if k x \<in> k ` set rs then g x else x) ?xs"
    by (rule Cons.IH)
  then show ?case by (simp add: one g)
qed simp

lemma res_data_upsert:
  "res_data (upsert_stmt now r d) = upsert_key ID merge_data (timeless r) (res_data d)"
  unfolding res_data_def upsert_stmt_def
  using map_upsert_key [where f = rrData and k = row_id and k' = ID and m = merge_row
      and m' = merge_data and r = "to_row now r" and rs = "dbRes d"]
  by (simp add: row_id_def merge_row_def merge_data_def to_row_def timeless_def)

text \<open>A database without faults stores every row of the file.\<close>

lemma import_loop_ok:
  "\<exists>d1. import_loop (\<lambda>_. False) clock ok failed rs d = ((ok + length rs, failed), d1) \<and>
     res_data d1 = fold (upsert_key ID merge_data) (map timeless rs) (res_data d) \<and>
     dbGpu d1 = dbGpu d \<and> dbLog d1 = dbLog d"
proof (induction rs arbitrary: ok d)
  case (Cons r rs)
  define d1 where "d1 = (upsert_stmt (clock (dbStmts d)) r d)\<lparr>dbStmts := Suc (dbStmts d)\<rparr>"
  have up: "Upsert (\<lambda>_. False) (clock (dbStmts d)) r d = (True, d1)"
    by (simp add: Upsert_def exec_def d1_def)
  have data: "res_data d1 = upsert_key ID merge_data (timeless r) (res_data d)"
    using res_data_upsert [of "clock (dbStmts d)" r d] by (simp add: d1_def res_data_def)
  have rest: "dbGpu d1 = dbGpu d" "dbLog d1 = dbLog d" by (simp_all add: d1_def upsert_stmt_def)
  from Cons.IH [of "Suc ok" d1] data rest show ?case by (auto simp: up)
qed simp

text \<open>The rows the fetchers store: with an ID made of account, region and resource, and exportable.\<close>

definition fetched_row :: "res_row \<Rightarrow> bool" where
  "fetched_row row \<longleftrightarrow>
     exportable (read_row row) \<and> has_ids (rrData row) \<and>
     ID (rrData row) =
       canonical_id (AccountID (rrData row)) (Region (rrData row)) (ResourceID (rrData row)) \<and>
     timeless (rrData row) = rrData row"

lemma merge_exported:
  assumes "x = rrData row" "fetched_row row"
  defines "r \<equiv> timeless ((reimported (read_row row))\<lparr>AccountAlias := []\<rparr>)"
  shows "ID r = ID x" "merge_data x r = without_capacity x"
    "merge_data (without_capacity x) r = without_capacity x"
  using assms(1,2)
  by (simp_all add: r_def reimported_def read_row_def timeless_def merge_data_def
      without_capacity_def fetched_row_def)

lemma merge_exported_all:
  assumes "db_wf d" "\<forall>row \<in> set (dbRes d). fetched_row row" "row \<in> set (dbRes d)"
  defines "r \<equiv> timeless ((reimported (read_row row))\<lparr>AccountAlias := []\<rparr>)"
  shows "ID r \<in> ID ` set (res_data d)"
    and "\<forall>x \<in> set (res_data d). ID x = ID r \<longrightarrow>
      merge_data x r = without_capacity x \<and> merge_data (without_capacity x) r = without_capacity x"
proof -
  note m = merge_exported [OF refl bspec [OF assms(2,3)], folded r_def]
  have mem: "rrData row \<in> set (res_data d)" using assms(3) by (simp add: res_data_def)
  show "ID r \<in> ID ` set (res_data d)" unfolding m(1) using mem by (rule imageI)
  have "distinct (map ID (res_data d))"
    using assms(1) by (simp add: db_wf_def res_data_def row_id_def [abs_def] comp_def)
  then have inj: "inj_on ID (set (res_data d))" by (simp only: distinct_map)
  have "x = rrData row" if "x \<in> set (res_data d)" "ID x = ID r" for x
    by (rule inj_onD [OF inj trans [OF that(2) m(1)] that(1) mem])
  with m(2,3) show "\<forall>x \<in> set (res_data d). ID x = ID r \<longrightarrow>
      merge_data x r = without_capacity x \<and> merge_data (without_capacity x) r = without_capacity x"
    by metis
qed

text \<open>The rows of an exported file, upserted into the tables they come from.\<close>

lemma upsert_exported:
  assumes "db_wf d" "\<forall>row \<in> set (dbRes d). fetched_row row" "set rows = read_row ` set (dbRes d)"
  defines "rs \<equiv> map timeless (map (\<lambda>r. (reimported r)\<lparr>AccountAlias := []\<rparr>) rows)"
  shows "fold (upsert_key ID merge_data) rs (res_data d) = map without_capacity (res_data d)"
proof -
  have from_row: "\<exists>row \<in> set (dbRes d). r = timeless ((reimported (read_row row))\<lparr>AccountAlias := []\<rparr>)"
    if "r \<in> set rs" for r
    using that assms(3) by (auto simp: rs_def)
  have covered: "ID x \<in> ID ` set rs" if "x \<in> set (res_data d)" for x
  proof -
    from that obtain row where row: "row \<in> set (dbRes d)" "x = rrData row" by (auto simp: res_data_def)
    then have "timeless ((reimported (read_row row))\<lparr>AccountAlias := []\<rparr>) \<in> set rs"
      using assms(3) by (auto simp: rs_def)
    moreover have "ID (timeless ((reimported (read_row row))\<lparr>AccountAlias := []\<rparr>)) = ID x"
      using merge_exported(1) [OF row(2)] row(1) assms(2) by blast
    ultimately show ?thesis by (metis imageI)
  qed
  have "distinct (map ID (res_data d))"
    using assms(1) by (simp add: db_wf_def res_data_def row_id_def [abs_def] comp_def)
  then have "fold (upsert_key ID merge_data) rs (res_data d) =
      map (\<lambda>x. if ID x \<in> ID ` set rs then without_capacity x else x) (res_data d)"
  proof (rule upserts_known)
    show "\<forall>r \<in> set rs. ID r \<in> ID ` set (res_data d)"
      using from_row merge_exported_all(1) [OF assms(1,2)] by blast
    show "\<forall>r \<in> set rs. \<forall>x \<in> set (res_data d). ID x = ID r \<longrightarrow>
        merge_data x r = without_capacity x \<and> merge_data (without_capacity x) r = without_capacity x"
    proof
      fix r assume "r \<in> set rs"
      from from_row [OF this] show "\<forall>x \<in> set (res_data d). ID x = ID r \<longrightarrow>
          merge_data x r = without_capacity x \<and> merge_data (without_capacity x) r = without_capacity x"
        using merge_exported_all(2) [OF assms(1,2)] by blast
    qed
  qed (simp_all add: without_capacity_def)
  also have "\<dots> = map without_capacity (res_data d)" using covered by simp
  finally show ?thesis .
qed

text \<open>
  C38. Importing the file the service has just exported changes no reservation's identity, texts or
  counts, and adds none, but it sets the hourly rate, the capacity and its unit of every
  reservation to nothing: the file does not have these columns, and the import overwrites them.
\<close>

theorem reimport_clears_capacity:
  assumes "db_wf d" "\<forall>row \<in> set (dbRes d). fetched_row row"
    and "exportCSV (\<lambda>_. False) zone now d = (CsvFile name text, d1)"
    and "importCSV (\<lambda>_. False) clock (Upload text) d1 = (out, d2)"
  shows "out = Imported (length (dbRes d)) 0 (length (dbRes d)) \<and>
    res_data d2 = map without_capacity (res_data d) \<and> dbGpu d2 = dbGpu d \<and> dbLog d2 = dbLog d"
proof -
  define rows where "rows = map read_row (sort_key rrEnd (dbRes d))"
  define items where "items = map (\<lambda>r. (reimported r)\<lparr>AccountAlias := []\<rparr>) rows"
  have "List (\<lambda>_. False) [] [] d = (Some rows, d\<lparr>dbStmts := Suc (dbStmts d)\<rparr>)"
    by (simp add: List_def queryReservations_def exec_def rows_def)
  with assms(3) have csv: "text = utf8_bom @ Export rows" and d1: "d1 = d\<lparr>dbStmts := Suc (dbStmts d)\<rparr>"
    by (auto simp: exportCSV_def)
  have d1_data: "res_data d1 = res_data d" "dbGpu d1 = dbGpu d" "dbLog d1 = dbLog d"
    by (simp_all add: d1 res_data_def)
  have from_row: "\<exists>row \<in> set (dbRes d). r = read_row row" if "r \<in> set rows" for r
    using that by (auto simp: rows_def)
  have "\<forall>r \<in> set rows. exportable r \<and> has_ids r"
    using from_row assms(2) by (fastforce simp: fetched_row_def read_row_def has_ids_def)
  then have "Import text = Some items"
    by (simp add: csv import_exported_file items_def filter_True)
  moreover obtain d3 where loop: "import_loop (\<lambda>_. False) clock 0 0 items d1 = ((length items, 0), d3)"
    and d3: "res_data d3 = fold (upsert_key ID merge_data) (map timeless items) (res_data d)"
    "dbGpu d3 = dbGpu d" "dbLog d3 = dbLog d"
    using import_loop_ok [of clock 0 0 items d1] d1_data by auto
  ultimately have out: "out = Imported (length items) 0 (length items)" "d2 = d3"
    using assms(4) by auto
  have "set rows = read_row ` set (dbRes d)" by (simp add: rows_def)
  from upsert_exported [OF assms(1,2) this] have data: "res_data d3 = map without_capacity (res_data d)"
    by (simp only: d3(1) items_def)
  have "length items = length (dbRes d)" by (simp add: items_def rows_def)
  with data d3(2,3) out show ?thesis by simp
qed

definition stored_sample :: db where
  "stored_sample =
     \<lparr>dbRes = [\<lparr>rrData = sample_row, rrStart = [], rrEnd = [], rrUpdated = []\<rparr>], dbGpu = [], dbLog = [],
      dbStmts = 0\<rparr>"

lemma fetched_sample: "\<forall>row \<in> set (dbRes stored_sample). fetched_row row" "db_wf stored_sample"
proof -
  have "exportable (read_row (hd (dbRes stored_sample)))" "has_ids sample_row"
    "ID sample_row = canonical_id (AccountID sample_row) (Region sample_row) (ResourceID sample_row)"
    "timeless sample_row = sample_row"
    by code_simp+
  then show "\<forall>row \<in> set (dbRes stored_sample). fetched_row row"
    by (simp add: stored_sample_def fetched_row_def)
  show "db_wf stored_sample" by (simp add: stored_sample_def db_wf_def)
qed

lemma reimport_clears_capacity_witness:
  "\<exists>name text d1 d2. exportCSV (\<lambda>_. False) (\<lambda>_. 0) 0 stored_sample = (CsvFile name text, d1) \<and>
     importCSV (\<lambda>_. False) (\<lambda>_. 9) (Upload text) d1 = (Imported 1 0 1, d2) \<and>
     res_data d2 = [sample_row\<lparr>HourlyRate := 0\<rparr>]"
proof -
  obtain name csv d1 where e: "exportCSV (\<lambda>_. False) (\<lambda>_. 0) 0 stored_sample = (CsvFile name csv, d1)"
    by (simp add: exportCSV_def List_def queryReservations_def exec_def)
  obtain out d2 where i: "importCSV (\<lambda>_. False) (\<lambda>_. 9) (Upload csv) d1 = (out, d2)"
    by (cases "importCSV (\<lambda>_. False) (\<lambda>_. 9) (Upload csv) d1")
  have "map without_capacity (res_data stored_sample) = [sample_row\<lparr>HourlyRate := 0\<rparr>]"
    "length (dbRes stored_sample) = 1"
    by code_simp+
  with reimport_clears_capacity [OF fetched_sample(2,1) e i] e i show ?thesis by metis
qed

end
