(* ===== verification/Migration.thy ===== *)
theory Migration
  imports Store
begin

text \<open>
  The migrations of \<^verbatim>\<open>store/sqlite.go\<close> that touch data: the rebuild of the reminder log under a key
  with the expiry, and the rewriting of timestamps that older versions stored in the layout of
  RFC 3339. The schema is what the two tables of the log may be; a table that does not exist is
  \<open>None\<close>. A start that fails, or a crash, runs a prefix of the statements: they are not in a
  transaction. Columns that are added get their defaults when a table is read, and are left out.
  SQLite's \<open>strftime\<close> is the parameter \<open>sf\<close>, \<open>None\<close> for \<open>NULL\<close>.
  \<open>Schema\<close> has the whole migration, on tables with columns, which refines the one of the log here.
\<close>

section \<open>The reminder log\<close>

record log_tables =
  notify_log :: "log_key list option"
  notify_log_new :: "log_key list option"

type_synonym log_stmt = "log_tables \<Rightarrow> log_tables"

definition create_log :: log_stmt where
  "create_log t = t\<lparr>notify_log := Some (case notify_log t of None \<Rightarrow> [] | Some l \<Rightarrow> l)\<rparr>"

definition create_new :: log_stmt where
  "create_new t = t\<lparr>notify_log_new := Some (case notify_log_new t of None \<Rightarrow> [] | Some l \<Rightarrow> l)\<rparr>"

text \<open>\<open>INSERT OR IGNORE\<close>: a key that is there already is passed over.\<close>

fun insert_ignore :: "log_key list \<Rightarrow> log_key list \<Rightarrow> log_key list" where
  "insert_ignore [] new = new"
| "insert_ignore (k # ks) new = insert_ignore ks (if k \<in> set new then new else new @ [k])"

definition copy_log :: log_stmt where
  "copy_log t =
     (case (notify_log t, notify_log_new t) of
        (Some l, Some n) \<Rightarrow> t\<lparr>notify_log_new := Some (insert_ignore l n)\<rparr>
      | _ \<Rightarrow> t)"

definition drop_log :: log_stmt where
  "drop_log t = t\<lparr>notify_log := None\<rparr>"

definition rename_new :: log_stmt where
  "rename_new t = t\<lparr>notify_log := notify_log_new t, notify_log_new := None\<rparr>"

text \<open>
  The SQL of the indexes of the log that have any: the program creates none by a statement of its own, and
  the automatic index of a \<open>UNIQUE\<close> constraint has no SQL.
\<close>

definition index_sql :: string where
  "index_sql = []"

definition migrateNotifyLogKey :: "log_stmt list" where
  "migrateNotifyLogKey =
     (if contains index_sql ''end_time'' then [] else [create_new, copy_log, drop_log, rename_new])"

definition log_migration :: "log_stmt list" where
  "log_migration = create_log # migrateNotifyLogKey"

text \<open>A start that gets through \<open>k\<close> of the statements, and one that gets through all.\<close>

definition crashed_start :: "nat \<Rightarrow> log_stmt" where
  "crashed_start k t = fold (\<lambda>f t. f t) (take k log_migration) t"

definition full_start :: log_stmt where
  "full_start t = fold (\<lambda>f t. f t) log_migration t"

section \<open>Timestamps\<close>

text \<open>\<open>LIKE '%T%'\<close>, which does not tell cases apart.\<close>

definition like_T :: "string \<Rightarrow> bool" where
  "like_T s \<longleftrightarrow> list_ex (\<lambda>c. c = CHR ''T'' \<or> c = CHR ''t'') s"

definition normalise_text :: "(string \<Rightarrow> string option) \<Rightarrow> string \<Rightarrow> string" where
  "normalise_text sf s = (if like_T s then (case sf s of None \<Rightarrow> s | Some s' \<Rightarrow> s') else s)"

definition normalise_stmts :: "(string \<Rightarrow> string option) \<Rightarrow> (db \<Rightarrow> db) list" where
  "normalise_stmts sf =
     [\<lambda>d. d\<lparr>dbRes := map (\<lambda>row. row\<lparr>rrStart := normalise_text sf (rrStart row)\<rparr>) (dbRes d)\<rparr>,
      \<lambda>d. d\<lparr>dbRes := map (\<lambda>row. row\<lparr>rrEnd := normalise_text sf (rrEnd row)\<rparr>) (dbRes d)\<rparr>,
      \<lambda>d. d\<lparr>dbRes := map (\<lambda>row. row\<lparr>rrUpdated := normalise_text sf (rrUpdated row)\<rparr>) (dbRes d)\<rparr>,
      \<lambda>d. d\<lparr>dbGpu := map (\<lambda>row. row\<lparr>grUpdated := normalise_text sf (grUpdated row)\<rparr>) (dbGpu d)\<rparr>]"

definition normaliseStoredTimestamps :: "faults \<Rightarrow> (string \<Rightarrow> string option) \<Rightarrow> db \<Rightarrow> bool \<times> db" where
  "normaliseStoredTimestamps faults sf d = exec_all faults (normalise_stmts sf) d"

section \<open>The log survives\<close>

definition table :: "log_key list option \<Rightarrow> log_key list" where
  "table t = (case t of None \<Rightarrow> [] | Some l \<Rightarrow> l)"

text \<open>Between two starts: every reminder is in one of the tables, and once in the new one.\<close>

definition log_held :: "log_key set \<Rightarrow> log_tables \<Rightarrow> bool" where
  "log_held K t \<longleftrightarrow>
     set (table (notify_log t)) \<union> set (table (notify_log_new t)) = K \<and>
     distinct (table (notify_log_new t))"

lemma insert_ignore:
  "set (insert_ignore ks n) = set ks \<union> set n" "distinct n \<Longrightarrow> distinct (insert_ignore ks n)"
  by (induction ks n rule: insert_ignore.induct) auto

lemma log_migration_stmts: "log_migration = [create_log, create_new, copy_log, drop_log, rename_new]"
proof -
  have "\<not> contains index_sql ''end_time''" by code_simp
  then show ?thesis by (simp add: log_migration_def migrateNotifyLogKey_def)
qed

lemmas log_stmt_defs = create_log_def create_new_def copy_log_def drop_log_def rename_new_def

lemma start_steps:
  assumes "log_held K t"
  shows "log_held K (create_log t)" "log_held K (create_new (create_log t))"
    "log_held K (copy_log (create_new (create_log t)))"
    "log_held K (drop_log (copy_log (create_new (create_log t))))"
    "log_held K (full_start t)"
  using assms
  by (auto simp: full_start_def log_migration_stmts log_held_def log_stmt_defs table_def insert_ignore
      split: option.splits)

lemma crashed_start_held:
  assumes "log_held K t"
  shows "log_held K (crashed_start k t)"
proof -
  note s = start_steps [OF assms]
  consider "k = 0" | "k = 1" | "k = 2" | "k = 3" | "k = 4" | "5 \<le> k" by linarith
  then show ?thesis
    by cases (use assms s in \<open>simp_all add: crashed_start_def full_start_def log_migration_stmts numeral_eq_Suc\<close>)
qed

lemma full_start_log:
  assumes "log_held K t"
  shows "\<exists>l. notify_log (full_start t) = Some l \<and> set l = K \<and> distinct l \<and> notify_log_new (full_start t) = None"
  using assms
  by (auto simp: full_start_def log_migration_stmts log_held_def log_stmt_defs table_def insert_ignore
      split: option.splits)

text \<open>
  However often the start fails or crashes amid the rebuild of the log, no reminder is forgotten
  and none is made up: once a start gets through, the log holds exactly the reminders it held before,
  each once.
\<close>

theorem migration_keeps_log:
  "\<exists>l'. full_start (fold crashed_start ks \<lparr>notify_log = Some l, notify_log_new = None\<rparr>) =
      \<lparr>notify_log = Some l', notify_log_new = None\<rparr> \<and> set l' = set l \<and> distinct l'"
proof -
  define t where "t = fold crashed_start ks \<lparr>notify_log = Some l, notify_log_new = None\<rparr>"
  have "log_held K (fold crashed_start ks u)" if "log_held K u" for K u
    using that by (induction ks arbitrary: u) (simp_all add: crashed_start_held)
  moreover have "log_held (set l) \<lparr>notify_log = Some l, notify_log_new = None\<rparr>"
    by (simp add: log_held_def table_def)
  ultimately have "log_held (set l) t" by (simp add: t_def)
  from full_start_log [OF this] obtain l' where "notify_log (full_start t) = Some l'"
    "set l' = set l" "distinct l'" "notify_log_new (full_start t) = None" by blast
  then show ?thesis unfolding t_def [symmetric] by (intro exI [of _ l']) (cases "full_start t"; simp)
qed

lemma migration_keeps_log_witness:
  "\<exists>l'. full_start (fold crashed_start [3, 4] \<lparr>notify_log = Some [(''r'', ''t7'', [])], notify_log_new = None\<rparr>) =
      \<lparr>notify_log = Some l', notify_log_new = None\<rparr> \<and> set l' = {(''r'', ''t7'', [])}"
  using migration_keeps_log [of "[3, 4]" "[(''r'', ''t7'', [])]"] by auto

section \<open>The timestamps become comparable\<close>

text \<open>
  The RFC 3339 text of the instant \<open>t\<close> in a zone \<open>off\<close> minutes ahead of UTC, as Go writes it.
\<close>

definition zone_text :: "int \<Rightarrow> string" where
  "zone_text off =
     (if off = 0 then ''Z''
      else (if off < 0 then CHR ''-'' else CHR ''+'') # append_int 2 (\<bar>off\<bar> div 60) @ CHR '':'' # append_int 2 (\<bar>off\<bar> mod 60))"

definition legacy_text :: "gotime \<Rightarrow> int \<Rightarrow> string" where
  "legacy_text t off =
     (let u = t + off * 60 * nano in format_date u @ CHR ''T'' # format_clock u @ zone_text off)"

text \<open>What SQLite documents of \<open>strftime\<close>: it reads such a text and renders the instant in UTC.\<close>

definition strftime_ok :: "(string \<Rightarrow> string option) \<Rightarrow> bool" where
  "strftime_ok sf \<longleftrightarrow>
     (\<forall>t off. storable t \<and> storable (t + off * 60 * nano) \<and> \<bar>off\<bar> \<le> 14 * 60 \<longrightarrow>
        sf (legacy_text t off) = Some (format_sql t))"

definition legacy_time :: "string \<Rightarrow> gotime \<Rightarrow> bool" where
  "legacy_time s t \<longleftrightarrow>
     storable t \<and> (\<exists>off. s = legacy_text t off \<and> storable (t + off * 60 * nano) \<and> \<bar>off\<bar> \<le> 14 * 60)"

lemma like_T_simps [simp]:
  "\<not> like_T []" "like_T (c # s) \<longleftrightarrow> c = CHR ''T'' \<or> c = CHR ''t'' \<or> like_T s"
  "like_T (s @ t) \<longleftrightarrow> like_T s \<or> like_T t"
  by (auto simp: like_T_def)

lemma like_T_code: "\<forall>c \<in> set s. code c < 84 \<Longrightarrow> \<not> like_T s"
proof -
  have "code (CHR ''T'') = 84" "code (CHR ''t'') = 116" by (simp_all add: code_def)
  then show "\<forall>c \<in> set s. code c < 84 \<Longrightarrow> \<not> like_T s" by (force simp: like_T_def list_ex_iff)
qed

lemma like_T_append_int [simp]: "\<not> like_T (append_int w i)"
proof -
  have nat: "\<not> like_T (nat_digits n)" for n
    using nat_digits_digits [of _ n] by (intro like_T_code) fastforce
  have "\<not> like_T (replicate m (CHR ''0''))" for m by (induction m) simp_all
  then have "\<not> like_T (pad_digits w n)" for n by (simp add: pad_digits_def Let_def nat)
  then show ?thesis by (simp add: append_int_def)
qed

lemma like_T_format_sql [simp]: "\<not> like_T (format_sql t)"
  by (simp add: format_sql_def format_date_def format_clock_def Let_def split: prod.split)

lemma like_T_canonical: "canonical_time s \<Longrightarrow> \<not> like_T s"
  by (auto elim!: canonical_timeE)

lemma like_T_legacy [simp]: "like_T (legacy_text t off)"
  by (simp add: legacy_text_def Let_def)

lemma normalise_canonical: "canonical_time s \<Longrightarrow> normalise_text sf s = s"
  by (simp add: normalise_text_def like_T_canonical)

lemma normalise_legacy: "strftime_ok sf \<Longrightarrow> legacy_time s t \<Longrightarrow> normalise_text sf s = format_sql t"
  by (auto simp: legacy_time_def normalise_text_def strftime_ok_def)

lemma canonical_format_sql: "storable t \<Longrightarrow> canonical_time (format_sql t)"
  using storable_truncate [of t] by (simp add: canonical_time_def storable_def parse_sql_format_sql)

lemma normalise_result:
  assumes "normaliseStoredTimestamps faults sf d = (True, d')"
  shows "dbRes d' = map (\<lambda>row. row\<lparr>rrStart := normalise_text sf (rrStart row),
      rrEnd := normalise_text sf (rrEnd row), rrUpdated := normalise_text sf (rrUpdated row)\<rparr>) (dbRes d) \<and>
    dbLog d' = dbLog d"
  using assms
  by (auto simp: normaliseStoredTimestamps_def normalise_stmts_def exec_def Let_def split: if_splits)

text \<open>
  After the timestamps were rewritten, every stored expiry has the layout in which texts compare as
  instants do, which the lists and alerts rely on: an expiry an older version wrote, in whatever zone,
  reads as the same instant to the second, and one that had the layout is as it was.
\<close>

theorem migration_makes_comparable:
  assumes "strftime_ok sf"
    and "\<forall>row \<in> set (dbRes d). canonical_time (rrEnd row) \<or> (\<exists>t. legacy_time (rrEnd row) t)"
    and "normaliseStoredTimestamps faults sf d = (True, d')"
  shows "stored_ok d' \<and> list_all2 (\<lambda>row row'. rrData row' = rrData row \<and>
      (canonical_time (rrEnd row) \<longrightarrow> rrEnd row' = rrEnd row) \<and>
      (\<forall>t. legacy_time (rrEnd row) t \<longrightarrow> read_time (rrEnd row') = truncate_second t)) (dbRes d) (dbRes d')"
proof -
  note res = normalise_result [OF assms(3), THEN conjunct1]
  have legacy: "canonical_time (normalise_text sf s) \<and> read_time (normalise_text sf s) = truncate_second t"
    if "legacy_time s t" for s t
    using that normalise_legacy [OF assms(1) that]
    by (simp add: legacy_time_def canonical_format_sql read_format_sql)
  have "stored_ok d'"
    using assms(2) legacy by (auto simp: stored_ok_def res normalise_canonical)
  moreover have "list_all2 (\<lambda>row row'. rrData row' = rrData row \<and>
      (canonical_time (rrEnd row) \<longrightarrow> rrEnd row' = rrEnd row) \<and>
      (\<forall>t. legacy_time (rrEnd row) t \<longrightarrow> read_time (rrEnd row') = truncate_second t)) (dbRes d) (dbRes d')"
    unfolding res using legacy
    by (simp add: list_all2_conv_all_nth normalise_canonical)
  ultimately show ?thesis by blast
qed

text \<open>Go's own reader of the layout, rendered in UTC, is such an \<open>strftime\<close>.\<close>

definition sample_strftime :: "string \<Rightarrow> string option" where
  "sample_strftime s = map_option format_sql (parse_rfc3339 s)"

lemma get_zone_text:
  assumes "\<bar>off\<bar> \<le> 14 * 60"
  shows "get_zone (zone_text off) = Some (off * 60, [])"
proof -
  define hh mm where "hh = nat (\<bar>off\<bar> div 60)" and "mm = nat (\<bar>off\<bar> mod 60)"
  have "\<bar>off\<bar> div 60 * 60 + \<bar>off\<bar> mod 60 = \<bar>off\<bar>" by simp
  then have whole: "\<bar>off\<bar> div 60 * 3600 + \<bar>off\<bar> mod 60 * 60 = \<bar>off\<bar> * 60" by linarith
  have "\<bar>off\<bar> div 60 \<le> 14" using zdiv_mono1 [OF assms, of 60] by simp
  moreover have nonneg: "0 \<le> \<bar>off\<bar> div 60" "0 \<le> \<bar>off\<bar> mod 60" and mm: "\<bar>off\<bar> mod 60 < 60"
    by (simp_all add: pos_imp_zdiv_nonneg_iff)
  ultimately have small: "hh \<le> 14" "mm < 60" "\<bar>off\<bar> div 60 < 10 ^ 2" "\<bar>off\<bar> mod 60 < 10 ^ 2"
    unfolding hh_def mm_def by simp_all
  have parts: "int hh = \<bar>off\<bar> div 60" "int mm = \<bar>off\<bar> mod 60"
    unfolding hh_def mm_def using nonneg by simp_all
  then have *: "append_int 2 (\<bar>off\<bar> div 60) = zpad 2 hh" "append_int 2 (\<bar>off\<bar> mod 60) = zpad 2 mm"
    "hh \<le> 14" "mm < 60" "int hh * 3600 + int mm * 60 = \<bar>off\<bar> * 60"
    using append_int_zpad [OF nonneg(1) small(3)] append_int_zpad [OF nonneg(2) small(4)] small(1,2) whole
    by (simp_all only: hh_def mm_def zero_less_numeral simp_thms)
  have digits: "get_digits 2 (zpad 2 mm) = Some (mm, [])"
    using get_digits_zpad [of mm 2 "[]"] *(4) by simp
  show ?thesis
    using *(3-5) by (auto simp: zone_text_def get_zone_def *(1,2) get_digits_zpad digits expect_def check_def
        simp del: zpad.simps)
qed

lemma parse_legacy_text:
  assumes "storable (t + off * 60 * nano)" "\<bar>off\<bar> \<le> 14 * 60"
  shows "parse_rfc3339 (legacy_text t off) = Some (truncate_second t)"
proof -
  let ?u = "t + off * 60 * nano"
  have "zone_text off = p # r \<Longrightarrow> p \<noteq> CHR ''.'' \<and> p \<noteq> CHR '',''" for p r
    by (auto simp: zone_text_def split: if_splits)
  note clock = get_clock_format [of "zone_text off" ?u, OF this]
  have "?u div nano = t div nano + off * 60" by (simp add: nano_def)
  then have "truncate_second ?u = truncate_second t + off * 60 * nano"
    by (simp add: truncate_second_def distrib_right)
  moreover have "four_digit_year ?u" using assms(1) by (simp add: storable_def)
  ultimately show ?thesis
    using get_zone_text [OF assms(2)] day_and_second [of ?u] clock
    by (simp add: parse_rfc3339_def legacy_text_def Let_def get_date_format expect_def check_def)
qed

lemma sample_strftime_ok: "strftime_ok sample_strftime"
  by (simp add: strftime_ok_def sample_strftime_def parse_legacy_text)

definition legacy_db :: db where
  "legacy_db =
     \<lparr>dbRes = [\<lparr>rrData = zero_reservation, rrStart = [], rrEnd = ''0001-01-03T08:00:00+08:00'', rrUpdated = []\<rparr>,
               \<lparr>rrData = zero_reservation, rrStart = [], rrEnd = ''0001-01-02 00:00:00'', rrUpdated = []\<rparr>],
      dbGpu = [], dbLog = [], dbStmts = 0\<rparr>"

lemma legacy_db_times:
  "legacy_time ''0001-01-03T08:00:00+08:00'' (172800 * nano)" "canonical_time ''0001-01-02 00:00:00''"
proof -
  have "storable (172800 * nano)" "storable (172800 * nano + 480 * 60 * nano)"
    by (simp add: storable_def nano_def, code_simp)+
  moreover have "''0001-01-03T08:00:00+08:00'' = legacy_text (172800 * nano) 480" by code_simp
  ultimately show "legacy_time ''0001-01-03T08:00:00+08:00'' (172800 * nano)"
    unfolding legacy_time_def by (intro conjI exI [of _ 480]) simp_all
  show "canonical_time ''0001-01-02 00:00:00''" by code_simp
qed

lemma legacy_db_ok: "\<forall>row \<in> set (dbRes legacy_db). canonical_time (rrEnd row) \<or> (\<exists>t. legacy_time (rrEnd row) t)"
  using legacy_db_times by (auto simp: legacy_db_def)

lemma migration_makes_comparable_witness:
  "\<exists>d'. normaliseStoredTimestamps (\<lambda>_. False) sample_strftime legacy_db = (True, d') \<and> stored_ok d' \<and>
     map rrEnd (dbRes d') = [''0001-01-03 00:00:00'', ''0001-01-02 00:00:00'']"
proof -
  obtain d' where d: "normaliseStoredTimestamps (\<lambda>_. False) sample_strftime legacy_db = (True, d')"
    by (simp add: normaliseStoredTimestamps_def normalise_stmts_def exec_def)
  have f: "format_sql (172800 * nano) = ''0001-01-03 00:00:00''" by code_simp
  have "map rrEnd (dbRes d') = [''0001-01-03 00:00:00'', ''0001-01-02 00:00:00'']"
    unfolding normalise_result [OF d, THEN conjunct1]
    by (simp add: legacy_db_def normalise_canonical [OF legacy_db_times(2)]
        normalise_legacy [OF sample_strftime_ok legacy_db_times(1)] f)
  moreover have "stored_ok d'"
    using migration_makes_comparable [OF sample_strftime_ok legacy_db_ok d] by (rule conjunct1)
  ultimately show ?thesis using d by (intro exI conjI)
qed

end
