(* ===== verification/Schema.thy ===== *)
theory Schema
  imports Migration
begin

text \<open>
  Opening the store: \<open>New\<close> and \<open>migrate\<close> of \<^verbatim>\<open>store/sqlite.go\<close>. Here the database is what SQLite keeps,
  named tables with their columns, and a statement is refused where SQLite refuses it: a column
  added twice, a table that is not there, a column that is not there. Any statement can fail as in
  \<open>Store\<close>; one that crashes the program is followed by failures only. What the four statements of
  the rebuild do to the reminders is the abstract migration of \<open>Migration\<close>, which they refine. The
  column \<open>id\<close> of the log, which SQLite numbers, and the indexes are left out.
\<close>

section \<open>Tables with columns\<close>

datatype sqlval = SqlNull | SqlText string | SqlNum rat

record sql_table =
  tbCols :: "string list"
  tbUnique :: "string list"
  tbRows :: "sqlval list list"

type_synonym sql_db = "string \<Rightarrow> sql_table option"

definition cell :: "string list \<Rightarrow> sqlval list \<Rightarrow> string \<Rightarrow> sqlval" where
  "cell cs r c = (case map_of (zip cs r) c of None \<Rightarrow> SqlNull | Some v \<Rightarrow> v)"

definition add_column :: "string \<Rightarrow> sqlval \<Rightarrow> sql_table \<Rightarrow> sql_table" where
  "add_column c v t = t\<lparr>tbCols := tbCols t @ [c], tbRows := map (\<lambda>r. r @ [v]) (tbRows t)\<rparr>"

text \<open>\<open>LIKE\<close> and \<open>strftime\<close> give \<open>NULL\<close> for \<open>NULL\<close>, and a number has no \<open>T\<close>.\<close>

definition norm_val :: "(string \<Rightarrow> string option) \<Rightarrow> sqlval \<Rightarrow> sqlval" where
  "norm_val sf v = (case v of SqlText s \<Rightarrow> SqlText (normalise_text sf s) | _ \<Rightarrow> v)"

definition norm_column :: "(string \<Rightarrow> string option) \<Rightarrow> string \<Rightarrow> sql_table \<Rightarrow> sql_table" where
  "norm_column sf c t =
     t\<lparr>tbRows := map (\<lambda>r. map (\<lambda>(c', v). if c' = c then norm_val sf v else v) (zip (tbCols t) r)) (tbRows t)\<rparr>"

text \<open>A \<open>UNIQUE\<close> constraint does not compare \<open>NULL\<close>s.\<close>

definition conflict :: "string list \<Rightarrow> string list \<Rightarrow> sqlval list \<Rightarrow> sqlval list \<Rightarrow> bool" where
  "conflict u cs r r' \<longleftrightarrow> u \<noteq> [] \<and> list_all (\<lambda>c. cell cs r c = cell cs r' c \<and> cell cs r c \<noteq> SqlNull) u"

definition insert_or_ignore :: "string list \<Rightarrow> sqlval list \<Rightarrow> sql_table \<Rightarrow> sql_table" where
  "insert_or_ignore cs vs t =
     (let r = map (cell cs vs) (tbCols t) in
      if list_ex (conflict (tbUnique t) (tbCols t) r) (tbRows t) then t else t\<lparr>tbRows := tbRows t @ [r]\<rparr>)"

section \<open>Statements\<close>

datatype sql =
  CreateIfNotExists string "string list" "string list"
| AddColumn string string sqlval
| InspectIndexes
| CopyLog
| DropTable string
| RenameTable string string
| Normalise string string

definition log_columns :: "string list" where
  "log_columns = [''reservation_id'', ''level'', ''end_time'', ''notified_at'']"

text \<open>A row of the old log as the \<open>SELECT\<close> gives it.\<close>

definition selected :: "string list \<Rightarrow> sqlval list \<Rightarrow> sqlval list" where
  "selected cs r =
     [cell cs r ''reservation_id'', cell cs r ''level'',
      (case cell cs r ''end_time'' of SqlNull \<Rightarrow> SqlText [] | v \<Rightarrow> v), cell cs r ''notified_at'']"

text \<open>What a statement makes of the database, \<open>None\<close> when SQLite refuses it.\<close>

fun run_sql :: "(string \<Rightarrow> string option) \<Rightarrow> sql \<Rightarrow> sql_db \<Rightarrow> sql_db option" where
  "run_sql sf (CreateIfNotExists n cs u) d =
     Some (case d n of None \<Rightarrow> d(n \<mapsto> \<lparr>tbCols = cs, tbUnique = u, tbRows = []\<rparr>) | Some _ \<Rightarrow> d)"
| "run_sql sf (AddColumn n c v) d =
     (case d n of
        None \<Rightarrow> None
      | Some t \<Rightarrow> if c \<in> set (tbCols t) then None else Some (d(n \<mapsto> add_column c v t)))"
| "run_sql sf InspectIndexes d = Some d"
| "run_sql sf CopyLog d =
     (case (d ''notify_log'', d ''notify_log_new'') of
        (Some l, Some n) \<Rightarrow>
          if set log_columns \<subseteq> set (tbCols l) \<and> set log_columns \<subseteq> set (tbCols n)
          then Some (d(''notify_log_new'' \<mapsto>
                 fold (insert_or_ignore log_columns) (map (selected (tbCols l)) (tbRows l)) n))
          else None
      | _ \<Rightarrow> None)"
| "run_sql sf (DropTable n) d = (case d n of None \<Rightarrow> None | Some _ \<Rightarrow> Some (d(n := None)))"
| "run_sql sf (RenameTable n n') d =
     (case (d n, d n') of (Some t, None) \<Rightarrow> Some (d(n := None, n' \<mapsto> t)) | _ \<Rightarrow> None)"
| "run_sql sf (Normalise n c) d =
     (case d n of
        None \<Rightarrow> None
      | Some t \<Rightarrow> if c \<in> set (tbCols t) then Some (d(n \<mapsto> norm_column sf c t)) else None)"

text \<open>
  One call of \<open>Exec\<close>: its statements up to the first that fails. The state counts the statements
  sent so far.
\<close>

fun exec_sql ::
  "faults \<Rightarrow> (string \<Rightarrow> string option) \<Rightarrow> sql list \<Rightarrow> nat \<times> sql_db \<Rightarrow> bool \<times> nat \<times> sql_db" where
  "exec_sql f sf [] s = (True, s)"
| "exec_sql f sf (q # qs) (n, d) =
     (if f n then (False, Suc n, d)
      else case run_sql sf q d of
             None \<Rightarrow> (False, Suc n, d)
           | Some d' \<Rightarrow> exec_sql f sf qs (Suc n, d'))"

text \<open>A call whose error stops the start, and one whose error is dropped.\<close>

datatype call = Must "sql list" | BestEffort "sql list"

fun run_calls ::
  "faults \<Rightarrow> (string \<Rightarrow> string option) \<Rightarrow> call list \<Rightarrow> nat \<times> sql_db \<Rightarrow> bool \<times> nat \<times> sql_db" where
  "run_calls f sf [] s = (True, s)"
| "run_calls f sf (Must qs # cs) s =
     (case exec_sql f sf qs s of
        (True, s') \<Rightarrow> run_calls f sf cs s'
      | (False, s') \<Rightarrow> (False, s'))"
| "run_calls f sf (BestEffort qs # cs) s = run_calls f sf cs (snd (exec_sql f sf qs s))"

section \<open>The migration\<close>

definition reservations_columns :: "string list" where
  "reservations_columns =
     [''id'', ''account_alias'', ''account_id'', ''region'', ''type'', ''resource_id'', ''instance_type'',
      ''platform'', ''quantity'', ''used_count'', ''start_time'', ''end_time'', ''status'', ''description'',
      ''updated_at'']"

definition gpu_columns :: "string list" where
  "gpu_columns =
     [''id'', ''account_alias'', ''account_id'', ''region'', ''az'', ''instance_id'', ''instance_type'',
      ''coverage'', ''coverage_ref'', ''sp_rate'', ''updated_at'']"

definition create_tables :: "sql list" where
  "create_tables =
     [CreateIfNotExists ''reservations'' reservations_columns [''id''],
      CreateIfNotExists ''notify_log'' [''reservation_id'', ''level'', ''notified_at'']
        [''reservation_id'', ''level'']]"

definition added_columns :: "(string \<times> sqlval) list" where
  "added_columns =
     [(''used_count'', SqlNum 0), (''hourly_rate'', SqlNum 0), (''equiv_cores'', SqlNum 0),
      (''capacity_unit'', SqlText [])]"

definition rebuild_log :: "sql list" where
  "rebuild_log =
     [CreateIfNotExists ''notify_log_new'' log_columns [''reservation_id'', ''level'', ''end_time''],
      CopyLog,
      DropTable ''notify_log'',
      RenameTable ''notify_log_new'' ''notify_log'']"

definition normalise_targets :: "(string \<times> string list) list" where
  "normalise_targets =
     [(''reservations'', [''start_time'', ''end_time'', ''updated_at'']), (''gpu_coverage'', [''updated_at''])]"

definition normalise_calls :: "call list" where
  "normalise_calls = concat (map (\<lambda>(n, cs). map (\<lambda>c. Must [Normalise n c]) cs) normalise_targets)"

definition migrate_calls :: "call list" where
  "migrate_calls =
     Must create_tables #
     map (\<lambda>(c, v). BestEffort [AddColumn ''reservations'' c v]) added_columns @
     [Must [CreateIfNotExists ''gpu_coverage'' gpu_columns [''id'']],
      BestEffort [AddColumn ''notify_log'' ''end_time'' (SqlText [])],
      Must [InspectIndexes]] @
     (if contains index_sql ''end_time'' then [] else [Must rebuild_log]) @
     normalise_calls"

definition migrate :: "faults \<Rightarrow> (string \<Rightarrow> string option) \<Rightarrow> sql_db \<Rightarrow> bool \<times> sql_db" where
  "migrate f sf d = (case run_calls f sf migrate_calls (0, d) of (ok, n, d') \<Rightarrow> (ok, d'))"

text \<open>\<open>New\<close>, given whether the directory can be made and the file opened.\<close>

definition New :: "bool \<Rightarrow> bool \<Rightarrow> faults \<Rightarrow> (string \<Rightarrow> string option) \<Rightarrow> sql_db \<Rightarrow> bool \<times> sql_db" where
  "New mkdir_ok open_ok f sf d =
     (if \<not> mkdir_ok then (False, d) else if \<not> open_ok then (False, d) else migrate f sf d)"

section \<open>Cells\<close>

definition table_wf :: "sql_table \<Rightarrow> bool" where
  "table_wf t \<longleftrightarrow> distinct (tbCols t) \<and> (\<forall>r \<in> set (tbRows t). length r = length (tbCols t))"

text \<open>What the format of \<open>strftime\<close> documents: the result has digits, dashes, colons and a space.\<close>

definition strftime_plain :: "(string \<Rightarrow> string option) \<Rightarrow> bool" where
  "strftime_plain sf \<longleftrightarrow> (\<forall>s s'. sf s = Some s' \<longrightarrow> \<not> like_T s')"

lemma norm_val_simps [simp]:
  "norm_val sf SqlNull = SqlNull" "norm_val sf (SqlNum x) = SqlNum x"
  "norm_val sf (SqlText s) = SqlText (normalise_text sf s)"
  by (simp_all add: norm_val_def)

lemma norm_val_idem: "strftime_plain sf \<Longrightarrow> norm_val sf (norm_val sf v) = norm_val sf v"
  by (cases v) (auto simp: normalise_text_def strftime_plain_def split: option.split)

lemma cell_Cons [simp]: "cell (c # cs) (v # r) c' = (if c' = c then v else cell cs r c')"
  by (simp add: cell_def)

lemma cell_Nil [simp]: "cell [] r c = SqlNull"
  by (simp add: cell_def)

lemma cell_other: "c \<notin> set cs \<Longrightarrow> cell cs r c = SqlNull"
  by (auto simp: cell_def dest!: map_of_SomeD set_zip_leftD split: option.split)

lemma cell_snoc:
  "length r = length cs \<Longrightarrow>
   cell (cs @ [c]) (r @ [v]) c' = (if c' \<in> set cs then cell cs r c' else if c' = c then v else SqlNull)"
  by (induction r cs rule: list_induct2) auto

lemma cell_norm:
  assumes "length r = length cs" "distinct cs"
  shows "cell cs (map (\<lambda>(c', v). if c' = c then norm_val sf v else v) (zip cs r)) c' =
    (if c' = c then norm_val sf (cell cs r c') else cell cs r c')"
  using assms by (induction r cs rule: list_induct2) (auto simp: cell_other)

lemma map_cell: "length r = length cs \<Longrightarrow> distinct cs \<Longrightarrow> map (cell cs r) cs = r"
proof (induction r cs rule: list_induct2)
  case (Cons v r c cs)
  have "map (\<lambda>a. if a = c then v else cell cs r a) cs = map (cell cs r) cs"
    using Cons.prems by (intro map_cong) auto
  also have "\<dots> = r" using Cons by simp
  finally show ?case by simp
qed simp

lemma norm_fixed:
  assumes "length r = length cs" "distinct cs" "norm_val sf (cell cs r c) = cell cs r c"
  shows "map (\<lambda>(c', v). if c' = c then norm_val sf v else v) (zip cs r) = r"
  using assms
proof (induction r cs rule: list_induct2)
  case (Cons v r c' cs)
  show ?case
  proof (cases "c' = c")
    case True
    then have "map (\<lambda>(c'', v). if c'' = c then norm_val sf v else v) (zip cs r) = map snd (zip cs r)"
      using Cons.prems by (intro map_cong) (auto dest: set_zip_leftD)
    then show ?thesis using True Cons by simp
  qed (use Cons in simp)
qed simp

lemma table_wf_ops [simp]:
  "table_wf t \<Longrightarrow> c \<notin> set (tbCols t) \<Longrightarrow> table_wf (add_column c v t)"
  "table_wf t \<Longrightarrow> table_wf (norm_column sf c t)"
  "tbCols (norm_column sf c t) = tbCols t" "tbCols (add_column c v t) = tbCols t @ [c]"
  "tbUnique (norm_column sf c t) = tbUnique t" "tbUnique (add_column c v t) = tbUnique t"
  "tbRows (norm_column sf c t) =
     map (\<lambda>r. map (\<lambda>(c', v). if c' = c then norm_val sf v else v) (zip (tbCols t) r)) (tbRows t)"
  "tbRows (add_column c v t) = map (\<lambda>r. r @ [v]) (tbRows t)"
  by (auto simp: table_wf_def add_column_def norm_column_def)

section \<open>Tables that keep their rows\<close>

text \<open>The default of a column that is added.\<close>

definition default_of :: "string \<Rightarrow> sqlval" where
  "default_of c = (case map_of added_columns c of None \<Rightarrow> SqlNull | Some v \<Rightarrow> v)"

definition cell_kept ::
  "(string \<Rightarrow> string option) \<Rightarrow> string list \<Rightarrow> string list \<Rightarrow> string list \<Rightarrow> sqlval list \<Rightarrow> sqlval list \<Rightarrow>
   string \<Rightarrow> bool" where
  "cell_kept sf ts cs0 cs r0 r c \<longleftrightarrow>
     (c \<in> set cs0 \<longrightarrow>
        (if c \<in> set ts then norm_val sf (cell cs r c) = norm_val sf (cell cs0 r0 c)
         else cell cs r c = cell cs0 r0 c)) \<and>
     (c \<in> set cs - set cs0 \<longrightarrow> cell cs r c = default_of c)"

text \<open>
  \<open>t\<close> has the rows of \<open>t0\<close> in their order, each with what it had in every column of \<open>t0\<close>, but that a
  timestamp may have been normalised, and with the default in every other column.
\<close>

definition keeps_rows :: "(string \<Rightarrow> string option) \<Rightarrow> string list \<Rightarrow> sql_table \<Rightarrow> sql_table \<Rightarrow> bool" where
  "keeps_rows sf ts t0 t \<longleftrightarrow>
     table_wf t \<and> set (tbCols t0) \<subseteq> set (tbCols t) \<and> tbUnique t = tbUnique t0 \<and>
     list_all2 (\<lambda>r0 r. \<forall>c. cell_kept sf ts (tbCols t0) (tbCols t) r0 r c) (tbRows t0) (tbRows t)"

lemma norm_default [simp]: "norm_val sf (default_of c) = default_of c"
  by (simp add: default_of_def added_columns_def normalise_text_def like_T_def)

lemma keeps_rows_refl: "table_wf t \<Longrightarrow> keeps_rows sf ts t t"
  by (simp add: keeps_rows_def cell_kept_def list_all2_same)

lemma keeps_rows_map:
  assumes "keeps_rows sf ts t0 t" "table_wf t'" "set (tbCols t) \<subseteq> set (tbCols t')" "tbUnique t' = tbUnique t"
    and "tbRows t' = map g (tbRows t)"
    and "\<And>r c. length r = length (tbCols t) \<Longrightarrow> c \<in> set (tbCols t) \<Longrightarrow>
      cell (tbCols t') (g r) c = cell (tbCols t) r c \<or>
      c \<in> set ts \<and> cell (tbCols t') (g r) c = norm_val sf (cell (tbCols t) r c)"
    and "\<And>r c. length r = length (tbCols t) \<Longrightarrow> c \<in> set (tbCols t') - set (tbCols t) \<Longrightarrow>
      cell (tbCols t') (g r) c = default_of c"
    and "strftime_plain sf"
  shows "keeps_rows sf ts t0 t'"
proof -
  have len: "\<forall>r \<in> set (tbRows t). length r = length (tbCols t)" and sub: "set (tbCols t0) \<subseteq> set (tbCols t)"
    using assms(1) by (auto simp: keeps_rows_def table_wf_def)
  have "list_all2 (\<lambda>r0 r. \<forall>c. cell_kept sf ts (tbCols t0) (tbCols t') r0 (g r) c) (tbRows t0) (tbRows t)"
  proof (rule list.rel_mono_strong)
    show "list_all2 (\<lambda>r0 r. \<forall>c. cell_kept sf ts (tbCols t0) (tbCols t) r0 r c) (tbRows t0) (tbRows t)"
      using assms(1) by (simp add: keeps_rows_def)
    fix r0 r assume r: "r \<in> set (tbRows t)" and kept: "\<forall>c. cell_kept sf ts (tbCols t0) (tbCols t) r0 r c"
    show "\<forall>c. cell_kept sf ts (tbCols t0) (tbCols t') r0 (g r) c"
    proof
      fix c
      have k: "cell_kept sf ts (tbCols t0) (tbCols t) r0 r c" using kept by blast
      show "cell_kept sf ts (tbCols t0) (tbCols t') r0 (g r) c"
      proof (cases "c \<in> set (tbCols t)")
        case True
        with assms(6) [of r c] k r len sub show ?thesis
          by (auto simp: cell_kept_def norm_val_idem [OF assms(8)])
      next
        case False
        with assms(7) [of r c] r len sub show ?thesis by (auto simp: cell_kept_def)
      qed
    qed
  qed
  then show ?thesis using assms(1-5) by (auto simp: keeps_rows_def list_all2_map2)
qed

lemma keeps_rows_wf: "keeps_rows sf ts t0 t \<Longrightarrow> table_wf t"
  by (simp add: keeps_rows_def)

lemma keeps_rows_add:
  assumes "keeps_rows sf ts t0 t" "strftime_plain sf" "c \<notin> set (tbCols t)"
  shows "keeps_rows sf ts t0 (add_column c (default_of c) t)"
  using assms keeps_rows_wf [OF assms(1)]
  by (intro keeps_rows_map [OF assms(1), where g = "\<lambda>r. r @ [default_of c]"]) (auto simp: cell_snoc)

lemma keeps_rows_norm:
  assumes "keeps_rows sf ts t0 t" "strftime_plain sf" "c \<in> set ts"
  shows "keeps_rows sf ts t0 (norm_column sf c t)"
proof -
  note wf = keeps_rows_wf [OF assms(1)]
  then have "distinct (tbCols t)" by (simp add: table_wf_def)
  with assms wf show ?thesis
    by (intro keeps_rows_map [OF assms(1), where t' = "norm_column sf c t"])
      (auto simp: cell_norm split: if_splits)
qed

section \<open>Starts with faults\<close>

definition base :: "string list \<Rightarrow> string list \<Rightarrow> sql_table option \<Rightarrow> sql_table" where
  "base cs u old = (case old of None \<Rightarrow> \<lparr>tbCols = cs, tbUnique = u, tbRows = []\<rparr> | Some t \<Rightarrow> t)"

text \<open>The table \<open>n\<close>, which was \<open>old\<close>, is there if it was, with its rows.\<close>

definition kept ::
  "(string \<Rightarrow> string option) \<Rightarrow> string list \<Rightarrow> string list \<Rightarrow> string list \<Rightarrow> string \<Rightarrow> sql_table option \<Rightarrow>
   sql_db \<Rightarrow> bool" where
  "kept sf ts cs u n old d \<longleftrightarrow> (case d n of None \<Rightarrow> old = None | Some t \<Rightarrow> keeps_rows sf ts (base cs u old) t)"

fun safe_for :: "string list \<Rightarrow> string list \<Rightarrow> string list \<Rightarrow> string \<Rightarrow> sql \<Rightarrow> bool" where
  "safe_for ts cs u n (CreateIfNotExists m cs' u') \<longleftrightarrow> (m = n \<longrightarrow> cs' = cs \<and> u' = u)"
| "safe_for ts cs u n (AddColumn m c v) \<longleftrightarrow> (m = n \<longrightarrow> v = default_of c)"
| "safe_for ts cs u n InspectIndexes \<longleftrightarrow> True"
| "safe_for ts cs u n CopyLog \<longleftrightarrow> n \<noteq> ''notify_log_new''"
| "safe_for ts cs u n (DropTable m) \<longleftrightarrow> m \<noteq> n"
| "safe_for ts cs u n (RenameTable m m') \<longleftrightarrow> m \<noteq> n \<and> m' \<noteq> n"
| "safe_for ts cs u n (Normalise m c) \<longleftrightarrow> (m = n \<longrightarrow> c \<in> set ts)"

lemma kept_step:
  assumes "strftime_plain sf" "distinct cs" "safe_for ts cs u n q" "kept sf ts cs u n old d" "run_sql sf q d = Some d'"
  shows "kept sf ts cs u n old d'"
proof -
  have "keeps_rows sf ts \<lparr>tbCols = cs, tbUnique = u, tbRows = []\<rparr> \<lparr>tbCols = cs, tbUnique = u, tbRows = []\<rparr>"
    using assms(2) by (intro keeps_rows_refl) (simp add: table_wf_def)
  then show ?thesis using assms
    by (cases q) (auto simp: kept_def base_def keeps_rows_add keeps_rows_norm split: option.splits if_splits)
qed

fun stmts :: "call \<Rightarrow> sql list" where
  "stmts (Must qs) = qs"
| "stmts (BestEffort qs) = qs"

lemma exec_sql_preserves:
  assumes "\<And>q d d'. q \<in> set qs \<Longrightarrow> P d \<Longrightarrow> run_sql sf q d = Some d' \<Longrightarrow> P d'" "P (snd s)"
  shows "P (snd (snd (exec_sql f sf qs s)))"
  using assms by (induction f sf qs s rule: exec_sql.induct) (auto split: option.split)

lemma run_calls_preserves:
  assumes "\<And>c s. c \<in> set cs \<Longrightarrow> P (snd s) \<Longrightarrow> P (snd (snd (exec_sql f sf (stmts c) s)))" "P (snd s)"
  shows "P (snd (snd (run_calls f sf cs s)))"
  using assms
proof (induction f sf cs s rule: run_calls.induct)
  case (2 f sf qs cs s)
  then show ?case using 2(2) [of "Must qs" s] by (auto split: prod.splits bool.splits)
next
  case (3 f sf qs cs s)
  then show ?case using 3(2) [of "BestEffort qs" s] by simp
qed simp

lemma New_run:
  "snd (New mk op f sf d) = d \<or> New mk op f sf d = (fst (run_calls f sf migrate_calls (0, d)), snd (snd (run_calls f sf migrate_calls (0, d))))"
  by (simp add: New_def migrate_def split: prod.split)

lemma migrate_calls_list:
  "migrate_calls =
     [Must create_tables,
      BestEffort [AddColumn ''reservations'' ''used_count'' (SqlNum 0)],
      BestEffort [AddColumn ''reservations'' ''hourly_rate'' (SqlNum 0)],
      BestEffort [AddColumn ''reservations'' ''equiv_cores'' (SqlNum 0)],
      BestEffort [AddColumn ''reservations'' ''capacity_unit'' (SqlText [])],
      Must [CreateIfNotExists ''gpu_coverage'' gpu_columns [''id'']],
      BestEffort [AddColumn ''notify_log'' ''end_time'' (SqlText [])],
      Must [InspectIndexes], Must rebuild_log,
      Must [Normalise ''reservations'' ''start_time''], Must [Normalise ''reservations'' ''end_time''],
      Must [Normalise ''reservations'' ''updated_at''], Must [Normalise ''gpu_coverage'' ''updated_at'']]"
proof -
  have "\<not> contains index_sql ''end_time''" by code_simp
  then show ?thesis by (simp add: migrate_calls_def added_columns_def normalise_calls_def normalise_targets_def)
qed

abbreviation reservation_times :: "string list" where
  "reservation_times \<equiv> [''start_time'', ''end_time'', ''updated_at'']"

abbreviation reservations_kept where
  "reservations_kept sf \<equiv> kept sf reservation_times reservations_columns [''id''] ''reservations''"

abbreviation gpu_kept where
  "gpu_kept sf \<equiv> kept sf [''updated_at''] gpu_columns [''id''] ''gpu_coverage''"

lemma New_keeps:
  assumes "strftime_plain sf"
  shows "reservations_kept sf old d \<Longrightarrow> reservations_kept sf old (snd (New mk op f sf d))"
    and "gpu_kept sf old d \<Longrightarrow> gpu_kept sf old (snd (New mk op f sf d))"
proof -
  have "\<forall>c \<in> set migrate_calls. \<forall>q \<in> set (stmts c).
      safe_for reservation_times reservations_columns [''id''] ''reservations'' q \<and>
      safe_for [''updated_at''] gpu_columns [''id''] ''gpu_coverage'' q"
    by (simp add: migrate_calls_list create_tables_def rebuild_log_def default_of_def added_columns_def)
  moreover have "distinct reservations_columns" "distinct gpu_columns"
    by (simp_all add: reservations_columns_def gpu_columns_def)
  ultimately have step: "reservations_kept sf old d \<longrightarrow> reservations_kept sf old d'"
    "gpu_kept sf old d \<longrightarrow> gpu_kept sf old d'"
    if "c \<in> set migrate_calls" "q \<in> set (stmts c)" "run_sql sf q d = Some d'" for c q d d'
    using that assms by (blast intro: kept_step)+
  have run: "reservations_kept sf old d \<Longrightarrow> reservations_kept sf old (snd (snd (run_calls f sf migrate_calls (0, d))))"
    "gpu_kept sf old d \<Longrightarrow> gpu_kept sf old (snd (snd (run_calls f sf migrate_calls (0, d))))"
    using step by - (rule run_calls_preserves; (rule exec_sql_preserves)?; simp)+
  show "reservations_kept sf old d \<Longrightarrow> reservations_kept sf old (snd (New mk op f sf d))"
    "gpu_kept sf old d \<Longrightarrow> gpu_kept sf old (snd (New mk op f sf d))"
    using run New_run [of mk op f sf d] by auto
qed

end
