(* ===== verification/Upgrade.thy ===== *)
theory Upgrade
  imports Schema
begin

text \<open>
  What the migration of \<open>Schema\<close> achieves: through any faults and crashes the log keeps its reminders, as the
  statements of \<open>Migration\<close> that the rebuild refines do, and a start that meets no fault completes the
  tables, whatever the version that left them.
\<close>

section \<open>The reminders in the tables\<close>

definition text_of :: "sqlval \<Rightarrow> string" where
  "text_of v = (case v of SqlText s \<Rightarrow> s | _ \<Rightarrow> [])"

definition row_key :: "string list \<Rightarrow> sqlval list \<Rightarrow> log_key" where
  "row_key cs r =
     (text_of (cell cs r ''reservation_id''), text_of (cell cs r ''level''), text_of (cell cs r ''end_time''))"

definition log_keys :: "sql_table \<Rightarrow> log_key list" where
  "log_keys t = map (row_key (tbCols t)) (tbRows t)"

text \<open>The abstract tables of \<open>Migration\<close>.\<close>

definition log_abs :: "sql_db \<Rightarrow> log_tables" where
  "log_abs d =
     \<lparr>notify_log = map_option log_keys (d ''notify_log''),
      notify_log_new = map_option log_keys (d ''notify_log_new'')\<rparr>"

text \<open>The log of any version: the first two columns are \<open>NOT NULL\<close>.\<close>

definition log_wf :: "sql_table \<Rightarrow> bool" where
  "log_wf t \<longleftrightarrow>
     table_wf t \<and> {''reservation_id'', ''level'', ''notified_at''} \<subseteq> set (tbCols t) \<and>
     (\<forall>r \<in> set (tbRows t). (\<exists>a. cell (tbCols t) r ''reservation_id'' = SqlText a) \<and>
        (\<exists>b. cell (tbCols t) r ''level'' = SqlText b) \<and>
        (\<exists>e. cell (tbCols t) r ''end_time'' \<in> {SqlNull, SqlText e}))"

definition log_new_wf :: "sql_table \<Rightarrow> bool" where
  "log_new_wf t \<longleftrightarrow>
     tbCols t = log_columns \<and> tbUnique t = [''reservation_id'', ''level'', ''end_time''] \<and>
     (\<forall>r \<in> set (tbRows t). \<exists>a b e v. r = [SqlText a, SqlText b, SqlText e, v])"

definition log_inv :: "log_key set \<Rightarrow> sql_db \<Rightarrow> bool" where
  "log_inv K d \<longleftrightarrow>
     log_held K (log_abs d) \<and> (\<forall>t. d ''notify_log'' = Some t \<longrightarrow> log_wf t) \<and>
     (\<forall>t. d ''notify_log_new'' = Some t \<longrightarrow> log_new_wf t)"

lemma log_columns_simps [simp]:
  "distinct log_columns" "set log_columns = {''reservation_id'', ''level'', ''end_time'', ''notified_at''}"
  "length log_columns = 4"
  by (auto simp: log_columns_def)

lemma cell_log_columns [simp]:
  "cell log_columns [a, b, e, v] ''reservation_id'' = a" "cell log_columns [a, b, e, v] ''level'' = b"
  "cell log_columns [a, b, e, v] ''end_time'' = e" "cell log_columns [a, b, e, v] ''notified_at'' = v"
  by (simp_all add: log_columns_def)

lemma row_key_log_columns [simp]: "row_key log_columns [a, b, e, v] = (text_of a, text_of b, text_of e)"
  by (simp add: row_key_def)

lemma text_of_simps [simp]: "text_of (SqlText s) = s" "text_of SqlNull = []"
  by (simp_all add: text_of_def)

lemma log_new_wf_log_wf: "log_new_wf t \<Longrightarrow> log_wf t"
  by (fastforce simp: log_new_wf_def log_wf_def table_wf_def)

lemma log_wf_add:
  assumes "log_wf t" "''end_time'' \<notin> set (tbCols t)"
  shows "log_wf (add_column ''end_time'' (SqlText []) t)"
    and "log_keys (add_column ''end_time'' (SqlText []) t) = log_keys t"
  using assms
  by (auto simp: log_wf_def log_keys_def row_key_def table_wf_def cell_snoc cell_other add_column_def)

lemma map_log_columns: "length vs = 4 \<Longrightarrow> map (cell log_columns vs) log_columns = vs"
  by (rule map_cell) simp_all

lemma conflict_row_key:
  assumes "\<exists>a b e v. r = [SqlText a, SqlText b, SqlText e, v]"
  shows "conflict [''reservation_id'', ''level'', ''end_time''] log_columns
      [SqlText a, SqlText b, SqlText e, v] r \<longleftrightarrow> row_key log_columns r = (a, b, e)"
proof -
  obtain a' b' e' v' where "r = [SqlText a', SqlText b', SqlText e', v']" using assms by blast
  then show ?thesis by (simp add: conflict_def) blast
qed

lemma insert_log:
  assumes "log_new_wf n" "vs = [SqlText a, SqlText b, SqlText e, v]"
  shows "log_new_wf (insert_or_ignore log_columns vs n)"
    and "log_keys (insert_or_ignore log_columns vs n) =
      (if (a, b, e) \<in> set (log_keys n) then log_keys n else log_keys n @ [(a, b, e)])"
proof -
  have "list_ex (conflict (tbUnique n) (tbCols n) vs) (tbRows n) \<longleftrightarrow> (a, b, e) \<in> set (log_keys n)"
  proof -
    have "conflict (tbUnique n) (tbCols n) vs r \<longleftrightarrow> row_key (tbCols n) r = (a, b, e)" if "r \<in> set (tbRows n)" for r
      using assms that conflict_row_key [of r] by (simp add: log_new_wf_def)
    then show ?thesis by (simp add: list_ex_iff log_keys_def image_iff) (metis (no_types))
  qed
  moreover have "map (cell log_columns vs) (tbCols n) = vs"
    using assms by (simp add: log_new_wf_def map_log_columns)
  ultimately show "log_new_wf (insert_or_ignore log_columns vs n)"
    "log_keys (insert_or_ignore log_columns vs n) =
      (if (a, b, e) \<in> set (log_keys n) then log_keys n else log_keys n @ [(a, b, e)])"
    using assms by (auto simp: insert_or_ignore_def Let_def log_new_wf_def log_keys_def)
qed

text \<open>The copy refines the abstract one.\<close>

lemma copy_refines:
  assumes "log_new_wf n" "\<forall>r \<in> set rs. (\<exists>a. cell cs r ''reservation_id'' = SqlText a) \<and>
        (\<exists>b. cell cs r ''level'' = SqlText b) \<and> (\<exists>e. cell cs r ''end_time'' \<in> {SqlNull, SqlText e})"
  shows "log_new_wf (fold (insert_or_ignore log_columns) (map (selected cs) rs) n) \<and>
    log_keys (fold (insert_or_ignore log_columns) (map (selected cs) rs) n) =
      insert_ignore (map (row_key cs) rs) (log_keys n)"
  using assms
proof (induction rs arbitrary: n)
  case (Cons r rs)
  then obtain a b e where abe: "cell cs r ''reservation_id'' = SqlText a" "cell cs r ''level'' = SqlText b"
    "cell cs r ''end_time'' \<in> {SqlNull, SqlText e}" by (meson list.set_intros(1))
  obtain e' v where s: "selected cs r = [SqlText a, SqlText b, SqlText e', v]" and k: "row_key cs r = (a, b, e')"
    using abe by (cases "cell cs r ''end_time''") (auto simp: selected_def row_key_def)
  note ins = insert_log [OF Cons.prems(1) s]
  show ?case
    using Cons.IH [OF ins(1)] Cons.prems(2) by (simp add: k ins(2))
qed simp

section \<open>The rebuild refines the abstract migration\<close>

lemma log_held_stmts:
  "log_held K t \<Longrightarrow> log_held K (create_log t)" "log_held K t \<Longrightarrow> log_held K (create_new t)"
  "log_held K t \<Longrightarrow> log_held K (copy_log t)"
  "log_held K t \<Longrightarrow> log_held K (drop_log (copy_log t)) \<or> notify_log t = None \<or> notify_log_new t = None"
  "log_held K t \<Longrightarrow> notify_log t = None \<Longrightarrow> log_held K (rename_new t)"
  by (auto simp: log_held_def log_stmt_defs table_def insert_ignore split: option.splits)

abbreviation create_log_sql :: sql where
  "create_log_sql \<equiv> CreateIfNotExists ''notify_log'' [''reservation_id'', ''level'', ''notified_at''] [''reservation_id'', ''level'']"

abbreviation create_new_sql :: sql where
  "create_new_sql \<equiv> CreateIfNotExists ''notify_log_new'' log_columns [''reservation_id'', ''level'', ''end_time'']"

lemma copy_stepE:
  assumes "log_inv K d" "run_sql sf CopyLog d = Some d'"
  obtains l n n' where "d ''notify_log'' = Some l" "d ''notify_log_new'' = Some n" "log_new_wf n'"
    "d' = d(''notify_log_new'' \<mapsto> n')" "log_keys n' = insert_ignore (log_keys l) (log_keys n)"
proof -
  obtain l n where l: "d ''notify_log'' = Some l" and n: "d ''notify_log_new'' = Some n"
    and d': "d' = d(''notify_log_new'' \<mapsto>
      fold (insert_or_ignore log_columns) (map (selected (tbCols l)) (tbRows l)) n)"
    using assms(2) by (auto split: option.splits if_splits)
  have "log_wf l" "log_new_wf n" using assms(1) l n by (simp_all add: log_inv_def)
  from copy_refines [OF this(2), of "tbRows l" "tbCols l"] this(1)
  show thesis unfolding log_wf_def log_keys_def [of l, symmetric] by (intro that [OF l n _ d']) blast+
qed

lemma sql_refines:
  "run_sql sf create_log_sql d = Some d' \<Longrightarrow> log_abs d' = create_log (log_abs d)"
  "run_sql sf create_new_sql d = Some d' \<Longrightarrow> log_abs d' = create_new (log_abs d)"
  "log_inv K d \<Longrightarrow> run_sql sf CopyLog d = Some d' \<Longrightarrow> log_abs d' = copy_log (log_abs d)"
  "run_sql sf (DropTable ''notify_log'') d = Some d' \<Longrightarrow> log_abs d' = drop_log (log_abs d)"
  "run_sql sf (RenameTable ''notify_log_new'' ''notify_log'') d = Some d' \<Longrightarrow> log_abs d' = rename_new (log_abs d)"
proof -
  assume "log_inv K d" "run_sql sf CopyLog d = Some d'"
  then obtain l n n' where "d ''notify_log'' = Some l" "d ''notify_log_new'' = Some n"
    "d' = d(''notify_log_new'' \<mapsto> n')" "log_keys n' = insert_ignore (log_keys l) (log_keys n)"
    by (rule copy_stepE)
  then show "log_abs d' = copy_log (log_abs d)" by (simp add: log_abs_def copy_log_def)
qed (auto simp: log_abs_def create_log_def create_new_def drop_log_def rename_new_def log_keys_def split: option.splits)

lemma log_wf_empty [simp]:
  "log_wf \<lparr>tbCols = [''reservation_id'', ''level'', ''notified_at''], tbUnique = u, tbRows = []\<rparr>"
  "log_new_wf \<lparr>tbCols = log_columns, tbUnique = [''reservation_id'', ''level'', ''end_time''], tbRows = []\<rparr>"
  by (simp_all add: log_wf_def table_wf_def log_new_wf_def)

lemma log_inv_steps:
  assumes "log_inv K d"
  shows "run_sql sf create_log_sql d = Some d' \<Longrightarrow> log_inv K d'"
    and "run_sql sf create_new_sql d = Some d' \<Longrightarrow> log_inv K d'"
    and "run_sql sf CopyLog d = Some d' \<Longrightarrow> log_inv K d'"
    and "run_sql sf (AddColumn ''notify_log'' ''end_time'' (SqlText [])) d = Some d' \<Longrightarrow> log_inv K d'"
proof -
  have held: "log_held K (log_abs d)" using assms by (simp add: log_inv_def)
  show "log_inv K d'" if "run_sql sf create_log_sql d = Some d'"
    using assms that log_held_stmts(1) [OF held, folded sql_refines(1) [OF that]]
    by (auto simp: log_inv_def split: option.splits)
  show "log_inv K d'" if "run_sql sf create_new_sql d = Some d'"
    using assms that log_held_stmts(2) [OF held, folded sql_refines(2) [OF that]]
    by (auto simp: log_inv_def split: option.splits)
  show "log_inv K d'" if c: "run_sql sf CopyLog d = Some d'"
  proof -
    obtain n' where "log_new_wf n'" "d' = d(''notify_log_new'' \<mapsto> n')"
      using assms c by (rule copy_stepE)
    then show ?thesis
      using log_held_stmts(3) [OF held, folded sql_refines(3) [OF assms c]] assms by (auto simp: log_inv_def)
  qed
  show "log_inv K d'" if "run_sql sf (AddColumn ''notify_log'' ''end_time'' (SqlText [])) d = Some d'"
    using assms that log_wf_add
    by (auto simp: log_inv_def log_abs_def split: option.splits if_splits)
qed

lemma exec_sql_Cons:
  assumes "P d" "\<And>d'. run_sql sf q d = Some d' \<Longrightarrow> P (snd (snd (exec_sql f sf qs (Suc n, d'))))"
  shows "P (snd (snd (exec_sql f sf (q # qs) (n, d))))"
  using assms by (simp split: option.split)

text \<open>
  The log is dropped only after the copy succeeded, and renamed only after the drop did.
\<close>

lemma rebuild_inv:
  assumes "log_inv K d"
  shows "log_inv K (snd (snd (exec_sql f sf rebuild_log (n, d))))"
proof -
  have tail: "log_inv K (snd (snd (exec_sql f sf
      [DropTable ''notify_log'', RenameTable ''notify_log_new'' ''notify_log''] (k, d2))))"
    if d1: "log_inv K d1" and d2: "run_sql sf CopyLog d1 = Some d2" for k d1 d2
  proof -
    obtain l n n' where ln: "d1 ''notify_log'' = Some l" "d1 ''notify_log_new'' = Some n"
      "log_new_wf n'" "d2 = d1(''notify_log_new'' \<mapsto> n')" "log_keys n' = insert_ignore (log_keys l) (log_keys n)"
      using d1 d2 by (rule copy_stepE)
    have K: "log_inv K d2" by (rule log_inv_steps(3) [OF d1 d2])
    then have "set (log_keys n') = K" "distinct (log_keys n')"
      using ln by (auto simp: log_inv_def log_held_def log_abs_def table_def insert_ignore)
    then show ?thesis
      using ln K log_new_wf_log_wf [OF ln(3)]
      by (auto simp: log_inv_def log_held_def log_abs_def table_def split: option.split)
  qed
  show ?thesis
    unfolding rebuild_log_def
  proof (rule exec_sql_Cons [where P = "log_inv K"])
    show "log_inv K d" by fact
    fix d1 assume "run_sql sf create_new_sql d = Some d1"
    then have d1: "log_inv K d1" by (rule log_inv_steps(2) [OF assms])
    then show "log_inv K (snd (snd (exec_sql f sf
        [CopyLog, DropTable ''notify_log'', RenameTable ''notify_log_new'' ''notify_log''] (Suc n, d1))))"
      by (rule exec_sql_Cons [where P = "log_inv K"]) (rule tail [OF d1])
  qed
qed

fun writes :: "sql \<Rightarrow> string list" where
  "writes (CreateIfNotExists n cs u) = [n]"
| "writes (AddColumn n c v) = [n]"
| "writes InspectIndexes = []"
| "writes CopyLog = [''notify_log_new'']"
| "writes (DropTable n) = [n]"
| "writes (RenameTable n n') = [n, n']"
| "writes (Normalise n c) = [n]"

lemma run_sql_frame: "run_sql sf q d = Some d' \<Longrightarrow> n \<notin> set (writes q) \<Longrightarrow> d' n = d n"
  by (cases q) (auto split: option.splits if_splits)

definition off_log :: "sql \<Rightarrow> bool" where
  "off_log q \<longleftrightarrow> ''notify_log'' \<notin> set (writes q) \<and> ''notify_log_new'' \<notin> set (writes q)"

lemma off_log_inv:
  assumes "off_log q" "log_inv K d" "run_sql sf q d = Some d'"
  shows "log_inv K d'"
  using assms run_sql_frame [OF assms(3)] by (simp add: off_log_def log_inv_def log_abs_def)

lemma New_keeps_log:
  assumes "log_inv K d"
  shows "log_inv K (snd (New mk op f sf d))"
proof -
  have step: "log_inv K (snd (snd (exec_sql f sf (stmts c) s)))"
    if c: "c \<in> set migrate_calls" and s: "log_inv K (snd s)" for c s
  proof -
    consider "c = Must rebuild_log"
      | "\<forall>q \<in> set (stmts c). off_log q \<or> q = create_log_sql \<or>
          q = AddColumn ''notify_log'' ''end_time'' (SqlText [])"
      using c by (auto simp: migrate_calls_list create_tables_def off_log_def)
    then show ?thesis
    proof cases
      case 1
      then show ?thesis using rebuild_inv [of K "snd s" f sf "fst s"] s by simp
    next
      case 2
      then show ?thesis using s
        by (intro exec_sql_preserves [where P = "log_inv K"]) (use off_log_inv log_inv_steps(1,4) in blast)+
    qed
  qed
  have "log_inv K (snd (snd (run_calls f sf migrate_calls (0, d))))"
    using assms step by (intro run_calls_preserves [where P = "log_inv K"]) simp_all
  with assms New_run [of mk op f sf d] show ?thesis by auto
qed

section \<open>A start without faults\<close>

definition ensure_column :: "string \<Rightarrow> sqlval \<Rightarrow> sql_table \<Rightarrow> sql_table" where
  "ensure_column c v t = (if c \<in> set (tbCols t) then t else add_column c v t)"

definition new_reservations :: "(string \<Rightarrow> string option) \<Rightarrow> sql_table option \<Rightarrow> sql_table" where
  "new_reservations sf old =
     fold (norm_column sf) reservation_times
       (fold (\<lambda>(c, v). ensure_column c v) added_columns (base reservations_columns [''id''] old))"

definition new_gpu :: "(string \<Rightarrow> string option) \<Rightarrow> sql_table option \<Rightarrow> sql_table" where
  "new_gpu sf old = norm_column sf ''updated_at'' (base gpu_columns [''id''] old)"

definition new_log :: "sql_table option \<Rightarrow> sql_table option \<Rightarrow> sql_table" where
  "new_log l n =
     (let t = ensure_column ''end_time'' (SqlText [])
            (base [''reservation_id'', ''level'', ''notified_at''] [''reservation_id'', ''level''] l)
      in fold (insert_or_ignore log_columns) (map (selected (tbCols t)) (tbRows t))
           (base log_columns [''reservation_id'', ''level'', ''end_time''] n))"

text \<open>What a start needs of the tables it finds.\<close>

definition usable :: "sql_db \<Rightarrow> bool" where
  "usable d \<longleftrightarrow>
     (\<forall>t. d ''reservations'' = Some t \<longrightarrow> set reservation_times \<subseteq> set (tbCols t)) \<and>
     (\<forall>t. d ''gpu_coverage'' = Some t \<longrightarrow> ''updated_at'' \<in> set (tbCols t)) \<and>
     (\<forall>t. d ''notify_log'' = Some t \<longrightarrow> {''reservation_id'', ''level'', ''notified_at''} \<subseteq> set (tbCols t)) \<and>
     (\<forall>t. d ''notify_log_new'' = Some t \<longrightarrow> set log_columns \<subseteq> set (tbCols t))"

lemma tbCols_ensure [simp]: "set (tbCols (ensure_column c v t)) = insert c (set (tbCols t))"
  by (auto simp: ensure_column_def)

lemma tbCols_norm_fold [simp]: "tbCols (fold (norm_column sf) cs t) = tbCols t"
  by (induction cs arbitrary: t) simp_all

lemma run_create [simp]:
  "run_sql sf (CreateIfNotExists n cs u) d = Some (d(n \<mapsto> base cs u (d n)))"
  by (auto simp: base_def fun_upd_idem split: option.split)

lemma run_must [simp]:
  "run_calls (\<lambda>_. False) sf (Must [] # cs) s = run_calls (\<lambda>_. False) sf cs s"
  "run_sql sf q d \<noteq> None \<Longrightarrow>
   run_calls (\<lambda>_. False) sf (Must (q # qs) # cs) (n, d) =
   run_calls (\<lambda>_. False) sf (Must qs # cs) (Suc n, the (run_sql sf q d))"
  by auto

lemma run_add [simp]:
  "d n \<noteq> None \<Longrightarrow>
   run_calls (\<lambda>_. False) sf (BestEffort [AddColumn n c v] # cs) (k, d) =
   run_calls (\<lambda>_. False) sf cs (Suc k, d(n \<mapsto> ensure_column c v (the (d n))))"
  by (auto simp: ensure_column_def fun_upd_idem)

lemma run_normalise [simp]:
  "d n \<noteq> None \<Longrightarrow> c \<in> set (tbCols (the (d n))) \<Longrightarrow>
   run_sql sf (Normalise n c) d = Some (d(n \<mapsto> norm_column sf c (the (d n))))"
  by auto

declare run_sql.simps(1) [simp del] run_calls.simps(2,3) [simp del]

definition migrated :: "(string \<Rightarrow> string option) \<Rightarrow> sql_db \<Rightarrow> sql_db" where
  "migrated sf d =
     d(''reservations'' \<mapsto> new_reservations sf (d ''reservations''),
       ''gpu_coverage'' \<mapsto> new_gpu sf (d ''gpu_coverage''),
       ''notify_log'' \<mapsto> new_log (d ''notify_log'') (d ''notify_log_new''),
       ''notify_log_new'' := None)"

lemma base_cols:
  assumes "usable d"
  shows "set reservation_times \<subseteq> set (tbCols (base reservations_columns u (d ''reservations'')))"
    "''updated_at'' \<in> set (tbCols (base gpu_columns u (d ''gpu_coverage'')))"
    "{''reservation_id'', ''level'', ''notified_at''} \<subseteq>
      set (tbCols (base [''reservation_id'', ''level'', ''notified_at''] u (d ''notify_log'')))"
    "set log_columns \<subseteq> set (tbCols (base log_columns u (d ''notify_log_new'')))"
  using assms by (auto simp: usable_def base_def reservations_columns_def gpu_columns_def split: option.split)

lemma run_rebuild:
  assumes "d ''notify_log'' = Some l" "set log_columns \<subseteq> set (tbCols l)"
    "set log_columns \<subseteq> set (tbCols (base log_columns [''reservation_id'', ''level'', ''end_time''] (d ''notify_log_new'')))"
  shows "run_calls (\<lambda>_. False) sf (Must rebuild_log # cs) (k, d) =
    run_calls (\<lambda>_. False) sf cs (Suc (Suc (Suc (Suc k))), d(''notify_log'' \<mapsto> fold (insert_or_ignore log_columns)
      (map (selected (tbCols l)) (tbRows l))
      (base log_columns [''reservation_id'', ''level'', ''end_time''] (d ''notify_log_new'')),
      ''notify_log_new'' := None))"
  using assms
  by (simp add: rebuild_log_def fun_upd_twist)

lemma migrate_no_faults:
  assumes "usable d"
  shows "New True True (\<lambda>_. False) sf d = (True, migrated sf d)"
proof -
  note cols = base_cols [OF assms]
  define l where "l = ensure_column ''end_time'' (SqlText [])
    (base [''reservation_id'', ''level'', ''notified_at''] [''reservation_id'', ''level''] (d ''notify_log''))"
  have l: "set log_columns \<subseteq> set (tbCols l)" using cols(3) by (simp add: l_def)
  define r where "r = fold (\<lambda>(c, v). ensure_column c v) added_columns
    (base reservations_columns [''id''] (d ''reservations''))"
  define d8 where "d8 = d(''reservations'' \<mapsto> r,
    ''notify_log'' \<mapsto> l, ''gpu_coverage'' \<mapsto> base gpu_columns [''id''] (d ''gpu_coverage''))"
  have pre: "\<exists>k. run_calls (\<lambda>_. False) sf migrate_calls (0, d) =
      run_calls (\<lambda>_. False) sf (Must rebuild_log # normalise_calls) (k, d8)"
    by (simp add: migrate_calls_list create_tables_def d8_def r_def l_def added_columns_def
        normalise_calls_def normalise_targets_def fun_upd_twist) blast
  obtain k where k: "run_calls (\<lambda>_. False) sf migrate_calls (0, d) =
      run_calls (\<lambda>_. False) sf (Must rebuild_log # normalise_calls) (k, d8)"
    using pre by blast
  have r: "set reservation_times \<subseteq> set (tbCols r)"
    using cols(1) by (auto simp: r_def added_columns_def)
  have "migrate (\<lambda>_. False) sf d = (True, migrated sf d)"
    using l r cols(2,4)
    by (simp add: migrate_def k run_rebuild d8_def normalise_calls_def normalise_targets_def migrated_def
        new_reservations_def new_gpu_def new_log_def l_def [symmetric] r_def [symmetric] Let_def fun_upd_twist)
  then show ?thesis by (simp add: New_def)
qed

section \<open>Starts complete the tables\<close>

text \<open>What \<open>Upsert\<close> and the queries name.\<close>

definition upsert_columns :: "string list" where
  "upsert_columns =
     [''id'', ''account_alias'', ''account_id'', ''region'', ''type'', ''resource_id'', ''instance_type'',
      ''platform'', ''quantity'', ''used_count'', ''start_time'', ''end_time'', ''status'', ''description'',
      ''hourly_rate'', ''equiv_cores'', ''capacity_unit'', ''updated_at'']"

text \<open>
  A database of any version: a table may be missing, the reservations may lack what was added later,
  and the log may have the old key and no expiry.
\<close>

definition old_version :: "sql_db \<Rightarrow> bool" where
  "old_version d \<longleftrightarrow>
     (\<forall>t. d ''reservations'' = Some t \<longrightarrow>
        table_wf t \<and> set reservations_columns - {''used_count''} \<subseteq> set (tbCols t)) \<and>
     (\<forall>t. d ''gpu_coverage'' = Some t \<longrightarrow> table_wf t \<and> set gpu_columns \<subseteq> set (tbCols t)) \<and>
     (\<forall>t. d ''notify_log'' = Some t \<longrightarrow> log_wf t) \<and> d ''notify_log_new'' = None"

text \<open>
  The rows of \<open>t0\<close> with their timestamps normalised, the default in every new column, and all else as it
  was.
\<close>

definition normalised_rows :: "(string \<Rightarrow> string option) \<Rightarrow> string list \<Rightarrow> sql_table \<Rightarrow> sql_table \<Rightarrow> bool" where
  "normalised_rows sf ts t0 t \<longleftrightarrow>
     list_all2 (\<lambda>r0 r. \<forall>c \<in> set (tbCols t). cell (tbCols t) r c =
       (if c \<notin> set (tbCols t0) then default_of c
        else if c \<in> set ts then norm_val sf (cell (tbCols t0) r0 c)
        else cell (tbCols t0) r0 c)) (tbRows t0) (tbRows t)"

definition normal_in :: "(string \<Rightarrow> string option) \<Rightarrow> sql_table \<Rightarrow> string \<Rightarrow> bool" where
  "normal_in sf t c \<longleftrightarrow> (\<forall>r \<in> set (tbRows t). norm_val sf (cell (tbCols t) r c) = cell (tbCols t) r c)"

lemma norm_column_normal:
  assumes "table_wf t" "strftime_plain sf" "c' = c \<or> normal_in sf t c'"
  shows "normal_in sf (norm_column sf c t) c'"
  using assms by (auto simp: normal_in_def table_wf_def cell_norm norm_val_idem)

lemma norm_fold_normal:
  assumes "strftime_plain sf"
  shows "table_wf t \<Longrightarrow> c \<in> set ts \<or> normal_in sf t c \<Longrightarrow> normal_in sf (fold (norm_column sf) ts t) c"
proof (induction ts arbitrary: t)
  case (Cons c' ts)
  then show ?case using norm_column_normal [OF Cons.prems(1) assms, of c c'] by auto
qed simp

lemma norm_column_id: "table_wf t \<Longrightarrow> normal_in sf t c \<Longrightarrow> norm_column sf c t = t"
proof -
  assume "table_wf t" "normal_in sf t c"
  then have "map (\<lambda>r. map (\<lambda>(c', v). if c' = c then norm_val sf v else v) (zip (tbCols t) r)) (tbRows t) = tbRows t"
    by (intro map_idI norm_fixed) (auto simp: table_wf_def normal_in_def)
  then show ?thesis by (simp add: norm_column_def)
qed

lemma norm_fold_id: "table_wf t \<Longrightarrow> \<forall>c \<in> set ts. normal_in sf t c \<Longrightarrow> fold (norm_column sf) ts t = t"
  by (induction ts) (simp_all add: norm_column_id)

lemma keeps_rows_normalised:
  assumes "keeps_rows sf ts t0 t" "\<forall>c \<in> set ts. normal_in sf t c"
  shows "normalised_rows sf ts t0 t"
  unfolding normalised_rows_def
proof (rule list.rel_mono_strong)
  show "list_all2 (\<lambda>r0 r. \<forall>c. cell_kept sf ts (tbCols t0) (tbCols t) r0 r c) (tbRows t0) (tbRows t)"
    using assms(1) by (simp add: keeps_rows_def)
qed (use assms(2) in \<open>auto simp: normal_in_def cell_kept_def\<close>)

text \<open>Any starts, the failed ones and those that crashed included.\<close>

definition starts ::
  "(string \<Rightarrow> string option) \<Rightarrow> (bool \<times> bool \<times> faults) list \<Rightarrow> sql_db \<Rightarrow> sql_db" where
  "starts sf ss d = fold (\<lambda>(mk, op, f) d. snd (New mk op f sf d)) ss d"

lemma starts_preserves:
  assumes "\<And>mk op f d. P d \<Longrightarrow> P (snd (New mk op f sf d))" "P d"
  shows "P (starts sf ss d)"
  using assms(2) unfolding starts_def by (induction ss arbitrary: d) (auto simp: assms(1))

definition held_keys :: "sql_table option \<Rightarrow> log_key set" where
  "held_keys o_log = (case o_log of None \<Rightarrow> {} | Some t \<Rightarrow> set (log_keys t))"

text \<open>What holds after any starts, for the tables \<open>d\<close> that were there before the first.\<close>

definition start_inv :: "(string \<Rightarrow> string option) \<Rightarrow> sql_db \<Rightarrow> sql_db \<Rightarrow> bool" where
  "start_inv sf d d' \<longleftrightarrow>
     reservations_kept sf (d ''reservations'') d' \<and> gpu_kept sf (d ''gpu_coverage'') d' \<and>
     log_inv (held_keys (d ''notify_log'')) d'"

lemma start_inv_init: "old_version d \<Longrightarrow> start_inv sf d d"
proof -
  assume d: "old_version d"
  have "log_held (held_keys (d ''notify_log'')) (log_abs d)"
    using d by (simp add: old_version_def log_held_def log_abs_def table_def held_keys_def split: option.split)
  then show "start_inv sf d d"
    using d by (auto simp: start_inv_def old_version_def kept_def base_def log_inv_def intro: keeps_rows_refl
        split: option.split)
qed

lemma start_inv_New: "strftime_plain sf \<Longrightarrow> start_inv sf d d1 \<Longrightarrow> start_inv sf d (snd (New mk op f sf d1))"
  by (simp add: start_inv_def New_keeps New_keeps_log)

lemma kept_cols:
  "kept sf ts cs u n old d \<Longrightarrow> d n = Some t \<Longrightarrow> set (tbCols (base cs u old)) \<subseteq> set (tbCols t)"
  by (simp add: kept_def keeps_rows_def)

lemma old_version_cols:
  assumes "old_version d"
  shows "set reservations_columns - {''used_count''} \<subseteq> set (tbCols (base reservations_columns u (d ''reservations'')))"
    "set gpu_columns \<subseteq> set (tbCols (base gpu_columns u (d ''gpu_coverage'')))"
  using assms by (auto simp: old_version_def base_def split: option.split)

lemma start_inv_usable:
  assumes "old_version d" "start_inv sf d d1"
  shows "usable d1"
proof -
  have inv: "reservations_kept sf (d ''reservations'') d1" "gpu_kept sf (d ''gpu_coverage'') d1"
    "log_inv (held_keys (d ''notify_log'')) d1" using assms(2) by (simp_all add: start_inv_def)
  have cols: "set reservation_times \<subseteq> set reservations_columns - {''used_count''}" "''updated_at'' \<in> set gpu_columns"
    by (simp_all add: reservations_columns_def gpu_columns_def)
  have "set reservation_times \<subseteq> set (tbCols t)" if "d1 ''reservations'' = Some t" for t
    using cols(1) kept_cols [OF inv(1) that] old_version_cols(1) [OF assms(1)] by blast
  moreover have "''updated_at'' \<in> set (tbCols t)" if "d1 ''gpu_coverage'' = Some t" for t
    using cols(2) kept_cols [OF inv(2) that] old_version_cols(2) [OF assms(1)] by blast
  ultimately show ?thesis
    using inv(3) by (simp add: usable_def log_inv_def log_wf_def log_new_wf_def)
qed

lemma log_rebuilt:
  assumes "log_inv K d"
  shows "log_new_wf (new_log (d ''notify_log'') (d ''notify_log_new''))"
    and "set (log_keys (new_log (d ''notify_log'') (d ''notify_log_new''))) = K"
    and "distinct (log_keys (new_log (d ''notify_log'') (d ''notify_log_new'')))"
proof -
  let ?n = "base log_columns [''reservation_id'', ''level'', ''end_time''] (d ''notify_log_new'')"
  let ?b = "base [''reservation_id'', ''level'', ''notified_at''] [''reservation_id'', ''level''] (d ''notify_log'')"
  define t where "t = ensure_column ''end_time'' (SqlText []) ?b"
  have n: "log_new_wf ?n" and b: "log_wf ?b" using assms by (auto simp: log_inv_def base_def split: option.split)
  have t: "log_wf t" "log_keys t = log_keys ?b" using b log_wf_add by (auto simp: t_def ensure_column_def)
  have keys: "log_keys ?n = table (notify_log_new (log_abs d))" "log_keys ?b = table (notify_log (log_abs d))"
    by (auto simp: base_def log_abs_def table_def log_keys_def split: option.split)
  have new: "new_log (d ''notify_log'') (d ''notify_log_new'') =
      fold (insert_or_ignore log_columns) (map (selected (tbCols t)) (tbRows t)) ?n"
    by (simp add: new_log_def t_def Let_def)
  have ref: "log_new_wf (new_log (d ''notify_log'') (d ''notify_log_new''))"
    "log_keys (new_log (d ''notify_log'') (d ''notify_log_new'')) = insert_ignore (log_keys t) (log_keys ?n)"
    using copy_refines [OF n, of "tbRows t" "tbCols t"] t(1) unfolding new log_wf_def log_keys_def [of t] by blast+
  show "log_new_wf (new_log (d ''notify_log'') (d ''notify_log_new''))" by (rule ref(1))
  show "set (log_keys (new_log (d ''notify_log'') (d ''notify_log_new''))) = K"
    "distinct (log_keys (new_log (d ''notify_log'') (d ''notify_log_new'')))"
    using assms by (auto simp: ref(2) t(2) keys log_inv_def log_held_def insert_ignore)
qed

text \<open>A log that was rebuilt is rebuilt to what it is.\<close>

lemma copy_distinct:
  assumes "\<forall>r \<in> set rs. \<exists>a b e v. r = [SqlText a, SqlText b, SqlText e, v]"
    and "log_new_wf n" "distinct (log_keys n @ map (row_key log_columns) rs)"
  shows "fold (insert_or_ignore log_columns) (map (selected log_columns) rs) n = n\<lparr>tbRows := tbRows n @ rs\<rparr>"
  using assms
proof (induction rs arbitrary: n)
  case (Cons r rs)
  then obtain a b e v where r: "r = [SqlText a, SqlText b, SqlText e, v]" by auto
  have sel: "selected log_columns r = r" by (simp add: r selected_def)
  have "\<not> list_ex (conflict (tbUnique n) (tbCols n) r) (tbRows n)"
  proof -
    have "conflict (tbUnique n) (tbCols n) r r' \<longleftrightarrow> row_key log_columns r' = (a, b, e)"
      if "r' \<in> set (tbRows n)" for r'
      using Cons.prems(2) that conflict_row_key [of r'] by (simp add: log_new_wf_def r)
    moreover have "(a, b, e) \<notin> set (log_keys n)" using Cons.prems(3) by (simp add: r)
    moreover have "tbCols n = log_columns" using Cons.prems(2) by (simp add: log_new_wf_def)
    ultimately show ?thesis by (simp add: list_ex_iff log_keys_def image_iff) (metis (no_types))
  qed
  then have ins: "insert_or_ignore log_columns r n = n\<lparr>tbRows := tbRows n @ [r]\<rparr>"
    using Cons.prems(2) by (simp add: insert_or_ignore_def Let_def log_new_wf_def map_log_columns r)
  have wf: "log_new_wf (n\<lparr>tbRows := tbRows n @ [r]\<rparr>)"
    using Cons.prems(2) by (auto simp: log_new_wf_def r)
  have "distinct (log_keys (n\<lparr>tbRows := tbRows n @ [r]\<rparr>) @ map (row_key log_columns) rs)"
    using Cons.prems(2,3) by (auto simp: log_keys_def log_new_wf_def)
  from Cons.IH [OF _ wf this] Cons.prems(1) show ?case by (simp add: sel ins)
qed simp

lemma new_log_fixed:
  assumes "log_new_wf l" "distinct (log_keys l)"
  shows "new_log (Some l) None = l"
proof -
  have cols: "tbCols l = log_columns" using assms(1) by (simp add: log_new_wf_def)
  then have "new_log (Some l) None = \<lparr>tbCols = log_columns, tbUnique = [''reservation_id'', ''level'', ''end_time''],
      tbRows = []\<rparr>\<lparr>tbRows := [] @ tbRows l\<rparr>"
    using assms copy_distinct [of "tbRows l" "\<lparr>tbCols = log_columns,
      tbUnique = [''reservation_id'', ''level'', ''end_time''], tbRows = []\<rparr>"]
    by (simp add: new_log_def base_def ensure_column_def Let_def log_new_wf_def log_keys_def)
  then show ?thesis using assms(1) by (simp add: log_new_wf_def)
qed

lemma ensure_fold_cols:
  "set (tbCols (fold (\<lambda>(c, v). ensure_column c v) cvs t)) = fst ` set cvs \<union> set (tbCols t)"
  by (induction cvs arbitrary: t) (auto split: prod.splits)

lemma ensure_fold_id:
  "fst ` set cvs \<subseteq> set (tbCols t) \<Longrightarrow> fold (\<lambda>(c, v). ensure_column c v) cvs t = t"
  by (induction cvs) (auto simp: ensure_column_def split: prod.splits)

lemma ensure_fold_keeps:
  "strftime_plain sf \<Longrightarrow> \<forall>(c, v) \<in> set cvs. v = default_of c \<Longrightarrow> keeps_rows sf ts t0 t \<Longrightarrow>
   keeps_rows sf ts t0 (fold (\<lambda>(c, v). ensure_column c v) cvs t)"
  by (induction cvs arbitrary: t) (auto simp: ensure_column_def keeps_rows_add split: prod.splits)

lemma kept_base: "kept sf ts cs u n old d \<Longrightarrow> distinct cs \<Longrightarrow> keeps_rows sf ts (base cs u old) (base cs u (d n))"
  by (auto simp: kept_def base_def table_wf_def intro: keeps_rows_refl split: option.splits)

lemma norm_fold_keeps:
  "strftime_plain sf \<Longrightarrow> set cs \<subseteq> set ts \<Longrightarrow> keeps_rows sf ts t0 t \<Longrightarrow>
   keeps_rows sf ts t0 (fold (norm_column sf) cs t)"
  by (induction cs arbitrary: t) (simp_all add: keeps_rows_norm)

lemma new_reservations:
  assumes "strftime_plain sf" "reservations_kept sf old d"
  shows "keeps_rows sf reservation_times (base reservations_columns [''id''] old) (new_reservations sf (d ''reservations''))"
    and "\<forall>c \<in> set reservation_times. normal_in sf (new_reservations sf (d ''reservations'')) c"
    and "fst ` set added_columns \<subseteq> set (tbCols (new_reservations sf (d ''reservations'')))"
proof -
  let ?t = "fold (\<lambda>(c, v). ensure_column c v) added_columns (base reservations_columns [''id''] (d ''reservations''))"
  have "distinct reservations_columns" by (simp add: reservations_columns_def)
  then have k: "keeps_rows sf reservation_times (base reservations_columns [''id''] old) ?t"
    by (intro ensure_fold_keeps [OF assms(1)] kept_base [OF assms(2)])
      (simp add: added_columns_def default_of_def)
  show "keeps_rows sf reservation_times (base reservations_columns [''id''] old) (new_reservations sf (d ''reservations''))"
    unfolding new_reservations_def by (intro norm_fold_keeps [OF assms(1) subset_refl] k)
  show "\<forall>c \<in> set reservation_times. normal_in sf (new_reservations sf (d ''reservations'')) c"
    unfolding new_reservations_def using norm_fold_normal [OF assms(1) keeps_rows_wf [OF k]] by blast
  show "fst ` set added_columns \<subseteq> set (tbCols (new_reservations sf (d ''reservations'')))"
    unfolding new_reservations_def tbCols_norm_fold ensure_fold_cols by blast
qed

lemma new_gpu:
  assumes "strftime_plain sf" "gpu_kept sf old d"
  shows "keeps_rows sf [''updated_at''] (base gpu_columns [''id''] old) (new_gpu sf (d ''gpu_coverage''))"
    and "normal_in sf (new_gpu sf (d ''gpu_coverage'')) ''updated_at''"
proof -
  have "distinct gpu_columns" by (simp add: gpu_columns_def)
  then have k: "keeps_rows sf [''updated_at''] (base gpu_columns [''id''] old) (base gpu_columns [''id''] (d ''gpu_coverage''))"
    by (rule kept_base [OF assms(2)])
  show "keeps_rows sf [''updated_at''] (base gpu_columns [''id''] old) (new_gpu sf (d ''gpu_coverage''))"
    unfolding new_gpu_def by (rule keeps_rows_norm [OF k assms(1)]) simp
  show "normal_in sf (new_gpu sf (d ''gpu_coverage'')) ''updated_at''"
    unfolding new_gpu_def by (rule norm_column_normal [OF keeps_rows_wf [OF k] assms(1)]) simp
qed

lemma migrated_fixed:
  assumes "strftime_plain sf" "start_inv sf d0 d"
  shows "migrated sf (migrated sf d) = migrated sf d"
proof -
  have inv: "reservations_kept sf (d0 ''reservations'') d" "gpu_kept sf (d0 ''gpu_coverage'') d"
    "log_inv (held_keys (d0 ''notify_log'')) d" using assms(2) by (simp_all add: start_inv_def)
  note r = new_reservations [OF assms(1) inv(1)] and g = new_gpu [OF assms(1) inv(2)]
  note l = log_rebuilt [OF inv(3)]
  have "new_reservations sf (Some (new_reservations sf (d ''reservations''))) = new_reservations sf (d ''reservations'')"
    unfolding new_reservations_def [of sf "Some t" for t] base_def option.case ensure_fold_id [OF r(3)]
    by (rule norm_fold_id [OF keeps_rows_wf [OF r(1)] r(2)])
  moreover have "new_gpu sf (Some (new_gpu sf (d ''gpu_coverage''))) = new_gpu sf (d ''gpu_coverage'')"
    unfolding new_gpu_def [of sf "Some t" for t] base_def option.case
    by (rule norm_column_id [OF keeps_rows_wf [OF g(1)] g(2)])
  ultimately show ?thesis
    using new_log_fixed [OF l(1,3)] by (simp add: migrated_def fun_upd_twist)
qed

lemma start_result:
  assumes "strftime_plain sf" "old_version d"
  shows "\<exists>d' r g l. New True True (\<lambda>_. False) sf (starts sf ss d) = (True, d') \<and>
    New True True (\<lambda>_. False) sf d' = (True, d') \<and>
    d' ''reservations'' = Some r \<and> set upsert_columns \<subseteq> set (tbCols r) \<and>
    normalised_rows sf reservation_times (base reservations_columns [''id''] (d ''reservations'')) r \<and>
    d' ''gpu_coverage'' = Some g \<and> set gpu_columns \<subseteq> set (tbCols g) \<and>
    normalised_rows sf [''updated_at''] (base gpu_columns [''id''] (d ''gpu_coverage'')) g \<and>
    d' ''notify_log'' = Some l \<and> d' ''notify_log_new'' = None \<and>
    tbUnique l = [''reservation_id'', ''level'', ''end_time''] \<and>
    set (log_keys l) = held_keys (d ''notify_log'') \<and> distinct (log_keys l)"
proof -
  define d1 where "d1 = starts sf ss d"
  have inv: "start_inv sf d d1"
    unfolding d1_def by (rule starts_preserves [where P = "start_inv sf d"])
      (rule start_inv_New [OF assms(1)], assumption, rule start_inv_init [OF assms(2)])
  have run: "New True True (\<lambda>_. False) sf d1 = (True, migrated sf d1)"
    by (rule migrate_no_faults [OF start_inv_usable [OF assms(2) inv]])
  have inv': "start_inv sf d (migrated sf d1)" using start_inv_New [OF assms(1) inv, of True True "\<lambda>_. False"] by (simp add: run)
  have again: "New True True (\<lambda>_. False) sf (migrated sf d1) = (True, migrated sf d1)"
    using migrate_no_faults [OF start_inv_usable [OF assms(2) inv']] migrated_fixed [OF assms(1) inv] by simp
  have k: "reservations_kept sf (d ''reservations'') d1" "gpu_kept sf (d ''gpu_coverage'') d1"
    "log_inv (held_keys (d ''notify_log'')) d1" using inv by (simp_all add: start_inv_def)
  note r = new_reservations [OF assms(1) k(1)] and g = new_gpu [OF assms(1) k(2)] and l = log_rebuilt [OF k(3)]
  note old_version_cols [OF assms(2), of "[''id'']"]
  moreover have "set upsert_columns \<subseteq> set reservations_columns - {''used_count''} \<union> fst ` set added_columns"
    by (simp add: upsert_columns_def reservations_columns_def added_columns_def)
  ultimately have "set upsert_columns \<subseteq> set (tbCols (new_reservations sf (d1 ''reservations'')))"
    "set gpu_columns \<subseteq> set (tbCols (new_gpu sf (d1 ''gpu_coverage'')))"
    using r(1,3) g(1) unfolding keeps_rows_def by blast+
  moreover have "tbUnique (new_log (d1 ''notify_log'') (d1 ''notify_log_new'')) = [''reservation_id'', ''level'', ''end_time'']"
    using l(1) by (simp add: log_new_wf_def)
  ultimately show ?thesis
    using run again l(2,3) keeps_rows_normalised [OF r(1,2)] keeps_rows_normalised [OF g(1)] g(2)
    unfolding d1_def [symmetric] by (simp add: migrated_def)
qed

text \<open>
  C31. Whatever version of the program left the database, and however many starts failed or crashed amid the
  migration since, a start that meets no fault gets through; then every column the queries name is
  there, no row of any table is lost or changed but for the layout of its timestamps and the defaults in its
  new columns, the log holds the reminders it held, each once, under the key with the expiry, and a further start changes
  nothing.
\<close>

theorem start_completes:
  assumes "strftime_plain sf" "old_version d"
  shows "\<exists>d' r g l. New True True (\<lambda>_. False) sf (starts sf ss d) = (True, d') \<and>
    New True True (\<lambda>_. False) sf d' = (True, d') \<and>
    d' ''reservations'' = Some r \<and> set upsert_columns \<subseteq> set (tbCols r) \<and>
    normalised_rows sf reservation_times (base reservations_columns [''id''] (d ''reservations'')) r \<and>
    d' ''gpu_coverage'' = Some g \<and> set gpu_columns \<subseteq> set (tbCols g) \<and>
    normalised_rows sf [''updated_at''] (base gpu_columns [''id''] (d ''gpu_coverage'')) g \<and>
    d' ''notify_log'' = Some l \<and> d' ''notify_log_new'' = None \<and>
    tbUnique l = [''reservation_id'', ''level'', ''end_time''] \<and>
    set (log_keys l) = held_keys (d ''notify_log'') \<and> distinct (log_keys l)"
  using assms by (rule start_result)

definition sample_old :: sql_db where
  "sample_old =
     [''reservations'' \<mapsto>
        \<lparr>tbCols = filter (\<lambda>c. c \<noteq> ''used_count'') reservations_columns, tbUnique = [''id''],
         tbRows = [[SqlText ''r'', SqlText ''a'', SqlText ''1'', SqlText ''g'', SqlText ''ri'', SqlText ''x'',
                    SqlText [], SqlText [], SqlNum 1, SqlText [], SqlText ''0001-01-03T08:00:00+08:00'',
                    SqlText ''active'', SqlText [], SqlText []]]\<rparr>,
      ''notify_log'' \<mapsto>
        \<lparr>tbCols = [''reservation_id'', ''level'', ''notified_at''], tbUnique = [''reservation_id'', ''level''],
         tbRows = [[SqlText ''r'', SqlText ''t7'', SqlNull]]\<rparr>]"

lemma sample_old: "old_version sample_old" "strftime_plain sample_strftime"
  by (auto simp: sample_old_def old_version_def table_wf_def reservations_columns_def log_wf_def
      strftime_plain_def sample_strftime_def)

text \<open>The first start crashes before the old log is dropped, the second before the rename.\<close>

lemma start_completes_witness:
  "\<exists>d' r l. New True True (\<lambda>_. False) sample_strftime
       (starts sample_strftime [(True, True, \<lambda>n. 11 \<le> n), (True, True, \<lambda>n. 12 \<le> n)] sample_old) = (True, d') \<and>
     d' ''reservations'' = Some r \<and> ''hourly_rate'' \<in> set (tbCols r) \<and> length (tbRows r) = 1 \<and>
     d' ''notify_log'' = Some l \<and> set (log_keys l) = {(''r'', ''t7'', [])}"
proof -
  obtain d' r l where s: "New True True (\<lambda>_. False) sample_strftime
       (starts sample_strftime [(True, True, \<lambda>n. 11 \<le> n), (True, True, \<lambda>n. 12 \<le> n)] sample_old) = (True, d')"
    "d' ''reservations'' = Some r" "set upsert_columns \<subseteq> set (tbCols r)"
    "normalised_rows sample_strftime reservation_times
       (base reservations_columns [''id''] (sample_old ''reservations'')) r"
    "d' ''notify_log'' = Some l" "set (log_keys l) = held_keys (sample_old ''notify_log'')"
    using start_completes [OF sample_old(2,1), of "[(True, True, \<lambda>n. 11 \<le> n), (True, True, \<lambda>n. 12 \<le> n)]"]
    by blast
  have "held_keys (sample_old ''notify_log'') = {(''r'', ''t7'', [])}"
    by (simp add: sample_old_def held_keys_def log_keys_def row_key_def)
  moreover have "length (tbRows r) = 1"
    using list_all2_lengthD [OF s(4) [unfolded normalised_rows_def]] by (simp add: base_def sample_old_def)
  moreover have "''hourly_rate'' \<in> set (tbCols r)" using s(3) by (auto simp: upsert_columns_def)
  ultimately show ?thesis using s by blast
qed

section \<open>What the store reads after an upgrade\<close>

definition num_of :: "sqlval \<Rightarrow> rat" where
  "num_of v = (case v of SqlNum x \<Rightarrow> x | _ \<Rightarrow> 0)"

definition is_text :: "sqlval \<Rightarrow> bool" where
  "is_text v = (case v of SqlText _ \<Rightarrow> True | _ \<Rightarrow> False)"

definition is_num :: "sqlval \<Rightarrow> bool" where
  "is_num v = (case v of SqlNum _ \<Rightarrow> True | _ \<Rightarrow> False)"

definition is_int :: "sqlval \<Rightarrow> bool" where
  "is_int v = (case v of SqlNum x \<Rightarrow> x = of_int \<lfloor>x\<rfloor> | _ \<Rightarrow> False)"

text \<open>The columns \<open>Scan\<close> reads into strings, integers and floats; it fails for \<open>NULL\<close>.\<close>

definition scannable :: "(string \<Rightarrow> sqlval) \<Rightarrow> bool" where
  "scannable f \<longleftrightarrow>
     list_all (\<lambda>c. is_text (f c))
       [''id'', ''account_alias'', ''account_id'', ''region'', ''type'', ''resource_id'', ''instance_type'',
        ''platform'', ''start_time'', ''end_time'', ''status'', ''description'', ''capacity_unit'', ''updated_at''] \<and>
     list_all (\<lambda>c. is_int (f c)) [''quantity'', ''used_count''] \<and>
     list_all (\<lambda>c. is_num (f c)) [''hourly_rate'', ''equiv_cores'']"

definition res_row_of :: "(string \<Rightarrow> sqlval) \<Rightarrow> res_row" where
  "res_row_of f =
     \<lparr>rrData =
        \<lparr>ID = text_of (f ''id''), AccountAlias = text_of (f ''account_alias''),
         AccountID = text_of (f ''account_id''), Region = text_of (f ''region''), RType = text_of (f ''type''),
         ResourceID = text_of (f ''resource_id''), InstanceType = text_of (f ''instance_type''),
         Platform = text_of (f ''platform''), Quantity = \<lfloor>num_of (f ''quantity'')\<rfloor>,
         UsedCount = \<lfloor>num_of (f ''used_count'')\<rfloor>, StartTime = 0, EndTime = 0, Status = text_of (f ''status''),
         Description = text_of (f ''description''), HourlyRate = num_of (f ''hourly_rate''),
         EquivCores = num_of (f ''equiv_cores''), CapacityUnit = text_of (f ''capacity_unit''), UpdatedAt = 0\<rparr>,
      rrStart = text_of (f ''start_time''), rrEnd = text_of (f ''end_time''),
      rrUpdated = text_of (f ''updated_at'')\<rparr>"

text \<open>The rows of \<open>Store\<close>, or \<open>None\<close> when a row cannot be scanned.\<close>

definition read_reservations :: "sql_table \<Rightarrow> res_row list option" where
  "read_reservations t =
     those (map (\<lambda>r. if scannable (cell (tbCols t) r) then Some (res_row_of (cell (tbCols t) r)) else None) (tbRows t))"

text \<open>What a row of an older version holds, with the defaults for what it lacks.\<close>

definition old_value :: "string list \<Rightarrow> sqlval list \<Rightarrow> string \<Rightarrow> sqlval" where
  "old_value cs r c = (if c \<in> set cs then cell cs r c else default_of c)"

definition normal_row :: "(string \<Rightarrow> string option) \<Rightarrow> res_row \<Rightarrow> res_row" where
  "normal_row sf row =
     row\<lparr>rrStart := normalise_text sf (rrStart row), rrEnd := normalise_text sf (rrEnd row),
       rrUpdated := normalise_text sf (rrUpdated row)\<rparr>"

lemma typed_norm [simp]:
  "is_text (norm_val sf v) = is_text v" "is_num (norm_val sf v) = is_num v" "is_int (norm_val sf v) = is_int v"
  by (simp_all add: norm_val_def is_text_def is_num_def is_int_def split: sqlval.split)

lemma text_norm: "is_text v \<Longrightarrow> text_of (norm_val sf v) = normalise_text sf (text_of v)"
  by (simp add: is_text_def split: sqlval.splits)

lemma those_map_Some: "\<forall>x \<in> set xs. f x = Some (g x) \<Longrightarrow> those (map f xs) = Some (map g xs)"
  by (induction xs) auto

lemma normalised_row:
  assumes "\<forall>c \<in> set upsert_columns. f c = (if c \<in> set reservation_times then norm_val sf (g c) else g c)"
    and "scannable g"
  shows "scannable f \<and> res_row_of f = normal_row sf (res_row_of g)"
  using assms
  by (simp add: upsert_columns_def scannable_def res_row_of_def normal_row_def text_norm)

lemma read_normalised:
  assumes "normalised_rows sf reservation_times t0 t" "set upsert_columns \<subseteq> set (tbCols t)"
    and "\<forall>r \<in> set (tbRows t0). scannable (old_value (tbCols t0) r)"
  shows "read_reservations t =
    Some (map (\<lambda>r. normal_row sf (res_row_of (old_value (tbCols t0) r))) (tbRows t0))"
proof -
  have "list_all2 (\<lambda>r0 r. scannable (cell (tbCols t) r) \<and>
      res_row_of (cell (tbCols t) r) = normal_row sf (res_row_of (old_value (tbCols t0) r0))) (tbRows t0) (tbRows t)"
    using assms(1) unfolding normalised_rows_def
  proof (rule list.rel_mono_strong)
    fix r0 r assume r0: "r0 \<in> set (tbRows t0)"
      and c: "\<forall>c \<in> set (tbCols t). cell (tbCols t) r c =
        (if c \<notin> set (tbCols t0) then default_of c
         else if c \<in> set reservation_times then norm_val sf (cell (tbCols t0) r0 c) else cell (tbCols t0) r0 c)"
    have "\<forall>c \<in> set upsert_columns. cell (tbCols t) r c =
        (if c \<in> set reservation_times then norm_val sf (old_value (tbCols t0) r0 c) else old_value (tbCols t0) r0 c)"
    proof
      fix c' assume "c' \<in> set upsert_columns"
      then have "c' \<in> set (tbCols t)" using assms(2) by blast
      with c show "cell (tbCols t) r c' = (if c' \<in> set reservation_times
          then norm_val sf (old_value (tbCols t0) r0 c') else old_value (tbCols t0) r0 c')"
        by (simp add: old_value_def)
    qed
    then show "scannable (cell (tbCols t) r) \<and>
        res_row_of (cell (tbCols t) r) = normal_row sf (res_row_of (old_value (tbCols t0) r0))"
      using assms(3) r0 by (intro normalised_row) auto
  qed
  then show ?thesis
    unfolding read_reservations_def by (induction rule: list_all2_induct) simp_all
qed

definition old_rows :: "sql_db \<Rightarrow> res_row list" where
  "old_rows d =
     (let t = base reservations_columns [''id''] (d ''reservations'')
      in map (\<lambda>r. res_row_of (old_value (tbCols t) r)) (tbRows t))"

definition old_scannable :: "sql_db \<Rightarrow> bool" where
  "old_scannable d \<longleftrightarrow>
     (let t = base reservations_columns [''id''] (d ''reservations'')
      in \<forall>r \<in> set (tbRows t). scannable (old_value (tbCols t) r))"

lemma normal_row_time:
  assumes "strftime_ok sf" "canonical_time (rrEnd row) \<or> (\<exists>t. legacy_time (rrEnd row) t)"
  shows "canonical_time (rrEnd (normal_row sf row)) \<and> rrData (normal_row sf row) = rrData row \<and>
    (canonical_time (rrEnd row) \<longrightarrow> rrEnd (normal_row sf row) = rrEnd row) \<and>
    (\<forall>t. legacy_time (rrEnd row) t \<longrightarrow> read_time (rrEnd (normal_row sf row)) = truncate_second t)"
proof -
  have legacy: "canonical_time (normalise_text sf s) \<and> read_time (normalise_text sf s) = truncate_second t"
    if "legacy_time s t" for s t
    using that normalise_legacy [OF assms(1) that]
    by (simp add: legacy_time_def canonical_format_sql read_format_sql)
  show ?thesis using assms(2) legacy by (auto simp: normal_row_def normalise_canonical)
qed

text \<open>
  C32. After an upgrade from any version, through any failed or crashed starts, the store reads every
  reservation it held, with the defaults for what that version did not store, and every
  expiry in the layout in which texts compare as instants do, which the lists and alerts rely on: one
  that an older version wrote, in whatever zone, reads as the same instant to the second, and
  one that had the layout is as it was.
\<close>

theorem upgrade_comparable:
  assumes "strftime_plain sf" "strftime_ok sf" "old_version d" "old_scannable d"
    and "\<forall>row \<in> set (old_rows d). canonical_time (rrEnd row) \<or> (\<exists>t. legacy_time (rrEnd row) t)"
  shows "\<exists>d' t rows. New True True (\<lambda>_. False) sf (starts sf ss d) = (True, d') \<and>
    d' ''reservations'' = Some t \<and> read_reservations t = Some rows \<and>
    (\<forall>row \<in> set rows. canonical_time (rrEnd row)) \<and>
    list_all2 (\<lambda>row row'. rrData row' = rrData row \<and>
      (canonical_time (rrEnd row) \<longrightarrow> rrEnd row' = rrEnd row) \<and>
      (\<forall>t. legacy_time (rrEnd row) t \<longrightarrow> read_time (rrEnd row') = truncate_second t)) (old_rows d) rows"
proof -
  let ?t0 = "base reservations_columns [''id''] (d ''reservations'')"
  obtain d' t where d': "New True True (\<lambda>_. False) sf (starts sf ss d) = (True, d')" "d' ''reservations'' = Some t"
    "set upsert_columns \<subseteq> set (tbCols t)" "normalised_rows sf reservation_times ?t0 t"
    using start_result [OF assms(1,3), of ss] by blast
  have "\<forall>r \<in> set (tbRows ?t0). scannable (old_value (tbCols ?t0) r)"
    using assms(4) by (simp add: old_scannable_def Let_def)
  from read_normalised [OF d'(4,3) this]
  have "read_reservations t = Some (map (normal_row sf) (old_rows d))"
    by (simp add: old_rows_def Let_def comp_def)
  moreover note times = normal_row_time [OF assms(2)]
  have "\<forall>row \<in> set (map (normal_row sf) (old_rows d)). canonical_time (rrEnd row)"
    using times assms(5) by auto
  moreover have "list_all2 (\<lambda>row row'. rrData row' = rrData row \<and>
      (canonical_time (rrEnd row) \<longrightarrow> rrEnd row' = rrEnd row) \<and>
      (\<forall>t. legacy_time (rrEnd row) t \<longrightarrow> read_time (rrEnd row') = truncate_second t))
      (old_rows d) (map (normal_row sf) (old_rows d))"
    unfolding list_all2_map2 list_all2_same using times assms(5) by blast
  ultimately show ?thesis using d'(1,2) by blast
qed

lemma upgrade_comparable_witness:
  "\<exists>d' t row. New True True (\<lambda>_. False) sample_strftime (starts sample_strftime [(True, True, \<lambda>n. 14 \<le> n)] sample_old) =
      (True, d') \<and> d' ''reservations'' = Some t \<and> read_reservations t = Some [row] \<and> canonical_time (rrEnd row) \<and>
    read_time (rrEnd row) = truncate_second (172800 * nano) \<and> HourlyRate (rrData row) = 0"
proof -
  have rows: "old_rows sample_old = [res_row_of (old_value (tbCols (the (sample_old ''reservations'')))
      (hd (tbRows (the (sample_old ''reservations'')))))]"
    by (simp add: old_rows_def sample_old_def base_def Let_def)
  have scan: "old_scannable sample_old" by code_simp
  have row: "rrEnd (hd (old_rows sample_old)) = ''0001-01-03T08:00:00+08:00''"
    "HourlyRate (rrData (hd (old_rows sample_old))) = 0" by code_simp+
  then have time: "legacy_time (rrEnd (hd (old_rows sample_old))) (172800 * nano)" by (simp add: legacy_db_times)
  have "\<forall>row \<in> set (old_rows sample_old). canonical_time (rrEnd row) \<or> (\<exists>t. legacy_time (rrEnd row) t)"
    using time by (auto simp: rows)
  from upgrade_comparable [OF sample_old(2) sample_strftime_ok sample_old(1) scan this,
    of "[(True, True, \<lambda>n. 14 \<le> n)]"] time row(2)
  show ?thesis by (auto simp: rows list_all2_Cons1)
qed

text \<open>
  Not only the error of a column that is there already is dropped: when an \<^verbatim>\<open>ALTER\<close> fails for
  another reason, such as a lock, the start gets through without the column.
\<close>

lemma alter_failure_ignored:
  "fst (New True True (\<lambda>n. n = 3) sf (\<lambda>_. None)) \<and>
   (case snd (New True True (\<lambda>n. n = 3) sf (\<lambda>_. None)) ''reservations'' of
      None \<Rightarrow> False
    | Some t \<Rightarrow> \<not> set upsert_columns \<subseteq> set (tbCols t))"
  by code_simp

end
