(* ===== verification/Startup.thy ===== *)
theory Startup
  imports Endpoints Provider Upgrade
begin

text \<open>
  The start of the program: \<open>Load\<close> of \<^verbatim>\<open>config/config.go\<close> and \<open>main\<close> of \<^verbatim>\<open>main.go\<close> up to the server
  that answers requests, with \<open>ResolveAccountID\<close> of \<^verbatim>\<open>provider/sts.go\<close>. The file system and the environment
  are arguments, and so are the decoders of the JSON files (that of the main file overlays the
  defaults), what \<^verbatim>\<open>sts:GetCallerIdentity\<close> answers and how the database takes the migration. What
  follows, up to the end of the program, is in \<open>Shutdown\<close>.
\<close>

section \<open>Loading the configuration\<close>

datatype load_error = CannotRead string | CannotParse string | Invalid config_error

record world =
  getenv :: "string \<Rightarrow> string"
  readFile :: "string \<Rightarrow> string option"
  decodeConfig :: "config \<Rightarrow> string \<Rightarrow> config option"
  decodeAccounts :: "string \<Rightarrow> account list option"
  decodeUsers :: "string \<Rightarrow> User list option"
  callerIdentity :: "string \<Rightarrow> string \<Rightarrow> string \<Rightarrow> string + string option"
  mkdirOk :: bool
  openOk :: bool
  dbFaults :: faults
  strftime :: "string \<Rightarrow> string option"

definition read_decoded :: "world \<Rightarrow> (string \<Rightarrow> 'a option) \<Rightarrow> string \<Rightarrow> load_error + 'a" where
  "read_decoded w decode path =
     (case readFile w path of
        None \<Rightarrow> Inl (CannotRead path)
      | Some data \<Rightarrow> (case decode data of None \<Rightarrow> Inl (CannotParse path) | Some x \<Rightarrow> Inr x))"

text \<open>The path in the environment goes before the one in the configuration.\<close>

definition env_or :: "world \<Rightarrow> string \<Rightarrow> string \<Rightarrow> string" where
  "env_or w name dflt = (if getenv w name \<noteq> [] then getenv w name else dflt)"

definition loadAccounts :: "world \<Rightarrow> config \<Rightarrow> load_error + config" where
  "loadAccounts w cfg =
     (let path = env_or w ''SMARTRENEW_ACCOUNTS_FILE'' (cfAccountsFile cfg) in
      if path = [] then Inr cfg
      else case read_decoded w (decodeAccounts w) path of
             Inl e \<Rightarrow> Inl e
           | Inr as \<Rightarrow> Inr (cfg\<lparr>cfAccounts := as\<rparr>))"

definition loadUsers :: "world \<Rightarrow> config \<Rightarrow> load_error + config" where
  "loadUsers w cfg =
     (let path = env_or w ''SMARTRENEW_USERS_FILE'' (auUsersFile (cfAuth cfg)) in
      if path = [] then Inr cfg
      else case read_decoded w (decodeUsers w) path of
             Inl e \<Rightarrow> Inl e
           | Inr us \<Rightarrow> Inr (cfg\<lparr>cfAuth := (cfAuth cfg)\<lparr>auUsers := us\<rparr>\<rparr>))"

definition Load :: "world \<Rightarrow> load_error + config" where
  "Load w =
     (case read_decoded w (decodeConfig w DefaultConfig) (env_or w ''SMARTRENEW_CONFIG_FILE'' ''config.json'') of
        Inl e \<Rightarrow> Inl e
      | Inr c0 \<Rightarrow>
     (case loadAccounts w c0 of
        Inl e \<Rightarrow> Inl e
      | Inr c1 \<Rightarrow>
     (case loadUsers w c1 of
        Inl e \<Rightarrow> Inl e
      | Inr c2 \<Rightarrow>
          (let c3 = c2\<lparr>cfAuth := (cfAuth c2)\<lparr>auUsers := resolveUserPasswords (getenv w) (auUsers (cfAuth c2))\<rparr>\<rparr>;
               cfg = c3\<lparr>cfAccounts := resolveCredentials (getenv w) (cfAccounts c3)\<rparr>
           in case validate cfg of Some e \<Rightarrow> Inl (Invalid e) | None \<Rightarrow> Inr cfg))))"

section \<open>Notifiers\<close>

text \<open>A Lark webhook, or an SNS topic in a region with the credentials of an account.\<close>

datatype notifier = Lark string | SNS string string account

fun findAccount :: "account list \<Rightarrow> string \<Rightarrow> account option" where
  "findAccount [] name = None"
| "findAccount (a # as) name = (if acAlias a = name then Some a else findAccount as name)"

text \<open>The notifiers, or the alias that no account has. Unknown types are skipped.\<close>

fun build_notifiers :: "account list \<Rightarrow> notify_config list \<Rightarrow> string + notifier list" where
  "build_notifiers as [] = Inr []"
| "build_notifiers as (n # ns) =
     (if \<not> ncEnabled n then build_notifiers as ns
      else if ncType n = ''lark'' then map_sum id ((#) (Lark (ncWebhookURL n))) (build_notifiers as ns)
      else if ncType n = ''sns''
      then (case findAccount as (ncAccountAlias n) of
              None \<Rightarrow> Inl (ncAccountAlias n)
            | Some a \<Rightarrow> map_sum id ((#) (SNS (ncTopicARN n) (ncRegion n) a)) (build_notifiers as ns))
      else build_notifiers as ns)"

section \<open>The server\<close>

text \<open>Multiplication of Go's 64-bit integers wraps around.\<close>

definition wrap64 :: "int \<Rightarrow> int" where
  "wrap64 i = (i + 2 ^ 63) mod 2 ^ 64 - 2 ^ 63"

text \<open>The handler without authentication has none of its parts; the limiters are then never used.\<close>

definition open_server :: server where
  "open_server =
     \<lparr>hAuthenticator = None, hSessions = None, hLoginLimiter = NewLoginLimiter 0 0,
      hUserLimiter = NewLoginLimiter 0 0, hCookieSecure = False, hTrustProxy = False\<rparr>"

definition WithAuth ::
  "Authenticator \<Rightarrow> SessionStore \<Rightarrow> LoginLimiter \<Rightarrow> LoginLimiter \<Rightarrow> bool \<Rightarrow> server \<Rightarrow> server" where
  "WithAuth a sessions limiter userLimiter secure h =
     h\<lparr>hAuthenticator := Some a, hSessions := Some sessions, hLoginLimiter := limiter,
       hUserLimiter := userLimiter, hCookieSecure := secure, hTrustProxy := True\<rparr>"

definition build_server :: "kdf \<Rightarrow> (nat \<Rightarrow> string option) \<Rightarrow> auth_config \<Rightarrow> auth_error + server" where
  "build_server kdf rnd au =
     (if \<not> IsEnabled (Some au) then Inr open_server
      else case NewAuthenticator kdf rnd (auUsers au) of
             Inl e \<Rightarrow> Inl e
           | Inr a \<Rightarrow>
               Inr (WithAuth a (NewSessionStore (ParseSessionTTL (Some au)))
                 (NewLoginLimiter (MaxAttempts (Some au)) (ParseLockoutDuration (Some au)))
                 (NewLoginLimiter (wrap64 (MaxAttempts (Some au) * 4)) (ParseLockoutDuration (Some au)))
                 (auCookieSecure au) open_server))"

section \<open>main\<close>

record service =
  svConfig :: config
  svOverrides :: overrides
  svNotifiers :: "notifier list"
  svServer :: server

datatype fatal =
  HashError password_error
| LoadError load_error
| UnresolvedAccount string
| StoreError
| UnknownAccount string
| AuthError auth_error

datatype outcome_of_main = Printed string | Fatal fatal | Serving service

text \<open>The account behind the keys, or the error; an answer without an account is the empty id.\<close>

definition ResolveAccountID ::
  "(string \<Rightarrow> string \<Rightarrow> string \<Rightarrow> string + string option) \<Rightarrow> string \<Rightarrow> string \<Rightarrow> string \<Rightarrow> string + string" where
  "ResolveAccountID call accessKey secretKey region =
     (case call accessKey secretKey region of
        Inl err \<Rightarrow> Inl (''sts GetCallerIdentity: '' @ err)
      | Inr acct \<Rightarrow> Inr (case acct of None \<Rightarrow> [] | Some i \<Rightarrow> i))"

definition resolver :: "world \<Rightarrow> string \<Rightarrow> string \<Rightarrow> string \<Rightarrow> string option" where
  "resolver w accessKey secretKey region =
     (case ResolveAccountID (callerIdentity w) accessKey secretKey region of Inl e \<Rightarrow> None | Inr i \<Rightarrow> Some i)"

text \<open>What becomes of the program, and of the database.\<close>

definition main ::
  "kdf \<Rightarrow> (nat \<Rightarrow> string option) \<Rightarrow> world \<Rightarrow> string \<Rightarrow> sql_db \<Rightarrow> outcome_of_main \<times> sql_db" where
  "main kdf rnd w hashPassword d =
     (if hashPassword \<noteq> []
      then (case HashPassword kdf (rnd 0) hashPassword of
              Inl e \<Rightarrow> (Fatal (HashError e), d)
            | Inr h \<Rightarrow> (Printed h, d))
      else case Load w of
        Inl e \<Rightarrow> (Fatal (LoadError e), d)
      | Inr cfg0 \<Rightarrow>
     (case ResolveAccountIDs (resolver w) (cfAccounts cfg0) of
        (as, degraded, Some alias) \<Rightarrow> (Fatal (UnresolvedAccount alias), d)
      | (as, degraded, None) \<Rightarrow>
          (let cfg = cfg0\<lparr>cfAccounts := as\<rparr>;
               ov = (if cfGPUCardCounts cfg \<noteq> [] then SetGPUCardOverrides (cfGPUCardCounts cfg) else Map.empty)
           in case New (mkdirOk w) (openOk w) (dbFaults w) (strftime w) d of
                (False, d') \<Rightarrow> (Fatal StoreError, d')
              | (True, d') \<Rightarrow>
             (case build_notifiers as (cfNotifiers cfg) of
                Inl alias \<Rightarrow> (Fatal (UnknownAccount alias), d')
              | Inr ns \<Rightarrow>
             (case build_server kdf rnd (cfAuth cfg) of
                Inl e \<Rightarrow> (Fatal (AuthError e), d')
              | Inr h \<Rightarrow>
                  (Serving \<lparr>svConfig = cfg, svOverrides = ov, svNotifiers = ns, svServer = h\<rparr>, d'))))))"

section \<open>What serves is protected\<close>

lemma main_serving:
  assumes "main kdf rnd w hp d = (Serving s, d')"
  obtains cfg0 as degraded where "Load w = Inr cfg0"
    "ResolveAccountIDs (resolver w) (cfAccounts cfg0) = (as, degraded, None)"
    "New (mkdirOk w) (openOk w) (dbFaults w) (strftime w) d = (True, d')"
    "svConfig s = cfg0\<lparr>cfAccounts := as\<rparr>"
    "build_server kdf rnd (cfAuth cfg0) = Inr (svServer s)"
    "build_notifiers as (cfNotifiers cfg0) = Inr (svNotifiers s)"
  using assms
  by (auto simp: main_def Let_def split: if_splits sum.splits prod.splits option.splits bool.splits)

lemma Load_valid: "Load w = Inr cfg \<Longrightarrow> validate cfg = None"
  by (auto simp: Load_def Let_def split: sum.splits option.splits)

lemma server_with_auth:
  assumes "build_server kdf rnd au = Inr h" "IsEnabled (Some au)"
  obtains a where "NewAuthenticator kdf rnd (auUsers au) = Inr a" "hAuthenticator h = Some a"
    "hSessions h = Some (NewSessionStore (ParseSessionTTL (Some au)))"
    "hLoginLimiter h = NewLoginLimiter (MaxAttempts (Some au)) (ParseLockoutDuration (Some au))"
    "hUserLimiter h = NewLoginLimiter (wrap64 (MaxAttempts (Some au) * 4)) (ParseLockoutDuration (Some au))"
  using assms by (auto simp: build_server_def WithAuth_def open_server_def split: sum.splits)

lemma no_session_yet:
  assumes "no_sessions h" and "route_of (rMethod r) (rPath r) = RProtected path"
  shows "fst (ServeHTTP kdf ph c rnd cfg e r (h, a)) = Inl (writeError 401 ''authentication required'') \<and>
    snd (snd (ServeHTTP kdf ph c rnd cfg e r (h, a))) = a"
proof -
  obtain res h' where cs: "currentSession (cAuth c) r h = (res, h')" by (cases "currentSession (cAuth c) r h")
  with no_sessions_current(1) [OF assms(1), of "cAuth c" r] have "res = None" by simp
  with cs assms have "serve kdf ph c rnd r h = (writeError 401 ''authentication required'', h')"
    by (auto simp: serve_def requireAuth_def no_sessions_def)
  then show ?thesis by (simp add: ServeHTTP_def writeError_def plain_reply_def)
qed

lemma valid_users: "validate cfg = None \<Longrightarrow> IsEnabled (Some (cfAuth cfg)) \<Longrightarrow> auUsers (cfAuth cfg) \<noteq> []"
  by (auto simp: validate_def validateAuth_def split: if_splits option.splits)

lemma wrap64_small: "0 \<le> i \<Longrightarrow> i < 2 ^ 63 \<Longrightarrow> wrap64 i = i"
  by (simp add: wrap64_def)

text \<open>What the handler is given: fresh stores with the configured limits, all of them positive.\<close>

lemma server_limits:
  assumes "build_server kdf rnd au = Inr h" "IsEnabled (Some au)"
  shows "hSessions h = Some \<lparr>session_map = [], ttl = ParseSessionTTL (Some au)\<rparr> \<and>
    hLoginLimiter h = \<lparr>attempts = [], maxAttempts = MaxAttempts (Some au),
      window = ParseLockoutDuration (Some au)\<rparr> \<and>
    attempts (hUserLimiter h) = [] \<and> window (hUserLimiter h) = ParseLockoutDuration (Some au) \<and>
    0 < maxAttempts (hUserLimiter h) \<and>
    (MaxAttempts (Some au) * 4 < 2 ^ 63 \<longrightarrow> maxAttempts (hUserLimiter h) = MaxAttempts (Some au) * 4) \<and>
    hCookieSecure h = auCookieSecure au \<and> hTrustProxy h"
proof -
  note pos = configured_durations_positive(3-5) [of "Some au"]
  have "wrap64 (MaxAttempts (Some au) * 4) = MaxAttempts (Some au) * 4" if "MaxAttempts (Some au) * 4 < 2 ^ 63"
    using that pos(3) by (intro wrap64_small) auto
  moreover have "hCookieSecure h = auCookieSecure au \<and> hTrustProxy h"
    using assms by (auto simp: build_server_def WithAuth_def split: sum.splits)
  moreover obtain a where "hSessions h = Some (NewSessionStore (ParseSessionTTL (Some au)))"
    "hLoginLimiter h = NewLoginLimiter (MaxAttempts (Some au)) (ParseLockoutDuration (Some au))"
    "hUserLimiter h = NewLoginLimiter (wrap64 (MaxAttempts (Some au) * 4)) (ParseLockoutDuration (Some au))"
    by (rule server_with_auth [OF assms])
  ultimately show ?thesis using pos by (simp add: NewSessionStore_def NewLoginLimiter_def)
qed

text \<open>
  C30. A program that got as far as serving with authentication on, which it is unless the configuration
  turns it off, has users and an authenticator for them, and starts without any session: after any run of
  requests, by any clients in any interleaving, in which nobody logs in, it turns down every request to a data
  endpoint with 401, whatever its cookie, and changes nothing. Its sessions
  live as long as configured, its login limiter allows the configured number of attempts, which is positive, before
  it locks for the configured time, the limiter of the users four times as many (unless that
  exceeds 63 bits), and its cookie is secure if configured.
\<close>

theorem serving_is_protected:
  assumes "main kdf rnd w hp d = (Serving s, d')"
    and "IsEnabled (Some (cfAuth (svConfig s)))" and "au = cfAuth (svConfig s)" and "h = svServer s"
  shows "auUsers au \<noteq> [] \<and> (\<forall>d \<in> set (cfRemindDays (svConfig s)). 0 < d) \<and>
    (\<exists>a. NewAuthenticator kdf rnd (auUsers au) = Inr a \<and> hAuthenticator h = Some a) \<and>
    hSessions h = Some \<lparr>session_map = [], ttl = ParseSessionTTL (Some au)\<rparr> \<and>
    hLoginLimiter h = \<lparr>attempts = [], maxAttempts = MaxAttempts (Some au), window = ParseLockoutDuration (Some au)\<rparr> \<and>
    attempts (hUserLimiter h) = [] \<and> window (hUserLimiter h) = ParseLockoutDuration (Some au) \<and>
    0 < maxAttempts (hUserLimiter h) \<and>
    (MaxAttempts (Some au) * 4 < 2 ^ 63 \<longrightarrow> maxAttempts (hUserLimiter h) = MaxAttempts (Some au) * 4) \<and>
    0 < ParseSessionTTL (Some au) \<and> 0 < MaxAttempts (Some au) \<and> 0 < ParseLockoutDuration (Some au) \<and>
    hCookieSecure h = auCookieSecure au \<and>
    (\<forall>ph evs c rnd' cfg e r path api.
       (\<forall>k. total_logins kdf ph k evs h = 0) \<and> route_of (rMethod r) (rPath r) = RProtected path \<longrightarrow>
       fst (ServeHTTP kdf ph c rnd' cfg e r (fold (server_step kdf ph) evs h, api)) =
         Inl (writeError 401 ''authentication required'') \<and>
       snd (snd (ServeHTTP kdf ph c rnd' cfg e r (fold (server_step kdf ph) evs h, api))) = api)"
proof -
  obtain cfg0 as degraded where m: "Load w = Inr cfg0" "svConfig s = cfg0\<lparr>cfAccounts := as\<rparr>"
    "build_server kdf rnd (cfAuth cfg0) = Inr (svServer s)"
    using main_serving [OF assms(1)] by metis
  have cfg: "au = cfAuth cfg0" "cfRemindDays (svConfig s) = cfRemindDays cfg0"
    by (simp_all add: m(2) assms(3))
  have valid: "validate cfg0 = None" by (rule Load_valid [OF m(1)])
  have on: "IsEnabled (Some (cfAuth cfg0))" using assms(2,3) by (simp add: cfg)
  obtain a where a: "NewAuthenticator kdf rnd (auUsers (cfAuth cfg0)) = Inr a" "hAuthenticator (svServer s) = Some a"
    "hSessions (svServer s) = Some (NewSessionStore (ParseSessionTTL (Some (cfAuth cfg0))))"
    by (rule server_with_auth [OF m(3) on])
  have "no_sessions (svServer s)" by (simp add: no_sessions_def a(3) NewSessionStore_def)
  note no_session_yet [OF no_sessions_run [OF this]]
  then show ?thesis
    unfolding cfg assms(4)
    using a(1,2) valid_users [OF valid on] validate_remind_days [OF valid]
      server_limits [OF m(3) on] configured_durations_positive(3-5)
    by blast
qed

definition sample_config :: "config \<Rightarrow> config" where
  "sample_config dflt =
     dflt\<lparr>cfAccounts := [(fetch_account [])\<lparr>acAccessKey := ''k'', acSecretKey := ''s''\<rparr>],
          cfAuth := (cfAuth dflt)\<lparr>auUsers := [\<lparr>Username = ''ops'', PasswordHash = [], Password = ''pw''\<rparr>]\<rparr>\<rparr>"

definition sample_world :: world where
  "sample_world =
     \<lparr>getenv = (\<lambda>_. []), readFile = (\<lambda>_. Some []), decodeConfig = (\<lambda>dflt _. Some (sample_config dflt)),
      decodeAccounts = (\<lambda>_. None), decodeUsers = (\<lambda>_. None), callerIdentity = (\<lambda>_ _ _. Inr (Some ''1'')),
      mkdirOk = True, openOk = True, dbFaults = (\<lambda>_. False), strftime = sample_strftime\<rparr>"

lemma sample_main:
  "\<exists>s. main (\<lambda>p s i n. Some (replicate n (CHR ''k''))) (\<lambda>_. Some ''salt'') sample_world [] (\<lambda>_. None) =
     (Serving s, migrated sample_strftime (\<lambda>_. None)) \<and> svConfig s = sample_config DefaultConfig"
proof -
  let ?kdf = "\<lambda>p s i n. Some (replicate n (CHR ''k'')) :: string option"
  have load: "Load sample_world = Inr (sample_config DefaultConfig)" by code_simp
  have "trim_space ''ops'' = ''ops''" by code_simp
  then obtain a where "NewAuthenticator ?kdf (\<lambda>_. Some ''salt'')
      [\<lparr>Username = ''ops'', PasswordHash = [], Password = ''pw''\<rparr>] = Inr a"
    by (simp add: NewAuthenticator_def user_hash_def Let_def HashPassword_def
        hashPasswordWithIterations_def)
  then obtain h where h: "build_server ?kdf (\<lambda>_. Some ''salt'') (cfAuth (sample_config DefaultConfig)) = Inr h"
    by (simp add: build_server_def sample_config_def DefaultConfig_def IsEnabled_def)
  have ids: "ResolveAccountIDs (resolver sample_world) (cfAccounts (sample_config DefaultConfig)) =
      (cfAccounts (sample_config DefaultConfig), [], None)"
    by code_simp
  have rest: "cfNotifiers (sample_config DefaultConfig) = []" "cfGPUCardCounts (sample_config DefaultConfig) = []"
    by (simp_all add: sample_config_def DefaultConfig_def)
  have db: "New (mkdirOk sample_world) (openOk sample_world) (dbFaults sample_world) (strftime sample_world)
      (\<lambda>_. None) = (True, migrated sample_strftime (\<lambda>_. None))"
    by (simp add: sample_world_def migrate_no_faults usable_def)
  show ?thesis by (simp add: main_def load ids h rest db Let_def)
qed

lemma serving_is_protected_witness:
  "\<exists>s d'. main (\<lambda>p s i n. Some (replicate n (CHR ''k''))) (\<lambda>_. Some ''salt'') sample_world [] (\<lambda>_. None) =
     (Serving s, d') \<and> maxAttempts (hLoginLimiter (svServer s)) = 5 \<and> maxAttempts (hUserLimiter (svServer s)) = 20 \<and>
     (\<exists>store. hSessions (svServer s) = Some store \<and> ttl store = 12 * Hour) \<and>
     (\<forall>api. fst (ServeHTTP (\<lambda>p s i n. Some (replicate n (CHR ''k''))) (\<lambda>_. None) sample_clocks None DefaultConfig
        sample_env (sync_request ''x'') (server_step (\<lambda>p s i n. Some (replicate n (CHR ''k''))) (\<lambda>_. None)
          (Admit 1 1 sample_request) (svServer s), api)) = Inl (writeError 401 ''authentication required''))"
proof -
  let ?kdf = "\<lambda>p s i n. Some (replicate n (CHR ''k'')) :: string option"
  obtain s where s: "main ?kdf (\<lambda>_. Some ''salt'') sample_world [] (\<lambda>_. None) =
      (Serving s, migrated sample_strftime (\<lambda>_. None))" and cfg: "svConfig s = sample_config DefaultConfig"
    using sample_main by blast
  have on: "IsEnabled (Some (cfAuth (svConfig s)))"
    by (simp add: cfg sample_config_def DefaultConfig_def IsEnabled_def)
  have max: "MaxAttempts (Some (cfAuth (svConfig s))) = 5"
    unfolding cfg by code_simp
  have ttl: "ParseSessionTTL (Some (cfAuth (svConfig s))) = 12 * Hour"
    unfolding cfg by code_simp
  have route: "route_of (rMethod (sync_request ''x'')) (rPath (sync_request ''x'')) = RProtected ''/api/sync''"
    by (simp add: route_of_def protected_post_def sync_request_def sample_request_def)
  note p = serving_is_protected [OF s on refl refl, unfolded max ttl]
  have "\<forall>k. total_logins ?kdf (\<lambda>_. None) k [Admit 1 1 sample_request] (svServer s) = 0" by simp
  then have "\<forall>api. fst (ServeHTTP ?kdf (\<lambda>_. None) sample_clocks None DefaultConfig sample_env (sync_request ''x'')
      (fold (server_step ?kdf (\<lambda>_. None)) [Admit 1 1 sample_request] (svServer s), api)) =
        Inl (writeError 401 ''authentication required'')"
    using p route by blast
  then have "\<forall>api. fst (ServeHTTP ?kdf (\<lambda>_. None) sample_clocks None DefaultConfig sample_env (sync_request ''x'')
      (server_step ?kdf (\<lambda>_. None) (Admit 1 1 sample_request) (svServer s), api)) =
        Inl (writeError 401 ''authentication required'')"
    unfolding fold_simps .
  moreover have "maxAttempts (hLoginLimiter (svServer s)) = 5" "maxAttempts (hUserLimiter (svServer s)) = 20"
    "\<exists>store. hSessions (svServer s) = Some store \<and> ttl store = 12 * Hour"
    using p by simp_all
  ultimately show ?thesis using s by blast
qed

end
