(* ===== verification/Shutdown.thy ===== *)
theory Shutdown
  imports Startup
begin

text \<open>
  The serving program and its end, the last part of \<open>main\<close> of \<^verbatim>\<open>main.go\<close>: requests come and go, the
  listener may fail, and a signal cancels the scheduler's context and shuts the server down. Of \<^verbatim>\<open>net/http\<close>
  the code relies on what is documented: \<open>Shutdown\<close> closes the listener first, returns when no
  request is in service any more, and at the end of its context at the latest; \<open>ListenAndServe\<close> then
  returns \<open>ErrServerClosed\<close>. A signal counts from when \<open>main\<close> has taken it from the channel and called
  \<open>Shutdown\<close>; further ones stay in the channel, which nobody reads again. The timeouts of the server are
  values that \<^verbatim>\<open>net/http\<close> acts on: they only make requests finish.
\<close>

datatype phase = Listening | Draining gotime | Exited nat

record process =
  prService :: service
  prNow :: gotime
  prPhase :: phase
  prActive :: nat
  prCancelled :: bool
  prAccepted :: nat

definition shutdown_timeout :: gotime where "shutdown_timeout = 30 * nano"

text \<open>
  Time passes, a request arrives or is finished, \<open>ListenAndServe\<close> returns an error of its own, a signal
  arrives.
\<close>

datatype proc_event = Elapse nat | Arrive | Finish | ListenFails | Interrupt

text \<open>\<open>Shutdown\<close> returns, without an error or with that of its context, and so does \<open>main\<close>.\<close>

definition settle :: "process \<Rightarrow> process" where
  "settle p =
     (case prPhase p of
        Draining deadline \<Rightarrow> if prActive p = 0 \<or> deadline \<le> prNow p then p\<lparr>prPhase := Exited 0\<rparr> else p
      | _ \<Rightarrow> p)"

definition interrupt :: "process \<Rightarrow> process" where
  "interrupt p = p\<lparr>prCancelled := True, prPhase := Draining (prNow p + shutdown_timeout)\<rparr>"

definition running_step :: "proc_event \<Rightarrow> process \<Rightarrow> process" where
  "running_step ev p =
     (case ev of
        Elapse d \<Rightarrow> p\<lparr>prNow := prNow p + int d\<rparr>
      | Arrive \<Rightarrow>
          if prPhase p = Listening then p\<lparr>prActive := prActive p + 1, prAccepted := prAccepted p + 1\<rparr> else p
      | Finish \<Rightarrow> p\<lparr>prActive := prActive p - 1\<rparr>
      | ListenFails \<Rightarrow> if prPhase p = Listening then p\<lparr>prPhase := Exited 1\<rparr> else p
      | Interrupt \<Rightarrow> if prPhase p = Listening then interrupt p else p)"

definition proc_step :: "proc_event \<Rightarrow> process \<Rightarrow> process" where
  "proc_step ev p = (case prPhase p of Exited n \<Rightarrow> p | _ \<Rightarrow> settle (running_step ev p))"

definition serve_from :: "gotime \<Rightarrow> service \<Rightarrow> process" where
  "serve_from now s =
     \<lparr>prService = s, prNow = now, prPhase = Listening, prActive = 0, prCancelled = False, prAccepted = 0\<rparr>"

section \<open>The end is bounded\<close>

fun elapsed :: "proc_event list \<Rightarrow> int" where
  "elapsed [] = 0"
| "elapsed (Elapse d # evs) = int d + elapsed evs"
| "elapsed (ev # evs) = elapsed evs"

lemmas proc_defs = proc_step_def running_step_def settle_def interrupt_def

lemma exited_stays: "prPhase p = Exited n \<Longrightarrow> fold proc_step evs p = p"
  by (induction evs) (simp_all add: proc_step_def)

lemma elapsed_nonneg: "0 \<le> elapsed evs"
  by (induction evs rule: elapsed.induct) simp_all

text \<open>While the server drains, the deadline stands and nothing is accepted.\<close>

lemma draining_step:
  assumes "prPhase p = Draining dl"
  shows "prAccepted (proc_step ev p) = prAccepted p \<and> prCancelled (proc_step ev p) = prCancelled p \<and>
    (prPhase (proc_step ev p) = Draining dl \<and> prNow (proc_step ev p) = prNow p + elapsed [ev] \<and>
       prNow (proc_step ev p) < dl \<or>
     prPhase (proc_step ev p) = Exited 0 \<and>
       (prActive (proc_step ev p) = 0 \<or> dl \<le> prNow (proc_step ev p)))"
  using assms by (cases ev) (simp_all add: proc_defs)

lemma draining_run:
  assumes "prPhase p = Draining dl" "prNow p < dl"
  shows "prAccepted (fold proc_step evs p) = prAccepted p \<and> prCancelled (fold proc_step evs p) = prCancelled p \<and>
    (dl \<le> prNow p + elapsed evs \<longrightarrow> prPhase (fold proc_step evs p) = Exited 0) \<and>
    (\<forall>n. prPhase (fold proc_step evs p) = Exited n \<longrightarrow>
       n = 0 \<and> (prActive (fold proc_step evs p) = 0 \<or> dl \<le> prNow (fold proc_step evs p)))"
  using assms
proof (induction evs arbitrary: p)
  case (Cons ev evs)
  have e: "elapsed (ev # evs) = elapsed [ev] + elapsed evs" by (cases ev) simp_all
  note step = draining_step [OF Cons.prems(1), of ev]
  show ?case
  proof (cases "prPhase (proc_step ev p) = Exited 0")
    case True
    then show ?thesis using step by (simp add: exited_stays)
  next
    case False
    with step Cons.IH [of "proc_step ev p"] show ?thesis by (simp add: e add.assoc)
  qed
qed simp

text \<open>
  C39. A signal ends the program within thirty seconds, with exit code 0, whatever requests come or
  hang: from the signal on nothing is accepted, the scheduler's context stays cancelled, and
  before the deadline the program exits only once every request in service was finished.
\<close>

theorem shutdown_bounded:
  assumes "prPhase p = Listening" and "q = fold proc_step evs (proc_step Interrupt p)"
  shows "prAccepted q = prAccepted p \<and> prCancelled q \<and>
    (shutdown_timeout \<le> elapsed evs \<longrightarrow> prPhase q = Exited 0) \<and>
    (\<forall>n. prPhase q = Exited n \<longrightarrow> n = 0 \<and> (prActive q = 0 \<or> prNow p + shutdown_timeout \<le> prNow q))"
proof -
  let ?r = "proc_step Interrupt p"
  have pos: "0 < shutdown_timeout" by (simp add: shutdown_timeout_def nano_def)
  have r: "prAccepted ?r = prAccepted p" "prCancelled ?r" "prNow ?r = prNow p"
    and cases: "prPhase ?r = Exited 0 \<and> prActive ?r = 0 \<or> prPhase ?r = Draining (prNow p + shutdown_timeout)"
    using assms(1) pos by (auto simp: proc_defs)
  show ?thesis
  proof (cases "prPhase ?r = Exited 0")
    case True
    with cases r show ?thesis by (simp add: assms(2) exited_stays)
  next
    case False
    with cases have "prPhase ?r = Draining (prNow p + shutdown_timeout)" by simp
    from draining_run [OF this, of evs] r pos show ?thesis by (simp add: assms(2))
  qed
qed

lemma shutdown_bounded_witness:
  "\<forall>s. prPhase (fold proc_step [Arrive, Elapse (30 * 10 ^ 9)]
     (proc_step Interrupt (proc_step Arrive (serve_from 0 s)))) = Exited 0"
proof
  fix s
  have "prPhase (proc_step Arrive (serve_from 0 s)) = Listening" by (simp add: serve_from_def proc_defs)
  from shutdown_bounded [OF this refl, of "[Arrive, Elapse (30 * 10 ^ 9)]"]
  show "prPhase (fold proc_step [Arrive, Elapse (30 * 10 ^ 9)]
      (proc_step Interrupt (proc_step Arrive (serve_from 0 s)))) = Exited 0"
    by (simp add: shutdown_timeout_def nano_def)
qed

end
