(* ===== verification/UrlCodec.thy ===== *)
theory UrlCodec
  imports Prelude
begin

text \<open>
  The browser's URL functions that the two pages use: \<open>encodeURIComponent\<close>, the parsing of
  a query string by \<open>URLSearchParams\<close>, and where the URL standard sends a navigation to a
  relative URL. Decoding of UTF-8 is the argument \<open>utf8\<close>; on ASCII it is the identity.
  The component's contract is the round trip \<open>search_get_encode\<close>.
\<close>

definition unreserved :: "char \<Rightarrow> bool" where
  "unreserved c \<longleftrightarrow>
     (let n = code c in
      48 \<le> n \<and> n \<le> 57 \<or> 65 \<le> n \<and> n \<le> 90 \<or> 97 \<le> n \<and> n \<le> 122 \<or>
      c \<in> set ''-_.!~*()'' \<or> n = 39)"

definition hex_digit :: "nat \<Rightarrow> char" where
  "hex_digit n = char_of (if n < 10 then 48 + n else 55 + n)"

definition hex_value :: "char \<Rightarrow> nat option" where
  "hex_value c =
     (let n = code c in
      if 48 \<le> n \<and> n \<le> 57 then Some (n - 48)
      else if 65 \<le> n \<and> n \<le> 70 then Some (n - 55)
      else if 97 \<le> n \<and> n \<le> 102 then Some (n - 87)
      else None)"

definition percent :: "nat \<Rightarrow> string" where
  "percent b = [CHR ''%'', hex_digit (b div 16), hex_digit (b mod 16)]"

text \<open>A code unit below 256 is one or two bytes of UTF-8.\<close>

definition encode_char :: "char \<Rightarrow> string" where
  "encode_char c =
     (if unreserved c then [c]
      else if code c < 128 then percent (code c)
      else percent (192 + code c div 64) @ percent (128 + code c mod 64))"

definition encodeURIComponent :: "string \<Rightarrow> string" where
  "encodeURIComponent s = concat (map encode_char s)"

definition replace_plus :: "string \<Rightarrow> string" where
  "replace_plus s = map (\<lambda>c. if c = CHR ''+'' then CHR '' '' else c) s"

fun percent_decode :: "string \<Rightarrow> string" where
  "percent_decode (c # a # b # s) =
     (case (hex_value a, hex_value b) of
        (Some x, Some y) \<Rightarrow>
          if c = CHR ''%'' then char_of (16 * x + y) # percent_decode s
          else c # percent_decode (a # b # s)
      | _ \<Rightarrow> c # percent_decode (a # b # s))"
| "percent_decode s = s"

definition query_pair :: "(string \<Rightarrow> string) \<Rightarrow> string \<Rightarrow> string \<times> string" where
  "query_pair utf8 p =
     (let dec = (\<lambda>s. utf8 (percent_decode (replace_plus s)))
      in (dec (takeWhile (\<lambda>c. c \<noteq> CHR ''='') p), dec (drop 1 (dropWhile (\<lambda>c. c \<noteq> CHR ''='') p))))"

definition search_get :: "(string \<Rightarrow> string) \<Rightarrow> string \<Rightarrow> string \<Rightarrow> string option" where
  "search_get utf8 search k =
     (let q = (case search of [] \<Rightarrow> [] | c # cs \<Rightarrow> if c = CHR ''?'' then cs else search)
      in map_of (map (query_pair utf8) (filter (\<lambda>p. p \<noteq> []) (split_on (CHR ''&'') q))) k)"

text \<open>
  Resolving a URL that begins with a slash against an http page: the parser first drops
  blanks and controls at the ends and every tab and newline, and takes a backslash for a slash.
  Two slashes begin a host. The result is that host, or \<open>None\<close> for the page's own.
\<close>

definition url_slash :: "char \<Rightarrow> bool" where
  "url_slash c \<longleftrightarrow> c = CHR ''/'' \<or> code c = 92"

definition strip_url :: "string \<Rightarrow> string" where
  "strip_url s =
     (let low = (\<lambda>c. code c \<le> 32)
      in filter (\<lambda>c. code c \<notin> {9, 10, 13}) (rev (dropWhile low (rev (dropWhile low s)))))"

definition url_host :: "string \<Rightarrow> string option" where
  "url_host s =
     (case strip_url s of
        a # b # t \<Rightarrow>
          if url_slash a \<and> url_slash b
          then Some (takeWhile (\<lambda>c. \<not> url_slash c \<and> c \<notin> set ''?#'') (dropWhile url_slash t))
          else None
      | _ \<Rightarrow> None)"

section \<open>The round trip\<close>

lemma hex_value_digit: "n < 16 \<Longrightarrow> hex_value (hex_digit n) = Some n"
  by (simp add: hex_value_def hex_digit_def Let_def)

lemma unreserved_not_special:
  "unreserved c \<Longrightarrow> c \<noteq> CHR ''%'' \<and> c \<noteq> CHR ''+'' \<and> c \<noteq> CHR ''&'' \<and> c \<noteq> CHR ''=''"
  by (auto simp: unreserved_def code_def)

lemma hex_digit_unreserved:
  assumes "n < 16"
  shows "unreserved (hex_digit n)"
proof -
  have "48 \<le> code (hex_digit n) \<and> code (hex_digit n) \<le> 57 \<or>
      65 \<le> code (hex_digit n) \<and> code (hex_digit n) \<le> 90"
    using assms by (simp add: hex_digit_def)
  then show ?thesis unfolding unreserved_def Let_def by blast
qed

lemma percent_decode_other: "c \<noteq> CHR ''%'' \<Longrightarrow> percent_decode (c # s) = c # percent_decode s"
  by (cases s rule: percent_decode.cases) (auto split: option.split)

lemma percent_decode_percent: "n < 256 \<Longrightarrow> percent_decode (percent n @ s) = char_of n # percent_decode s"
  by (simp add: percent_def hex_value_digit)

lemma percent_chars: "n < 256 \<Longrightarrow> c \<in> set (percent n) \<Longrightarrow> unreserved c \<or> c = CHR ''%''"
  by (auto simp: percent_def hex_digit_unreserved)

lemma code_bound: "code c < 256"
  by (simp add: code_def)

lemma char_of_code_unit: "char_of (code c) = c"
  by (simp add: code_def)

lemma encode_char_chars:
  assumes "c \<in> set (encode_char d)"
  shows "unreserved c \<or> c = CHR ''%''"
proof -
  have "code d < 256" by (rule code_bound)
  then have "code d div 64 < 4" "code d mod 64 < 64" by (simp_all add: less_mult_imp_div_less)
  then have b: "192 + code d div 64 < 256" "128 + code d mod 64 < 256" by linarith+
  consider "unreserved d" "c = d" | "c \<in> set (percent (code d))"
    | "c \<in> set (percent (192 + code d div 64))" | "c \<in> set (percent (128 + code d mod 64))"
    using assms by (auto simp: encode_char_def split: if_splits)
  then show ?thesis
    using percent_chars [OF \<open>code d < 256\<close>] percent_chars [OF b(1)] percent_chars [OF b(2)]
    by cases blast+
qed

lemma encode_chars: "c \<in> set (encodeURIComponent s) \<Longrightarrow> unreserved c \<or> c = CHR ''%''"
  using encode_char_chars by (auto simp: encodeURIComponent_def)

lemma encode_no_special:
  "c \<in> set (encodeURIComponent s) \<Longrightarrow> c \<noteq> CHR ''+'' \<and> c \<noteq> CHR ''&'' \<and> c \<noteq> CHR ''=''"
  using encode_chars [of c s] unreserved_not_special [of c] by auto

lemma decode_encode:
  "\<forall>c \<in> set s. code c < 128 \<Longrightarrow> percent_decode (encodeURIComponent s) = s"
proof (induction s)
  case (Cons c s)
  then show ?case
    by (cases "unreserved c")
      (auto simp: encodeURIComponent_def encode_char_def percent_decode_other unreserved_not_special
        percent_decode_percent char_of_code_unit)
qed (simp add: encodeURIComponent_def)

lemma search_get_encode:
  assumes "\<And>s. \<forall>c \<in> set s. code c < 128 \<Longrightarrow> utf8 s = s" and "\<forall>c \<in> set t. code c < 128"
  shows "search_get utf8 (''?next='' @ encodeURIComponent t) ''next'' = Some t"
proof -
  let ?q = "''next='' @ encodeURIComponent t"
  have "CHR ''&'' \<notin> set ?q" using encode_no_special [of "CHR ''&''" t] by auto
  then have "split_on (CHR ''&'') ?q = [?q]" by (rule split_on_single)
  moreover have "replace_plus (encodeURIComponent t) = encodeURIComponent t"
    unfolding replace_plus_def using encode_no_special [of _ t] by (intro map_idI) auto
  moreover have "percent_decode (replace_plus ''next'') = ''next''" by code_simp
  moreover have "utf8 ''next'' = ''next''" by (rule assms(1)) (simp add: code_def)
  ultimately have "query_pair utf8 ?q = (''next'', t)"
    using assms by (simp add: query_pair_def Let_def decode_encode)
  with \<open>split_on (CHR ''&'') ?q = [?q]\<close> show ?thesis by (simp add: search_get_def)
qed

end
