(* ===== verification/JsValue.thy ===== *)
theory JsValue
  imports Complex_Main GoTime
begin

text \<open>
  What the browser code uses of JavaScript. Numbers are rationals with \<open>NaN\<close> and the
  infinities: the program computes with millisecond counts, day counts and prices, which
  stay far below \<open>2 ^ 53\<close>, and rounding of non-integral doubles is not modelled. A cell is
  a primitive value, a row is an object whose properties are primitive, which is what the
  JSON of the server's rows holds. An operation that can throw returns an option.

  What the language standard leaves to the engine or the machine is in the record
  \<open>js_env\<close>, an argument of every function that uses it: the offset of local time from UTC,
  \<open>Date.parse\<close> outside the ISO format, and the text of a non-integral number.
\<close>

section \<open>Numbers\<close>

datatype jsnum = NaN | NInf | Fin rat | PInf

fun js_less :: "jsnum \<Rightarrow> jsnum \<Rightarrow> bool" where
  "js_less NaN y = False"
| "js_less x NaN = False"
| "js_less NInf y = (y \<noteq> NInf)"
| "js_less x NInf = False"
| "js_less (Fin a) (Fin b) = (a < b)"
| "js_less (Fin a) PInf = True"
| "js_less PInf y = False"

definition js_less_eq :: "jsnum \<Rightarrow> jsnum \<Rightarrow> bool" where
  "js_less_eq x y \<longleftrightarrow> js_less x y \<or> (x = y \<and> x \<noteq> NaN)"

text \<open>
  A linear order on numbers, with \<open>NaN\<close> below all others, for the library's sorting
  functions. On numbers other than \<open>NaN\<close> it is JavaScript's.
\<close>

fun num_rank :: "jsnum \<Rightarrow> nat" where
  "num_rank NaN = 0"
| "num_rank NInf = 1"
| "num_rank (Fin a) = 2"
| "num_rank PInf = 3"

fun num_part :: "jsnum \<Rightarrow> rat" where
  "num_part (Fin a) = a"
| "num_part x = 0"

instantiation jsnum :: linorder
begin

definition less_eq_jsnum :: "jsnum \<Rightarrow> jsnum \<Rightarrow> bool" where
  "less_eq_jsnum x y \<longleftrightarrow> num_rank x < num_rank y \<or> (num_rank x = num_rank y \<and> num_part x \<le> num_part y)"

definition less_jsnum :: "jsnum \<Rightarrow> jsnum \<Rightarrow> bool" where
  "less_jsnum x y \<longleftrightarrow> num_rank x < num_rank y \<or> (num_rank x = num_rank y \<and> num_part x < num_part y)"

instance
proof (standard, goal_cases)
  case (4 x y)
  then show ?case by (cases x; cases y) (auto simp: less_eq_jsnum_def)
qed (auto simp: less_eq_jsnum_def less_jsnum_def)

end

lemma js_less_less: "x \<noteq> NaN \<Longrightarrow> y \<noteq> NaN \<Longrightarrow> js_less x y \<longleftrightarrow> x < y"
  by (cases x; cases y) (auto simp: less_jsnum_def)

lemma js_less_eq_less_eq: "x \<noteq> NaN \<Longrightarrow> y \<noteq> NaN \<Longrightarrow> js_less_eq x y \<longleftrightarrow> x \<le> y"
  by (auto simp: js_less_eq_def js_less_less)

lemma Fin_less_iff [simp]: "Fin a < Fin b \<longleftrightarrow> a < b"
  and Fin_less_eq_iff [simp]: "Fin a \<le> Fin b \<longleftrightarrow> a \<le> b"
  by (auto simp: less_jsnum_def less_eq_jsnum_def)

fun js_minus :: "jsnum \<Rightarrow> jsnum \<Rightarrow> jsnum" where
  "js_minus (Fin a) (Fin b) = Fin (a - b)"
| "js_minus (Fin a) PInf = NInf"
| "js_minus (Fin a) NInf = PInf"
| "js_minus PInf (Fin b) = PInf"
| "js_minus PInf NInf = PInf"
| "js_minus NInf (Fin b) = NInf"
| "js_minus NInf PInf = NInf"
| "js_minus x y = NaN"

fun js_sgn :: "jsnum \<Rightarrow> rat" where
  "js_sgn NaN = 0"
| "js_sgn NInf = -1"
| "js_sgn PInf = 1"
| "js_sgn (Fin a) = sgn a"

definition js_times :: "jsnum \<Rightarrow> jsnum \<Rightarrow> jsnum" where
  "js_times x y =
     (case (x, y) of
        (Fin a, Fin b) \<Rightarrow> Fin (a * b)
      | _ \<Rightarrow> if js_sgn x * js_sgn y = 0 then NaN
             else if js_sgn x * js_sgn y > 0 then PInf else NInf)"

definition js_ceil :: "jsnum \<Rightarrow> jsnum" where
  "js_ceil x = (case x of Fin a \<Rightarrow> Fin (of_int \<lceil>a\<rceil>) | _ \<Rightarrow> x)"

text \<open>\<open>Math.round\<close>: to the nearest integer, halves towards \<open>+\<infinity>\<close>.\<close>

definition js_round :: "jsnum \<Rightarrow> jsnum" where
  "js_round x = (case x of Fin a \<Rightarrow> Fin (of_int \<lfloor>a + 1 / 2\<rfloor>) | _ \<Rightarrow> x)"

text \<open>\<open>x || 0\<close> on numbers.\<close>

definition js_or_zero :: "jsnum \<Rightarrow> jsnum" where
  "js_or_zero x = (if x = NaN then Fin 0 else x)"

section \<open>Cells and rows\<close>

datatype cell = Undef | Null | Bool bool | Num jsnum | Str string

type_synonym row = "(string \<times> cell) list"

definition get_prop :: "row \<Rightarrow> string \<Rightarrow> cell" where
  "get_prop r k = (case map_of r k of None \<Rightarrow> Undef | Some v \<Rightarrow> v)"

fun truthy :: "cell \<Rightarrow> bool" where
  "truthy Undef = False"
| "truthy Null = False"
| "truthy (Bool b) = b"
| "truthy (Num n) = (n \<noteq> NaN \<and> n \<noteq> Fin 0)"
| "truthy (Str s) = (s \<noteq> [])"

definition js_or :: "cell \<Rightarrow> cell \<Rightarrow> cell" where
  "js_or a b = (if truthy a then a else b)"

record js_env =
  tz_offset :: "int \<Rightarrow> int"
  parse_other :: "string \<Rightarrow> int option"
  num_text :: "rat \<Rightarrow> string"

text \<open>From here on \<open>Number\<close>s are written with an exponent, and \<open>toFixed\<close> writes as \<open>String\<close> does.\<close>

definition exponent_from :: rat where "exponent_from = 10 ^ 21"

definition js_num_text :: "js_env \<Rightarrow> jsnum \<Rightarrow> string" where
  "js_num_text env n =
     (case n of
        NaN \<Rightarrow> ''NaN'' | PInf \<Rightarrow> ''Infinity'' | NInf \<Rightarrow> ''-Infinity''
      | Fin x \<Rightarrow> if x = of_int \<lfloor>x\<rfloor> \<and> \<bar>x\<bar> < exponent_from then itoa \<lfloor>x\<rfloor> else num_text env x)"

definition js_String :: "js_env \<Rightarrow> cell \<Rightarrow> string" where
  "js_String env c =
     (case c of
        Undef \<Rightarrow> ''undefined'' | Null \<Rightarrow> ''null''
      | Bool b \<Rightarrow> if b then ''true'' else ''false''
      | Num n \<Rightarrow> js_num_text env n
      | Str s \<Rightarrow> s)"

text \<open>\<open>Number(s)\<close> for a string: blanks around a signed decimal literal with an optional
  exponent, \<open>Infinity\<close>, or an unsigned literal in base 16, 8 or 2.\<close>

definition js_space :: "char \<Rightarrow> bool" where
  "js_space c \<longleftrightarrow> code c \<in> {9, 10, 11, 12, 13, 32, 160}"

definition js_trim :: "string \<Rightarrow> string" where
  "js_trim s = rev (dropWhile js_space (rev (dropWhile js_space s)))"

definition base_digit :: "nat \<Rightarrow> char \<Rightarrow> nat option" where
  "base_digit b c =
     (let n = code c;
          d = (if 48 \<le> n \<and> n \<le> 57 then n - 48
               else if 97 \<le> n \<and> n \<le> 102 then n - 87
               else if 65 \<le> n \<and> n \<le> 70 then n - 55 else 99)
      in if d < b then Some d else None)"

fun base_value :: "nat \<Rightarrow> nat \<Rightarrow> string \<Rightarrow> nat option" where
  "base_value b acc [] = Some acc"
| "base_value b acc (c # cs) =
     (case base_digit b c of None \<Rightarrow> None | Some d \<Rightarrow> base_value b (acc * b + d) cs)"

definition is_digit :: "char \<Rightarrow> bool" where
  "is_digit c \<longleftrightarrow> digit_val c \<noteq> None"

definition exponent_value :: "string \<Rightarrow> rat option" where
  "exponent_value s =
     (case s of
        [] \<Rightarrow> Some 1
      | e # t \<Rightarrow>
          if e = CHR ''e'' \<or> e = CHR ''E''
          then (case t of
                  [] \<Rightarrow> None
                | sg # ds \<Rightarrow>
                    (let neg = (sg = CHR ''-''); body = (if neg \<or> sg = CHR ''+'' then ds else t)
                     in if body = [] then None
                        else map_option (\<lambda>n. if neg then 1 / 10 ^ n else 10 ^ n) (digits_val 0 body)))
          else None)"

definition decimal_value :: "string \<Rightarrow> rat option" where
  "decimal_value s =
     (let ip = takeWhile is_digit s; r = dropWhile is_digit s;
          dot = (case r of c # _ \<Rightarrow> c = CHR ''.'' | [] \<Rightarrow> False);
          fp = (if dot then takeWhile is_digit (tl r) else []);
          ex = (if dot then dropWhile is_digit (tl r) else r)
      in if ip = [] \<and> fp = [] then None
         else map_option
                (\<lambda>e. (of_nat (the (digits_val 0 (ip @ fp))) / 10 ^ length fp) * e)
                (exponent_value ex))"

definition signed_value :: "string \<Rightarrow> jsnum" where
  "signed_value s =
     (let neg = (case s of c # _ \<Rightarrow> c = CHR ''-'' | [] \<Rightarrow> False);
          plus = (case s of c # _ \<Rightarrow> c = CHR ''+'' | [] \<Rightarrow> False);
          body = (if neg \<or> plus then tl s else s)
      in if body = ''Infinity'' then (if neg then NInf else PInf)
         else case decimal_value body of None \<Rightarrow> NaN | Some x \<Rightarrow> Fin (if neg then - x else x))"

definition string_number :: "string \<Rightarrow> jsnum" where
  "string_number s0 =
     (let s = js_trim s0; p = to_lower (take 2 s);
          based = (\<lambda>b. if length s \<le> 2 then NaN
                        else case base_value b 0 (drop 2 s) of None \<Rightarrow> NaN | Some n \<Rightarrow> Fin (of_nat n))
      in if s = [] then Fin 0
         else if p = ''0x'' then based 16
         else if p = ''0o'' then based 8
         else if p = ''0b'' then based 2
         else signed_value s)"

definition js_Number :: "cell \<Rightarrow> jsnum" where
  "js_Number c =
     (case c of
        Undef \<Rightarrow> NaN | Null \<Rightarrow> Fin 0
      | Bool b \<Rightarrow> Fin (if b then 1 else 0)
      | Num n \<Rightarrow> n
      | Str s \<Rightarrow> string_number s)"

text \<open>The operator \<open><\<close>: on two strings it compares code units, otherwise numbers.\<close>

definition cell_less :: "cell \<Rightarrow> cell \<Rightarrow> bool" where
  "cell_less a b =
     (case (a, b) of
        (Str s, Str t) \<Rightarrow> s < t
      | _ \<Rightarrow> js_less (js_Number a) (js_Number b))"

text \<open>\<open>toLowerCase\<close> on Latin-1 code units.\<close>

definition js_lower_char :: "char \<Rightarrow> char" where
  "js_lower_char c =
     (let n = code c
      in if (65 \<le> n \<and> n \<le> 90) \<or> (192 \<le> n \<and> n \<le> 222 \<and> n \<noteq> 215) then char_of (n + 32) else c)"

definition js_lower :: "string \<Rightarrow> string" where
  "js_lower s = map js_lower_char s"

text \<open>The method call \<open>v.toLowerCase()\<close>: a \<open>TypeError\<close> unless \<open>v\<close> is a string.\<close>

definition cell_lower :: "cell \<Rightarrow> string option" where
  "cell_lower c = (case c of Str s \<Rightarrow> Some (js_lower s) | _ \<Rightarrow> None)"

section \<open>Dates\<close>

text \<open>A time value: milliseconds since 1970-01-01 UTC, or \<open>None\<close> for an invalid date.\<close>

type_synonym time_value = "int option"

definition unix_epoch :: gotime where
  "unix_epoch = 719162 * (24 * 3600 * 1000000000)"

definition ms_of_gotime :: "gotime \<Rightarrow> int" where
  "ms_of_gotime t = (t - unix_epoch) div 1000000"

definition gotime_of_ms :: "int \<Rightarrow> gotime" where
  "gotime_of_ms ms = ms * 1000000 + unix_epoch"

definition time_clip :: "int \<Rightarrow> time_value" where
  "time_clip ms = (if \<bar>ms\<bar> \<le> 8640000000000000 then Some ms else None)"

text \<open>\<open>Date.parse\<close>: the ISO format in UTC, with or without milliseconds; whatever else a
  string is read as depends on the engine and the time zone.\<close>

definition iso_utc :: "string \<Rightarrow> bool" where
  "iso_utc s \<longleftrightarrow> s \<noteq> [] \<and> last s = CHR ''Z'' \<and>
     (length s = 20 \<or> length s = 24 \<and> s ! 19 = CHR ''.'') \<and> s ! 13 = CHR '':''"

definition parse_date :: "js_env \<Rightarrow> string \<Rightarrow> time_value" where
  "parse_date env s =
     (case (if iso_utc s then parse_rfc3339 s else None) of
        Some t \<Rightarrow> Some (ms_of_gotime t)
      | None \<Rightarrow> parse_other env s)"

definition truncate_rat :: "rat \<Rightarrow> int" where
  "truncate_rat x = (if x < 0 then \<lceil>x\<rceil> else \<lfloor>x\<rfloor>)"

definition new_Date :: "js_env \<Rightarrow> cell \<Rightarrow> time_value" where
  "new_Date env c =
     (case c of
        Str s \<Rightarrow> Option.bind (parse_date env s) time_clip
      | _ \<Rightarrow> (case js_Number c of Fin x \<Rightarrow> time_clip (truncate_rat x) | _ \<Rightarrow> None))"

definition time_number :: "time_value \<Rightarrow> jsnum" where
  "time_number t = (case t of None \<Rightarrow> NaN | Some ms \<Rightarrow> Fin (of_int ms))"

definition local_gotime :: "js_env \<Rightarrow> int \<Rightarrow> gotime" where
  "local_gotime env ms = gotime_of_ms (ms + tz_offset env ms)"

definition getFullYear :: "js_env \<Rightarrow> time_value \<Rightarrow> jsnum" where
  "getFullYear env t =
     (case t of None \<Rightarrow> NaN | Some ms \<Rightarrow> Fin (of_int (Year (local_gotime env ms))))"

section \<open>Array.prototype.sort\<close>

text \<open>
  The sort is stable and calls a comparator that returns a number; a result below zero
  puts the first argument first, and \<open>NaN\<close> counts as zero. For a consistent comparator the
  standard determines the result, which is that of an insertion sort.
\<close>

fun js_insert :: "('a \<Rightarrow> 'a \<Rightarrow> jsnum) \<Rightarrow> 'a \<Rightarrow> 'a list \<Rightarrow> 'a list" where
  "js_insert cmp x [] = [x]"
| "js_insert cmp x (y # ys) =
     (if js_less (Fin 0) (cmp x y) then y # js_insert cmp x ys else x # y # ys)"

fun js_sort :: "('a \<Rightarrow> 'a \<Rightarrow> jsnum) \<Rightarrow> 'a list \<Rightarrow> 'a list" where
  "js_sort cmp [] = []"
| "js_sort cmp (x # xs) = js_insert cmp x (js_sort cmp xs)"

lemma mset_js_insert [simp]: "mset (js_insert cmp x xs) = add_mset x (mset xs)"
  by (induction xs) auto

lemma mset_js_sort [simp]: "mset (js_sort cmp xs) = mset xs"
  by (induction xs) auto

lemma set_js_insert [simp]: "set (js_insert cmp x xs) = insert x (set xs)"
  by (induction xs) auto

lemma set_js_sort [simp]: "set (js_sort cmp xs) = set xs"
  by (induction xs) auto

lemma js_minus_after: "x \<noteq> NaN \<Longrightarrow> y \<noteq> NaN \<Longrightarrow> js_less (Fin 0) (js_minus x y) \<longleftrightarrow> y < x"
  by (cases x; cases y) (auto simp: less_jsnum_def)

lemma js_times_one [simp]: "js_times x (Fin 1) = x"
  by (cases x) (auto simp: js_times_def)

lemma js_times_minus_one: "js_less (Fin 0) (js_times x (Fin (- 1))) \<longleftrightarrow> js_less x (Fin 0)"
  by (cases x) (auto simp: js_times_def)

lemma js_minus_before: "x \<noteq> NaN \<Longrightarrow> y \<noteq> NaN \<Longrightarrow> js_less (js_minus x y) (Fin 0) \<longleftrightarrow> x < y"
  by (cases x; cases y) (auto simp: less_jsnum_def)

text \<open>
  The contract between a comparator and the sort. On the elements that are \<open>ok\<close> the
  comparator orders by a key; then sorting with it is the library's stable sort by that
  key, and sorting with its negation the stable sort in descending order.
\<close>

locale keyed_comparator =
  fixes cmp :: "'a \<Rightarrow> 'a \<Rightarrow> jsnum" and key :: "'a \<Rightarrow> 'k :: linorder" and ok :: "'a \<Rightarrow> bool"
  assumes after: "ok a \<Longrightarrow> ok b \<Longrightarrow> js_less (Fin 0) (cmp a b) \<longleftrightarrow> key b < key a"
    and before: "ok a \<Longrightarrow> ok b \<Longrightarrow> js_less (cmp a b) (Fin 0) \<longleftrightarrow> key a < key b"
begin

lemma insert_ascending:
  "\<forall>y \<in> insert x (set ys). ok y \<Longrightarrow> js_insert cmp x ys = insort_key key x ys"
  by (induction ys) (auto simp: after)

lemma sort_ascending: "\<forall>x \<in> set xs. ok x \<Longrightarrow> js_sort cmp xs = sort_key key xs"
  by (induction xs) (auto simp: insert_ascending)

definition negated :: "'a \<Rightarrow> 'a \<Rightarrow> jsnum" where
  "negated a b = js_times (cmp a b) (Fin (- 1))"

lemma negated_after: "ok a \<Longrightarrow> ok b \<Longrightarrow> js_less (Fin 0) (negated a b) \<longleftrightarrow> key a < key b"
  by (simp add: negated_def js_times_minus_one before)

lemma insert_descending:
  assumes "\<forall>y \<in> insert x (set ys). ok y" "sorted (map key (rev ys))"
  shows "sorted (map key (rev (js_insert negated x ys))) \<and>
    filter (\<lambda>y. k = key y) (js_insert negated x ys) = filter (\<lambda>y. k = key y) (x # ys)"
  using assms
proof (induction ys)
  case (Cons y ys)
  show ?case
  proof (cases "key x < key y")
    case True
    have "sorted (map key (rev (js_insert negated x ys)))"
      and f: "filter (\<lambda>y. k = key y) (js_insert negated x ys) = filter (\<lambda>y. k = key y) (x # ys)"
      using Cons by (auto simp: sorted_append)
    with True Cons.prems show ?thesis by (auto simp: sorted_append negated_after)
  next
    case False
    with Cons.prems show ?thesis by (auto simp: sorted_append negated_after not_less)
  qed
qed simp

lemma sort_descending_facts:
  assumes "\<forall>x \<in> set xs. ok x"
  shows "sorted (map key (rev (js_sort negated xs))) \<and>
    filter (\<lambda>y. k = key y) (js_sort negated xs) = filter (\<lambda>y. k = key y) xs"
  using assms
proof (induction xs)
  case (Cons x xs)
  then have "\<forall>y \<in> insert x (set (js_sort negated xs)). ok y"
    and "sorted (map key (rev (js_sort negated xs)))" by auto
  from insert_descending [OF this, of k] Cons show ?case by auto
qed simp

lemma sort_descending:
  assumes "\<forall>x \<in> set xs. ok x"
  shows "js_sort negated xs = rev (sort_key key (rev xs))"
proof -
  have "sort_key key (rev xs) = rev (js_sort negated xs)"
  proof (rule properties_for_sort_key)
    show "mset (rev (js_sort negated xs)) = mset (rev xs)" by simp
    show "sorted (map key (rev (js_sort negated xs)))"
      using sort_descending_facts [OF assms] by blast
    fix k
    show "filter (\<lambda>x. key k = key x) (rev (js_sort negated xs)) = filter (\<lambda>x. key k = key x) (rev xs)"
      using sort_descending_facts [OF assms, of "key k"] by (simp add: rev_filter [symmetric])
  qed
  then show ?thesis by simp
qed

lemma sort_negated:
  "\<forall>x \<in> set xs. ok x \<Longrightarrow>
   js_sort (\<lambda>a b. js_times (cmp a b) (Fin (- 1))) xs = rev (sort_key key (rev xs))"
  using sort_descending by (simp add: negated_def [abs_def])

end

section \<open>The dates of the server\<close>

text \<open>A time the server sends is read back as that instant.\<close>

lemma iso_utc_format:
  assumes "four_digit_year t"
  shows "iso_utc (format_rfc3339 t)"
proof -
  have d: "length (format_date t) = 10" by (rule length_format_date [OF assms])
  obtain a b c where "format_clock t = zpad 2 a @ [CHR '':''] @ zpad 2 b @ [CHR '':''] @ zpad 2 c"
    using format_clock_zpad by blast
  with d show ?thesis
    by (auto simp: iso_utc_def format_rfc3339_def nth_append)
qed

lemma four_digit_day_of:
  assumes "four_digit_year t"
  shows "- 366 \<le> day_of t" "day_of t < 3652059"
proof -
  have y: "Year t = year_of_days (day_of t)"
    by (simp add: Year_def civil_of_days_def Let_def)
  have "days_before_year 0 \<le> days_before_year (Year t)"
    "days_before_year (Year t + 1) \<le> days_before_year 10000"
    using assms by (simp_all add: four_digit_year_def days_before_year_less_eq)
  moreover have "days_before_year 0 = - 366" "days_before_year 10000 = 3652059"
    by (simp_all add: days_before_year_def)
  ultimately show "- 366 \<le> day_of t" "day_of t < 3652059"
    using year_of_days_bounds [of "day_of t"] by (simp_all add: y)
qed

lemma new_Date_server:
  assumes "four_digit_year t"
  shows "new_Date env (Str (format_rfc3339 t)) = Some (ms_of_gotime (truncate_second t))"
proof -
  have day: "day_of t = t div nano div 86400" by (simp add: day_of_def)
  define s where "s = t div nano"
  have "s = 86400 * (s div 86400) + s mod 86400" "0 \<le> s mod 86400" "s mod 86400 < 86400"
    by (simp_all)
  with four_digit_day_of [OF assms] have s: "- 31622400 \<le> s" "s \<le> 315537897600"
    unfolding day s_def [symmetric] by linarith+
  have "ms_of_gotime (truncate_second t) = s * 1000 - 62135596800000"
    by (simp add: ms_of_gotime_def truncate_second_def s_def unix_epoch_def nano_def)
  with s have "\<bar>ms_of_gotime (truncate_second t)\<bar> \<le> 8640000000000000" by simp
  then show ?thesis
    using assms by (simp add: new_Date_def parse_date_def iso_utc_format
        parse_rfc3339_format_rfc3339 time_clip_def)
qed

end
