(* ===== verification/AppView.thy ===== *)
theory AppView
  imports JsValue Reservation "HOL-Library.Product_Lexorder" "HOL-Library.Sublist"
begin

text \<open>
  The computed values of the dashboard, \<^verbatim>\<open>frontend/static/js/app.js\<close>: comparing, sorting
  and filtering rows, the statistics cards, and the formatting of cells. They are pure
  functions of the page's refs; an evaluation reads the clock once (\<open>now\<close>).

  The body of a response is \<open>null\<close>, an array of rows, or an object whose properties are
  primitive or arrays of strings. Each comparator the page hands to \<open>sort\<close> is shown to
  be a \<open>keyed_comparator\<close>, so that the tables are sorted stably by that key.
\<close>

datatype body =
    JPrim cell
  | JRows "row list"
  | JObject row "(string \<times> string list) list"

text \<open>\<open>(x || []).filter\<close>: a \<open>TypeError\<close> when the value has no such method.\<close>

definition rows_or_empty :: "body \<Rightarrow> row list option" where
  "rows_or_empty b =
     (case b of
        JPrim c \<Rightarrow> if truthy c then None else Some []
      | JRows rs \<Rightarrow> Some rs
      | JObject _ _ \<Rightarrow> None)"

fun js_filter :: "('a \<Rightarrow> bool option) \<Rightarrow> 'a list \<Rightarrow> 'a list option" where
  "js_filter p [] = Some []"
| "js_filter p (x # xs) = do {
     b \<leftarrow> p x;
     ys \<leftarrow> js_filter p xs;
     Some (if b then x # ys else ys)
   }"

section \<open>Sorting and searching\<close>

text \<open>The key and direction of a table after a click on a column's header.\<close>

definition sortBy :: "string \<Rightarrow> string \<times> string \<Rightarrow> string \<times> string" where
  "sortBy key st =
     (case st of (sortKey, sortDir) \<Rightarrow>
        if sortKey = key
        then (sortKey, if sortDir = ''asc'' then ''desc'' else ''asc'')
        else (key, ''asc''))"

text \<open>The arrow's code point.\<close>

definition sortArrow :: "string \<Rightarrow> string \<Rightarrow> string \<Rightarrow> nat" where
  "sortArrow current key dir =
     (if current \<noteq> key then 0x2195 else if dir = ''asc'' then 0x2191 else 0x2193)"

definition isZeroTime :: "js_env \<Rightarrow> cell \<Rightarrow> bool" where
  "isZeroTime env d \<longleftrightarrow> \<not> truthy d \<or> js_less_eq (getFullYear env (new_Date env d)) (Fin 1)"

definition time_key :: "js_env \<Rightarrow> cell \<Rightarrow> jsnum" where
  "time_key env v = (if truthy v \<and> \<not> isZeroTime env v then time_number (new_Date env v) else NInf)"

definition is_number :: "cell \<Rightarrow> bool" where
  "is_number v = (case v of Num _ \<Rightarrow> True | _ \<Rightarrow> False)"

definition text_key :: "js_env \<Rightarrow> cell \<Rightarrow> string" where
  "text_key env v = js_lower (if v = Undef \<or> v = Null then [] else js_String env v)"

definition three_way :: "bool \<Rightarrow> bool \<Rightarrow> jsnum" where
  "three_way lt gt = (if lt then Fin (- 1) else if gt then Fin 1 else Fin 0)"

definition compareValues :: "js_env \<Rightarrow> row \<Rightarrow> row \<Rightarrow> string \<Rightarrow> jsnum" where
  "compareValues env a b key =
     (let va = get_prop a key; vb = get_prop b key in
      if key = ''start_time'' \<or> key = ''end_time'' then
        (let x = time_key env va; y = time_key env vb in three_way (js_less x y) (js_less y x))
      else if is_number va \<or> is_number vb then
        (let x = js_or_zero (js_Number va); y = js_or_zero (js_Number vb)
         in three_way (js_less x y) (js_less y x))
      else
        (let x = text_key env va; y = text_key env vb in three_way (x < y) (y < x)))"

fun search_fields :: "string \<Rightarrow> row \<Rightarrow> string list \<Rightarrow> bool option" where
  "search_fields s r [] = Some False"
| "search_fields s r (k # ks) = do {
     t \<leftarrow> cell_lower (js_or (get_prop r k) (Str []));
     if contains t s then Some True else search_fields s r ks
   }"

text \<open>Whole days until \<open>d\<close>, or \<open>None\<close> for \<open>null\<close>.\<close>

definition daysUntil :: "js_env \<Rightarrow> cell \<Rightarrow> int \<Rightarrow> jsnum option" where
  "daysUntil env d now =
     (if isZeroTime env d then None
      else Some (js_ceil
             (case new_Date env d of
                None \<Rightarrow> NaN
              | Some t \<Rightarrow> Fin (of_int (t - now) / 86400000))))"

definition days_key :: "js_env \<Rightarrow> int \<Rightarrow> row \<Rightarrow> jsnum" where
  "days_key env now r =
     (case daysUntil env (get_prop r ''end_time'') now of None \<Rightarrow> PInf | Some d \<Rightarrow> d)"

definition usage_key :: "row \<Rightarrow> jsnum" where
  "usage_key r =
     (if get_prop r ''type'' = Str ''odcr'' \<or> get_prop r ''type'' = Str ''cb''
      then js_Number (js_or (get_prop r ''used_count'') (Num (Fin 0)))
      else Fin (- 1))"

definition sign_of :: "string \<Rightarrow> jsnum" where
  "sign_of dir = (if dir = ''asc'' then Fin 1 else Fin (- 1))"

definition reservation_comparator :: "js_env \<Rightarrow> int \<Rightarrow> string \<Rightarrow> row \<Rightarrow> row \<Rightarrow> jsnum" where
  "reservation_comparator env now key a b =
     (if key = ''days_left'' then js_minus (days_key env now a) (days_key env now b)
      else if key = ''usage'' then js_minus (usage_key a) (usage_key b)
      else compareValues env a b key)"

definition reservation_matches :: "string \<Rightarrow> string \<Rightarrow> string \<Rightarrow> row \<Rightarrow> bool option" where
  "reservation_matches filterType filterAccount searchText r =
     (if filterType \<noteq> [] \<and> get_prop r ''type'' \<noteq> Str filterType then Some False
      else if filterAccount \<noteq> [] \<and> get_prop r ''account_id'' \<noteq> Str filterAccount then Some False
      else if searchText \<noteq> [] then
        search_fields (js_lower searchText) r
          [''instance_type'', ''resource_id'', ''account_alias'', ''description'']
      else Some True)"

definition filteredReservations ::
  "js_env \<Rightarrow> int \<Rightarrow> body \<Rightarrow> string \<Rightarrow> string \<Rightarrow> string \<Rightarrow> string \<Rightarrow> string \<Rightarrow> row list option" where
  "filteredReservations env now reservations filterType filterAccount searchText sortKey sortDir = do {
     rows \<leftarrow> rows_or_empty reservations;
     list \<leftarrow> js_filter (reservation_matches filterType filterAccount searchText) rows;
     Some (if sortKey = [] then list
           else js_sort (\<lambda>a b. js_times (reservation_comparator env now sortKey a b) (sign_of sortDir)) list)
   }"

definition gpu_matches :: "string \<Rightarrow> string \<Rightarrow> row \<Rightarrow> bool option" where
  "gpu_matches gpuFilterAccount gpuSearchText g =
     (if gpuFilterAccount \<noteq> [] \<and> get_prop g ''account_id'' \<noteq> Str gpuFilterAccount then Some False
      else if gpuSearchText \<noteq> [] then
        search_fields (js_lower gpuSearchText) g
          [''instance_id'', ''instance_type'', ''account_alias'', ''coverage_ref'']
      else Some True)"

definition filteredGPUCoverage ::
  "js_env \<Rightarrow> body \<Rightarrow> string \<Rightarrow> string \<Rightarrow> string \<Rightarrow> string \<Rightarrow> row list option" where
  "filteredGPUCoverage env gpuCoverage gpuFilterAccount gpuSearchText gpuSortKey gpuSortDir = do {
     rows \<leftarrow> rows_or_empty gpuCoverage;
     list \<leftarrow> js_filter (gpu_matches gpuFilterAccount gpuSearchText) rows;
     Some (if gpuSortKey = [] then list
           else js_sort (\<lambda>a b. js_times (compareValues env a b gpuSortKey) (sign_of gpuSortDir)) list)
   }"

section \<open>Statistics\<close>

record stats =
  stTotal :: nat
  stExpired :: nat
  stCritical :: nat
  stWarning :: nat
  stActive :: nat
  stSp :: nat
  stCb :: nat
  stOdcr :: nat
  stRi :: nat
  stIdle :: nat

definition count_types :: "row \<Rightarrow> stats \<Rightarrow> stats" where
  "count_types r st0 =
     (let t = get_prop r ''type'';
          st1 = (if t = Str ''sp'' then st0\<lparr>stSp := stSp st0 + 1\<rparr> else st0);
          st2 = (if t = Str ''cb'' then st1\<lparr>stCb := stCb st1 + 1\<rparr> else st1);
          st3 = (if t = Str ''odcr'' then st2\<lparr>stOdcr := stOdcr st2 + 1\<rparr> else st2);
          st4 = (if t = Str ''ri'' then st3\<lparr>stRi := stRi st3 + 1\<rparr> else st3)
      in if (t = Str ''odcr'' \<or> t = Str ''cb'') \<and>
            cell_less (get_prop r ''used_count'') (get_prop r ''quantity'') \<and>
            get_prop r ''status'' = Str ''active''
         then st4\<lparr>stIdle := stIdle st4 + 1\<rparr> else st4)"

definition count_days :: "jsnum option \<Rightarrow> stats \<Rightarrow> stats" where
  "count_days days st =
     (case days of
        None \<Rightarrow> st\<lparr>stActive := stActive st + 1\<rparr>
      | Some d \<Rightarrow>
          if js_less_eq d (Fin 0) then st\<lparr>stExpired := stExpired st + 1\<rparr>
          else if js_less_eq d (Fin 7) then st\<lparr>stCritical := stCritical st + 1\<rparr>
          else if js_less_eq d (Fin 30) then st\<lparr>stWarning := stWarning st + 1\<rparr>
          else st\<lparr>stActive := stActive st + 1\<rparr>)"

definition count_row :: "js_env \<Rightarrow> int \<Rightarrow> row \<Rightarrow> stats \<Rightarrow> stats" where
  "count_row env now r st =
     count_days (daysUntil env (get_prop r ''end_time'') now) (count_types r st)"

definition stats :: "js_env \<Rightarrow> int \<Rightarrow> body \<Rightarrow> stats option" where
  "stats env now reservations = do {
     list \<leftarrow> rows_or_empty reservations;
     Some (fold (count_row env now) list
       \<lparr>stTotal = length list, stExpired = 0, stCritical = 0, stWarning = 0, stActive = 0,
        stSp = 0, stCb = 0, stOdcr = 0, stRi = 0, stIdle = 0\<rparr>)
   }"

fun unique_loop :: "cell list \<Rightarrow> row list \<Rightarrow> row list" where
  "unique_loop seen [] = []"
| "unique_loop seen (r # rs) =
     (if get_prop r ''account_id'' \<in> set seen then unique_loop seen rs
      else r # unique_loop (get_prop r ''account_id'' # seen) rs)"

definition uniqueAccounts :: "body \<Rightarrow> row list option" where
  "uniqueAccounts reservations = map_option (unique_loop []) (rows_or_empty reservations)"

record gpu_stats =
  gsTotal :: nat
  gsOnDemand :: nat
  gsSp :: nat
  gsCb :: nat
  gsRi :: nat

definition count_gpu :: "row \<Rightarrow> gpu_stats \<Rightarrow> gpu_stats" where
  "count_gpu g st =
     (let c = get_prop g ''coverage'' in
      if c = Str ''on_demand'' then st\<lparr>gsOnDemand := gsOnDemand st + 1\<rparr>
      else if c = Str ''savings_plan'' then st\<lparr>gsSp := gsSp st + 1\<rparr>
      else if c = Str ''capacity_block'' then st\<lparr>gsCb := gsCb st + 1\<rparr>
      else if c = Str ''reserved_instance'' then st\<lparr>gsRi := gsRi st + 1\<rparr>
      else st)"

definition gpuStats :: "body \<Rightarrow> gpu_stats option" where
  "gpuStats gpuCoverage = do {
     list \<leftarrow> rows_or_empty gpuCoverage;
     Some (fold count_gpu list
       \<lparr>gsTotal = length list, gsOnDemand = 0, gsSp = 0, gsCb = 0, gsRi = 0\<rparr>)
   }"

section \<open>Formatting\<close>

text \<open>\<open>toLocaleDateString('zh-CN')\<close>: year, month and day of local time, with slashes.\<close>

definition formatDate :: "js_env \<Rightarrow> cell \<Rightarrow> string" where
  "formatDate env d =
     (if isZeroTime env d then ''-''
      else case new_Date env d of
             None \<Rightarrow> ''Invalid Date''
           | Some t \<Rightarrow>
               (case civil_of_days (day_of (local_gotime env t)) of (y, m, dd) \<Rightarrow>
                  itoa y @ ''/'' @ itoa m @ ''/'' @ itoa dd))"

definition daysClass :: "jsnum option \<Rightarrow> string" where
  "daysClass days =
     (case days of
        None \<Rightarrow> []
      | Some d \<Rightarrow>
          if js_less_eq d (Fin 0) then ''badge badge-critical''
          else if js_less_eq d (Fin 7) then ''badge badge-critical''
          else if js_less_eq d (Fin 30) then ''badge badge-warning''
          else ''badge badge-normal'')"

definition daysDisplay :: "js_env \<Rightarrow> jsnum option \<Rightarrow> string" where
  "daysDisplay env days =
     (case days of
        None \<Rightarrow> ''-''
      | Some d \<Rightarrow> if js_less_eq d (Fin 0) then ''Expired'' else js_num_text env d @ ''d'')"

text \<open>A lookup in an object literal; the properties every object inherits are not modelled.\<close>

definition literal :: "(string \<times> string) list \<Rightarrow> string \<Rightarrow> string \<Rightarrow> string" where
  "literal kvs k dflt = (case map_of kvs k of None \<Rightarrow> dflt | Some v \<Rightarrow> v)"

definition levelColor :: "string \<Rightarrow> string" where
  "levelColor level =
     literal [(''critical'', ''#c62828''), (''warning'', ''#e65100''), (''attention'', ''#f57f17''),
       (''normal'', ''#2e7d32'')] level ''#333''"

definition levelText :: "string \<Rightarrow> string" where
  "levelText level =
     literal [(''critical'', ''Urgent''), (''warning'', ''Warning''), (''attention'', ''Attention''),
       (''normal'', ''OK'')] level level"

definition coverageLabel :: "string \<Rightarrow> string" where
  "coverageLabel coverage =
     literal [(''on_demand'', ''On-Demand''), (''savings_plan'', ''Savings Plan''),
       (''capacity_block'', ''Capacity Block''), (''reserved_instance'', ''Reserved Instance'')]
       coverage coverage"

definition coverageBadgeClass :: "string \<Rightarrow> string" where
  "coverageBadgeClass coverage =
     literal [(''on_demand'', ''badge-gpu_od''), (''savings_plan'', ''badge-gpu_sp''),
       (''capacity_block'', ''badge-gpu_cb''), (''reserved_instance'', ''badge-gpu_ri'')] coverage []"

text \<open>\<open>x.toFixed(f)\<close> for \<open>0 \<le> x < 10 ^ 21\<close>: the nearest multiple of \<open>10 ^ - f\<close>, the larger
  one of two, with \<open>f\<close> digits after the point.\<close>

definition to_fixed :: "rat \<Rightarrow> nat \<Rightarrow> string" where
  "to_fixed x f =
     (let n = nat \<lfloor>x * 10 ^ f + 1 / 2\<rfloor>
      in if f = 0 then nat_digits n
         else nat_digits (n div 10 ^ f) @ ''.'' @ zpad f (n mod 10 ^ f))"

text \<open>The method call \<open>v.toFixed(f)\<close>: a \<open>TypeError\<close> unless \<open>v\<close> is a number.\<close>

definition cell_to_fixed :: "js_env \<Rightarrow> cell \<Rightarrow> nat \<Rightarrow> string option" where
  "cell_to_fixed env v f =
     (case v of
        Num (Fin x) \<Rightarrow> Some (if \<bar>x\<bar> < exponent_from then to_fixed x f else js_num_text env (Fin x))
      | Num PInf \<Rightarrow> Some ''Infinity''
      | Num NInf \<Rightarrow> Some ''-Infinity''
      | Num NaN \<Rightarrow> Some ''NaN''
      | _ \<Rightarrow> None)"

definition formatCapacity :: "js_env \<Rightarrow> row \<Rightarrow> string option" where
  "formatCapacity env r =
     (let ty = get_prop r ''type''; n = get_prop r ''equiv_cores''; unit = get_prop r ''capacity_unit'' in
      if ty \<noteq> Str ''sp'' \<and> ty \<noteq> Str ''cb'' then Some ''-''
      else if \<not> truthy n \<or> js_less_eq (js_Number n) (Fin 0) then Some ''-''
      else if \<not> truthy unit then Some ''-''
      else do {
        let isCompute = (ty = Str ''sp'' \<and> get_prop r ''platform'' = Str ''Compute'');
        val \<leftarrow> (if js_less_eq (Fin 1) (js_Number n)
                then if isCompute then Some (js_num_text env (js_round (js_Number n)))
                     else cell_to_fixed env n (if js_less_eq (Fin 10) (js_Number n) then 0 else 2)
                else cell_to_fixed env n 2);
        Some ((if isCompute then ''~'' else []) @ val @ '' '' @ js_String env unit)
      })"

section \<open>The tables are sorted and searched as asked\<close>

text \<open>
  What a column is sorted by: a number, then a text (each column uses only one of them).
  A column is \<open>ok\<close> when its dates are valid and it is numeric throughout or nowhere.
\<close>

definition column_key :: "js_env \<Rightarrow> string \<Rightarrow> row \<Rightarrow> jsnum \<times> string" where
  "column_key env key r =
     (let v = get_prop r key in
      if key = ''start_time'' \<or> key = ''end_time'' then (time_key env v, [])
      else if is_number v then (js_or_zero (js_Number v), [])
      else (NInf, text_key env v))"

definition reservation_key :: "js_env \<Rightarrow> int \<Rightarrow> string \<Rightarrow> row \<Rightarrow> jsnum \<times> string" where
  "reservation_key env now key r =
     (if key = ''days_left'' then (days_key env now r, [])
      else if key = ''usage'' then (usage_key r, [])
      else column_key env key r)"

definition column_ok :: "js_env \<Rightarrow> string \<Rightarrow> bool \<Rightarrow> row \<Rightarrow> bool" where
  "column_ok env key numeric r =
     (if key = ''start_time'' \<or> key = ''end_time'' then time_key env (get_prop r key) \<noteq> NaN
      else is_number (get_prop r key) = numeric)"

definition reservation_ok :: "js_env \<Rightarrow> int \<Rightarrow> string \<Rightarrow> bool \<Rightarrow> row \<Rightarrow> bool" where
  "reservation_ok env now key numeric r =
     (if key = ''days_left'' then days_key env now r \<noteq> NaN
      else if key = ''usage'' then usage_key r \<noteq> NaN
      else column_ok env key numeric r)"

lemma three_way_sign:
  "js_less (Fin 0) (three_way lt gt) \<longleftrightarrow> \<not> lt \<and> gt"
  "js_less (three_way lt gt) (Fin 0) \<longleftrightarrow> lt"
  by (simp_all add: three_way_def)

lemma js_or_zero_not_NaN [simp]: "js_or_zero x \<noteq> NaN"
  by (simp add: js_or_zero_def)

interpretation column: keyed_comparator
    "\<lambda>a b. compareValues env a b key" "column_key env key" "column_ok env key numeric"
  for env key numeric
proof (unfold_locales, goal_cases)
  case (1 a b)
  then show ?case
    by (auto simp: compareValues_def column_ok_def column_key_def Let_def three_way_sign js_less_less
        split: if_splits)
next
  case (2 a b)
  then show ?case
    by (auto simp: compareValues_def column_ok_def column_key_def Let_def three_way_sign js_less_less
        split: if_splits)
qed

interpretation reservations: keyed_comparator
    "reservation_comparator env now key" "reservation_key env now key"
    "reservation_ok env now key numeric"
  for env now key numeric
proof (unfold_locales, goal_cases)
  case (1 a b)
  then show ?case using column.after [of env key numeric a b]
    by (auto simp: reservation_comparator_def reservation_ok_def reservation_key_def js_minus_after
        split: if_splits)
next
  case (2 a b)
  then show ?case using column.before [of env key numeric a b]
    by (auto simp: reservation_comparator_def reservation_ok_def reservation_key_def js_minus_before
        split: if_splits)
qed

text \<open>
  C1. The reservation table shows the filtered rows sorted by the chosen column, stably:
  ascending it is the stable sort by the column's key, descending the stable sort in the
  opposite order (rows with equal keys keep the server's order both times). This
  holds for each sortable column whose dates are valid and whose type is uniform.
\<close>

theorem filtered_reservations_sorted:
  assumes "filteredReservations env now b ft fa st [] sd = Some list"
    and "key \<noteq> []" and "\<forall>r \<in> set list. reservation_ok env now key numeric r"
  shows "filteredReservations env now b ft fa st key ''asc'' =
      Some (sort_key (reservation_key env now key) list) \<and>
    filteredReservations env now b ft fa st key ''desc'' =
      Some (rev (sort_key (reservation_key env now key) (rev list)))"
proof -
  from assms(1) obtain rows where rows: "rows_or_empty b = Some rows"
    "js_filter (reservation_matches ft fa st) rows = Some list"
    by (auto simp: filteredReservations_def split: Option.bind_splits)
  with assms show ?thesis
    using reservations.sort_ascending [OF assms(3)] reservations.sort_negated [OF assms(3)]
    by (simp add: filteredReservations_def sign_of_def)
qed

lemma filtered_reservations_sorted_witness:
  "filteredReservations \<lparr>tz_offset = \<lambda>_. 0, parse_other = \<lambda>_. None, num_text = \<lambda>_. []\<rparr> 0
     (JRows [[(''quantity'', Num (Fin 3))], [(''quantity'', Num (Fin 2))]]) [] [] [] ''quantity'' ''asc'' =
   Some [[(''quantity'', Num (Fin 2))], [(''quantity'', Num (Fin 3))]]"
proof -
  let ?env = "\<lparr>tz_offset = \<lambda>_. 0, parse_other = \<lambda>_. None, num_text = \<lambda>_. []\<rparr> :: js_env"
  let ?rows = "[[(''quantity'', Num (Fin 3))], [(''quantity'', Num (Fin 2))]]"
  have "filteredReservations ?env 0 (JRows ?rows) [] [] [] [] ''asc'' = Some ?rows"
    by (simp add: filteredReservations_def rows_or_empty_def reservation_matches_def)
  moreover have "\<forall>r \<in> set ?rows. reservation_ok ?env 0 ''quantity'' True r"
    by (simp add: reservation_ok_def column_ok_def get_prop_def is_number_def)
  ultimately show ?thesis
    using filtered_reservations_sorted [of ?env 0 "JRows ?rows" "[]" "[]" "[]" "''asc''" ?rows
        "''quantity''" True]
    by (simp add: reservation_key_def column_key_def get_prop_def is_number_def js_Number_def
        js_or_zero_def)
qed

text \<open>The rows a search applies to: its columns hold strings, or nothing.\<close>

definition searchable :: "string list \<Rightarrow> row \<Rightarrow> bool" where
  "searchable ks r \<longleftrightarrow>
     (\<forall>k \<in> set ks. \<not> truthy (get_prop r k) \<or> (\<exists>s. get_prop r k = Str s))"

definition found :: "string \<Rightarrow> string list \<Rightarrow> row \<Rightarrow> bool" where
  "found s ks r \<longleftrightarrow>
     (\<exists>k \<in> set ks. contains (case get_prop r k of Str t \<Rightarrow> js_lower t | _ \<Rightarrow> []) (js_lower s))"

lemma search_fields_found:
  "searchable ks r \<Longrightarrow> search_fields (js_lower s) r ks = Some (found s ks r)"
proof (induction ks)
  case (Cons k ks)
  then show ?case
    by (cases "get_prop r k")
      (auto simp: searchable_def found_def js_or_def cell_lower_def js_lower_def)
qed (simp add: found_def)

lemma js_filter_total: "\<forall>x \<in> set xs. p x = Some (q x) \<Longrightarrow> js_filter p xs = Some (filter q xs)"
  by (induction xs) auto

definition reservation_visible :: "string \<Rightarrow> string \<Rightarrow> string \<Rightarrow> row \<Rightarrow> bool" where
  "reservation_visible ft fa st r \<longleftrightarrow>
     (ft = [] \<or> get_prop r ''type'' = Str ft) \<and> (fa = [] \<or> get_prop r ''account_id'' = Str fa) \<and>
     (st = [] \<or> found st [''instance_type'', ''resource_id'', ''account_alias'', ''description''] r)"

text \<open>
  On rows whose searched columns are strings or missing, filtering never throws, and whatever the
  sort order the table shows exactly the rows that match the type, the account and the
  search text (without regard to case), each as often as it was loaded.
\<close>

lemma reservations_filtered:
  assumes "\<forall>r \<in> set rows.
    searchable [''instance_type'', ''resource_id'', ''account_alias'', ''description''] r"
  shows "\<exists>list. filteredReservations env now (JRows rows) ft fa st key dir = Some list \<and>
    mset list = filter_mset (reservation_visible ft fa st) (mset rows) \<and>
    (key = [] \<longrightarrow> list = filter (reservation_visible ft fa st) rows)"
proof -
  have "\<forall>r \<in> set rows. reservation_matches ft fa st r = Some (reservation_visible ft fa st r)"
    using assms by (simp add: reservation_matches_def reservation_visible_def search_fields_found
        del: search_fields.simps)
  from js_filter_total [OF this] show ?thesis
    by (simp add: filteredReservations_def rows_or_empty_def)
qed

section \<open>The statistics cards\<close>

lemma fold_count:
  assumes "\<And>r st. f (step r st) = f st + (if P r then 1 else 0 :: nat)"
  shows "f (fold step rs st) = f st + length (filter P rs)"
  by (induction rs arbitrary: st) (simp_all add: assms)

lemmas count_row_defs = count_row_def count_days_def count_types_def Let_def

definition row_days :: "js_env \<Rightarrow> int \<Rightarrow> row \<Rightarrow> jsnum option" where
  "row_days env now r = daysUntil env (get_prop r ''end_time'') now"

definition days_at_most :: "jsnum option \<Rightarrow> rat \<Rightarrow> bool" where
  "days_at_most d k = (case d of None \<Rightarrow> False | Some n \<Rightarrow> js_less_eq n (Fin k))"

lemma count_row_buckets:
  "stTotal (count_row env now r st) = stTotal st + (if False then 1 else 0)"
  "stExpired (count_row env now r st) = stExpired st + (if days_at_most (row_days env now r) 0 then 1 else 0)"
  "stCritical (count_row env now r st) = stCritical st +
     (if days_at_most (row_days env now r) 7 \<and> \<not> days_at_most (row_days env now r) 0 then 1 else 0)"
  "stWarning (count_row env now r st) = stWarning st +
     (if days_at_most (row_days env now r) 30 \<and> \<not> days_at_most (row_days env now r) 7 \<and>
         \<not> days_at_most (row_days env now r) 0 then 1 else 0)"
  "stActive (count_row env now r st) = stActive st +
     (if \<not> days_at_most (row_days env now r) 30 \<and> \<not> days_at_most (row_days env now r) 7 \<and>
         \<not> days_at_most (row_days env now r) 0 then 1 else 0)"
  by (simp_all add: count_row_defs days_at_most_def row_days_def split: option.split)

lemma count_total: "stTotal (fold (count_row env now) rs st) = stTotal st"
  by (induction rs arbitrary: st) (simp_all add: count_row_buckets(1))

lemmas count_buckets = count_total
  fold_count [of stExpired "count_row env now" "\<lambda>r. days_at_most (row_days env now r) 0"
    for env now, OF count_row_buckets(2)]
  fold_count [of stCritical "count_row env now"
    "\<lambda>r. days_at_most (row_days env now r) 7 \<and> \<not> days_at_most (row_days env now r) 0"
    for env now, OF count_row_buckets(3)]
  fold_count [of stWarning "count_row env now"
    "\<lambda>r. days_at_most (row_days env now r) 30 \<and> \<not> days_at_most (row_days env now r) 7 \<and>
       \<not> days_at_most (row_days env now r) 0"
    for env now, OF count_row_buckets(4)]
  fold_count [of stActive "count_row env now"
    "\<lambda>r. \<not> days_at_most (row_days env now r) 30 \<and> \<not> days_at_most (row_days env now r) 7 \<and>
       \<not> days_at_most (row_days env now r) 0"
    for env now, OF count_row_buckets(5)]

lemma days_class_buckets:
  "daysClass d = ''badge badge-critical'' \<longleftrightarrow> days_at_most d 0 \<or> days_at_most d 7"
  "daysClass d = ''badge badge-warning'' \<longleftrightarrow>
     days_at_most d 30 \<and> \<not> days_at_most d 7 \<and> \<not> days_at_most d 0"
  by (auto simp: daysClass_def days_at_most_def split: option.split)

lemma length_filter_or: "length (filter P xs) + length (filter (\<lambda>x. Q x \<and> \<not> P x) xs) =
    length (filter (\<lambda>x. P x \<or> Q x) xs)"
  by (induction xs) auto

text \<open>
  The day cards partition the rows and agree with the table: expired, critical,
  warning and active add up to the total, the rows with a critical badge are the expired
  and the critical ones, and the rows with a warning badge are those of the warning card.
\<close>

theorem stats_partition:
  assumes "stats env now b = Some st"
  shows "\<exists>rows. rows_or_empty b = Some rows \<and> stTotal st = length rows \<and>
    stExpired st + stCritical st + stWarning st + stActive st = stTotal st \<and>
    stExpired st + stCritical st =
      length (filter (\<lambda>r. daysClass (row_days env now r) = ''badge badge-critical'') rows) \<and>
    stWarning st =
      length (filter (\<lambda>r. daysClass (row_days env now r) = ''badge badge-warning'') rows)"
proof -
  obtain rows where rows: "rows_or_empty b = Some rows"
    using assms by (auto simp: stats_def split: Option.bind_splits)
  let ?z = "\<lparr>stTotal = length rows, stExpired = 0, stCritical = 0, stWarning = 0, stActive = 0,
        stSp = 0, stCb = 0, stOdcr = 0, stRi = 0, stIdle = 0\<rparr>"
  have st: "st = fold (count_row env now) rows ?z"
    using assms rows by (simp add: stats_def)
  let ?d = "row_days env now"
  have part: "length (filter (\<lambda>r. days_at_most (?d r) 0) rs) +
      length (filter (\<lambda>r. days_at_most (?d r) 7 \<and> \<not> days_at_most (?d r) 0) rs) +
      length (filter (\<lambda>r. days_at_most (?d r) 30 \<and> \<not> days_at_most (?d r) 7 \<and> \<not> days_at_most (?d r) 0) rs) +
      length (filter (\<lambda>r. \<not> days_at_most (?d r) 30 \<and> \<not> days_at_most (?d r) 7 \<and> \<not> days_at_most (?d r) 0) rs) =
      length rs" for rs
    by (induction rs) auto
  show ?thesis
    using rows part [of rows]
    by (simp add: st count_buckets days_class_buckets length_filter_or)
qed

lemma stats_partition_witness:
  "\<exists>rows. rows_or_empty (JRows [[]]) = Some rows \<and> length rows = 1"
  using stats_partition [of undefined 0 "JRows [[]]"
      "\<lparr>stTotal = 1, stExpired = 0, stCritical = 0, stWarning = 0, stActive = 1,
        stSp = 0, stCb = 0, stOdcr = 0, stRi = 0, stIdle = 0\<rparr>"]
  by (auto simp: stats_def rows_or_empty_def count_row_defs get_prop_def daysUntil_def isZeroTime_def)

lemma unique_loop_facts:
  "distinct (map (\<lambda>r. get_prop r ''account_id'') (unique_loop seen rs)) \<and>
   set (map (\<lambda>r. get_prop r ''account_id'') (unique_loop seen rs)) =
     set (map (\<lambda>r. get_prop r ''account_id'') rs) - set seen \<and>
   subseq (unique_loop seen rs) rs"
proof (induction rs arbitrary: seen)
  case (Cons r rs)
  show ?case
    using Cons.IH [of seen] Cons.IH [of "get_prop r ''account_id'' # seen"]
    by (auto intro: subseq_Cons')
qed simp

text \<open>
  The account menu lists each account once: no two entries share an account id, each
  account of a row is listed, and the entries are rows in the server's order.
\<close>

theorem unique_accounts_once:
  assumes "rows_or_empty b = Some rows"
  shows "\<exists>accts. uniqueAccounts b = Some accts \<and>
    distinct (map (\<lambda>r. get_prop r ''account_id'') accts) \<and>
    (\<lambda>r. get_prop r ''account_id'') ` set accts = (\<lambda>r. get_prop r ''account_id'') ` set rows \<and>
    subseq accts rows"
  using assms unique_loop_facts [of "[]" rows] by (simp add: uniqueAccounts_def)

lemma unique_accounts_once_witness:
  "\<exists>accts. uniqueAccounts (JRows [[(''account_id'', Str ''1'')], [(''account_id'', Str ''1'')]]) = Some accts \<and>
     distinct (map (\<lambda>r. get_prop r ''account_id'') accts)"
  using unique_accounts_once [of "JRows [[(''account_id'', Str ''1'')], [(''account_id'', Str ''1'')]]"]
  by (auto simp: rows_or_empty_def)

section \<open>The day count agrees with the server's\<close>

lemma day_of_mono: "t \<le> u \<Longrightarrow> day_of t \<le> day_of u"
  by (simp add: day_of_def zdiv_mono1 nano_def)

lemma Year_mono: "t \<le> u \<Longrightarrow> Year t \<le> Year u"
  using year_of_days_mono [OF day_of_mono] by (simp add: Year_def civil_of_days_def Let_def)

lemma local_gotime_server:
  "local_gotime env (ms_of_gotime (truncate_second t)) =
     truncate_second t + tz_offset env (ms_of_gotime (truncate_second t)) * 1000000"
proof -
  have "truncate_second t - unix_epoch = (t div nano * 1000 - 62135596800000) * 1000000"
    by (simp add: truncate_second_def nano_def unix_epoch_def)
  then have "ms_of_gotime (truncate_second t) * 1000000 + unix_epoch = truncate_second t"
    by (simp add: ms_of_gotime_def)
  then show ?thesis
    by (simp add: local_gotime_def gotime_of_ms_def distrib_right)
qed

text \<open>
  The page recognises the server's unset times and no others: in any time zone less
  than a day from UTC, a time the server sends is \<open>isZeroTime\<close> when it is Go's zero
  time, and is not when it is in year 3 or later.
\<close>

theorem is_zero_time_server:
  assumes "four_digit_year t" and "\<And>ms. \<bar>tz_offset env ms\<bar> < 24 * 3600 * 1000"
  shows "(IsZero t \<longrightarrow> isZeroTime env (Str (format_rfc3339 t))) \<and>
    (3 \<le> Year t \<longrightarrow> \<not> isZeroTime env (Str (format_rfc3339 t)))"
proof -
  define off where "off = tz_offset env (ms_of_gotime (truncate_second t))"
  have off: "\<bar>off\<bar> < 86400000" using assms(2) by (simp add: off_def)
  have zero: "isZeroTime env (Str (format_rfc3339 t)) \<longleftrightarrow> Year (truncate_second t + off * 1000000) \<le> 1"
    using new_Date_server [OF assms(1), of env]
    by (simp add: isZeroTime_def getFullYear_def local_gotime_server off_def js_less_eq_less_eq
        format_rfc3339_def)
  have "Year (truncate_second t + off * 1000000) \<le> 1" if "IsZero t"
  proof -
    have "truncate_second t = 0" using that by (simp add: IsZero_def truncate_second_def)
    then have "Year (truncate_second t + off * 1000000) \<le> Year (24 * 3600 * 1000000000)"
      using off by (intro Year_mono) simp
    also have "\<dots> = 1" by code_simp
    finally show ?thesis .
  qed
  moreover have "1 < Year (truncate_second t + off * 1000000)" if "3 \<le> Year t"
  proof -
    have "730 \<le> day_of t"
    proof (rule ccontr)
      assume "\<not> 730 \<le> day_of t"
      then have "year_of_days (day_of t) \<le> year_of_days 729" by (intro year_of_days_mono) simp
      also have "\<dots> = 2" by code_simp
      finally show False using that by (simp add: Year_def civil_of_days_def Let_def)
    qed
    then have "730 * 86400 \<le> t div nano" by (simp add: day_of_def)
    then have "730 * 86400 * nano \<le> truncate_second t"
      unfolding truncate_second_def by (intro mult_right_mono) (simp_all add: nano_def)
    then have "Year (729 * 86400 * 1000000000) \<le> Year (truncate_second t + off * 1000000)"
      using off by (intro Year_mono) (simp add: nano_def)
    moreover have "Year (729 * 86400 * 1000000000) = 2" by code_simp
    ultimately show ?thesis by simp
  qed
  ultimately show ?thesis using zero by auto
qed

lemma is_zero_time_server_witness:
  "isZeroTime \<lparr>tz_offset = \<lambda>_. 28800000, parse_other = \<lambda>_. None, num_text = \<lambda>_. []\<rparr>
     (Str (format_rfc3339 0))"
proof -
  have "four_digit_year 0" by code_simp
  from is_zero_time_server [OF this,
      of "\<lparr>tz_offset = \<lambda>_. 28800000, parse_other = \<lambda>_. None, num_text = \<lambda>_. []\<rparr>"]
  show ?thesis by (simp add: IsZero_def)
qed

text \<open>
  C18. The page and the server count the same days: for an expiry the server sends, read at
  any millisecond \<open>now\<close>, \<open>daysUntil\<close> is the server's \<open>DaysUntil\<close> of the same two instants,
  as long as they are within the 292 years of a Go duration.
\<close>

theorem days_until_agrees:
  assumes "four_digit_year end" and "truncate_second end = end" and "\<not> IsZero end"
    and "\<not> isZeroTime env (Str (format_rfc3339 end))"
    and "\<bar>end - gotime_of_ms now\<bar> < 2 ^ 63"
  shows "daysUntil env (Str (format_rfc3339 end)) now =
    Some (Fin (of_int (DaysUntil end (gotime_of_ms now))))"
proof -
  define ms where "ms = ms_of_gotime end"
  have "end = gotime_of_ms ms"
  proof -
    obtain s where s: "end = s * nano" using assms(2) by (metis truncate_second_def)
    then have "end - unix_epoch = (s * 1000 - 62135596800000) * 1000000"
      by (simp add: nano_def unix_epoch_def)
    then show ?thesis by (simp add: gotime_of_ms_def ms_def ms_of_gotime_def)
  qed
  then have diff: "end - gotime_of_ms now = (ms - now) * 1000000"
    by (simp add: gotime_of_ms_def algebra_simps)
  have "DaysUntil end (gotime_of_ms now) = ceil_days (end - gotime_of_ms now)"
    using assms(3,5) unfolding abs_less_iff by (simp add: days_until_ceil Sub_def sat64_def)
  also have "\<dots> = - ((- (ms - now)) div 86400000)"
  proof -
    have "(- (ms - now) * 1000000) div (86400000 * 1000000) = (- (ms - now)) div 86400000"
      by (rule div_mult_mult2) simp
    then show ?thesis by (simp add: diff ceil_days_def Day_def)
  qed
  also have "\<dots> = \<lceil>rat_of_int (ms - now) / 86400000\<rceil>"
    using ceiling_divide_eq_div [of "ms - now" 86400000, where ?'a = rat] by simp
  finally have eq: "DaysUntil end (gotime_of_ms now) = \<lceil>rat_of_int (ms - now) / 86400000\<rceil>" .
  have "new_Date env (Str (format_rfc3339 end)) = Some ms"
    using new_Date_server [OF assms(1), of env] assms(2) by (simp add: ms_def)
  with assms(4) show ?thesis by (simp add: daysUntil_def js_ceil_def eq)
qed

lemma days_until_agrees_witness:
  "daysUntil \<lparr>tz_offset = \<lambda>_. 0, parse_other = \<lambda>_. None, num_text = \<lambda>_. []\<rparr>
     (Str (format_rfc3339 (unix_epoch + 10 * Day))) 3600000 = Some (Fin 10)"
proof -
  let ?expiry = "unix_epoch + 10 * Day"
  let ?env = "\<lparr>tz_offset = \<lambda>_. 0, parse_other = \<lambda>_. None, num_text = \<lambda>_. []\<rparr> :: js_env"
  have "four_digit_year ?expiry" "truncate_second ?expiry = ?expiry" "\<not> IsZero ?expiry"
    "\<not> isZeroTime ?env (Str (format_rfc3339 ?expiry))"
    "\<bar>?expiry - gotime_of_ms 3600000\<bar> < 2 ^ 63" "DaysUntil ?expiry (gotime_of_ms 3600000) = 10"
    by code_simp+
  from days_until_agrees [OF this(1-5)] this(6) show ?thesis by simp
qed

section \<open>The capacity column\<close>

definition decimal_text :: "nat \<Rightarrow> nat \<Rightarrow> string" where
  "decimal_text m f =
     (if f = 0 then nat_digits m else nat_digits (m div 10 ^ f) @ ''.'' @ zpad f (m mod 10 ^ f))"

lemma to_fixed_nearest:
  assumes "0 \<le> x"
  shows "\<exists>m. to_fixed x f = decimal_text m f \<and> \<bar>of_nat m / 10 ^ f - x\<bar> \<le> 1 / (2 * 10 ^ f)"
proof -
  define m where "m = \<lfloor>x * 10 ^ f + 1 / 2\<rfloor>"
  have "0 \<le> x * 10 ^ f + 1 / 2" using assms by simp
  then have "0 \<le> m" by (simp add: m_def)
  have "rat_of_int m \<le> x * 10 ^ f + 1 / 2" "x * 10 ^ f + 1 / 2 < rat_of_int m + 1"
    unfolding m_def by linarith+
  then have "\<bar>rat_of_int m - x * 10 ^ f\<bar> \<le> 1 / 2" by linarith
  then have "\<bar>rat_of_int m - x * 10 ^ f\<bar> / 10 ^ f \<le> 1 / 2 / 10 ^ f"
    by (intro divide_right_mono) auto
  moreover have "\<bar>rat_of_int m - x * 10 ^ f\<bar> / 10 ^ f = \<bar>(rat_of_int m - x * 10 ^ f) / 10 ^ f\<bar>"
    by (simp add: abs_divide)
  moreover have "(rat_of_int m - x * 10 ^ f) / 10 ^ f = of_nat (nat m) / 10 ^ f - x"
    using \<open>0 \<le> m\<close> by (simp add: diff_divide_distrib)
  ultimately have "\<bar>of_nat (nat m) / 10 ^ f - x\<bar> \<le> 1 / (2 * 10 ^ f)" by simp
  moreover have "to_fixed x f = decimal_text (nat m) f"
    by (simp add: to_fixed_def decimal_text_def m_def Let_def)
  ultimately show ?thesis by blast
qed

lemma round_nearest:
  assumes "0 < x" "x < exponent_from - 1"
  shows "\<exists>m. js_num_text env (js_round (Fin x)) = decimal_text m 0 \<and> \<bar>of_nat m - x\<bar> \<le> 1 / 2"
proof -
  define m where "m = \<lfloor>x + 1 / 2\<rfloor>"
  have "0 \<le> m" using assms by (simp add: m_def)
  have near: "rat_of_int m \<le> x + 1 / 2" "x + 1 / 2 < rat_of_int m + 1"
    unfolding m_def by linarith+
  then have "\<bar>rat_of_int m\<bar> < exponent_from" using assms \<open>0 \<le> m\<close> by simp
  then have "js_num_text env (js_round (Fin x)) = decimal_text (nat m) 0"
    using \<open>0 \<le> m\<close> by (simp add: js_num_text_def js_round_def itoa_def decimal_text_def m_def)
  moreover from near have "\<bar>rat_of_int m - x\<bar> \<le> 1 / 2" by linarith
  then have "\<bar>of_nat (nat m) - x\<bar> \<le> 1 / 2" using \<open>0 \<le> m\<close> by simp
  ultimately show ?thesis by blast
qed

text \<open>
  A positive capacity with a unit is printed as the nearest decimal, with the unit the
  server sent: two digits after the point below ten and none from ten on, except that a
  Compute Savings Plan of at least one, whose figure is approximate, is rounded to an
  integer. The \<open>~\<close> mark is on Compute Savings Plans and nothing else.
\<close>

theorem format_capacity_nearest:
  assumes "get_prop r ''type'' = Str ''sp'' \<or> get_prop r ''type'' = Str ''cb''"
    and "get_prop r ''equiv_cores'' = Num (Fin n)" and "0 < n" and "n < exponent_from - 1"
    and "get_prop r ''capacity_unit'' = Str unit" and "unit \<noteq> []"
    and "compute \<longleftrightarrow> get_prop r ''type'' = Str ''sp'' \<and> get_prop r ''platform'' = Str ''Compute''"
    and "f = (if 10 \<le> n \<or> (compute \<and> 1 \<le> n) then 0 else 2)"
  shows "\<exists>m. formatCapacity env r =
      Some ((if compute then ''~'' else []) @ decimal_text m f @ '' '' @ unit) \<and>
    \<bar>of_nat m / 10 ^ f - n\<bar> \<le> 1 / (2 * 10 ^ f)"
proof -
  obtain val where val: "(if js_less_eq (Fin 1) (js_Number (Num (Fin n)))
      then if compute then Some (js_num_text env (js_round (js_Number (Num (Fin n)))))
           else cell_to_fixed env (Num (Fin n)) (if js_less_eq (Fin 10) (js_Number (Num (Fin n))) then 0 else 2)
      else cell_to_fixed env (Num (Fin n)) 2) = Some val"
    and "\<exists>m. val = decimal_text m f \<and> \<bar>of_nat m / 10 ^ f - n\<bar> \<le> 1 / (2 * 10 ^ f)"
  proof (cases "compute \<and> 1 \<le> n")
    case True
    with assms(8) have f: "f = 0" by simp
    show thesis
      using round_nearest [OF assms(3,4), of env] True
      by (intro that [of "js_num_text env (js_round (Fin n))"])
        (auto simp: js_less_eq_less_eq js_Number_def f)
  next
    case False
    with assms(3,4) show thesis
      using to_fixed_nearest [of n f] assms(8)
      by (intro that [of "to_fixed n f"])
        (auto simp: js_less_eq_less_eq js_Number_def cell_to_fixed_def)
  qed
  then obtain m where m: "val = decimal_text m f" "\<bar>of_nat m / 10 ^ f - n\<bar> \<le> 1 / (2 * 10 ^ f)"
    by blast
  have "formatCapacity env r = Some ((if compute then ''~'' else []) @ val @ '' '' @ unit)"
  proof -
    have n: "truthy (Num (Fin n))" "\<not> js_less_eq (js_Number (Num (Fin n))) (Fin 0)"
      using assms(3) by (simp_all add: js_Number_def js_less_eq_less_eq)
    have "truthy (Str unit)" using assms(6) by simp
    with n assms(1) val show ?thesis
      unfolding formatCapacity_def Let_def assms(2,5) assms(7) [symmetric]
      by (auto simp: js_String_def)
  qed
  with m show ?thesis by blast
qed

lemma format_capacity_nearest_witness:
  "\<exists>m. formatCapacity undefined [(''type'', Str ''cb''), (''equiv_cores'', Num (Fin (5 / 2))),
      (''capacity_unit'', Str ''cards'')] = Some (decimal_text m 2 @ '' cards'') \<and>
    \<bar>of_nat m / 100 - 5 / 2\<bar> \<le> (1 / 200 :: rat)"
  using format_capacity_nearest [of "[(''type'', Str ''cb''), (''equiv_cores'', Num (Fin (5 / 2))),
      (''capacity_unit'', Str ''cards'')]" "5 / 2" "''cards''" False 2 undefined]
  by (simp add: get_prop_def exponent_from_def)

end
