(* ===== verification/LoginPage.thy ===== *)
theory LoginPage
  imports UrlCodec AppView
begin

text \<open>
  The login page, \<^verbatim>\<open>frontend/static/js/login.js\<close>: a form whose \<open>submit\<close> sends one request and
  then leaves the page or shows the error. The page is driven by events: typing,
  submitting, and the answer to a request. A response is given with its body, or with the
  message of the exception that reading it as JSON raised.
\<close>

datatype response = NetworkError string | Response nat "string + body"

definition response_ok :: "nat \<Rightarrow> bool" where
  "response_ok status \<longleftrightarrow> 200 \<le> status \<and> status \<le> 299"

type_synonym field = "cell + string list"

text \<open>A property of a parsed body; \<open>None\<close> is the \<open>TypeError\<close> of \<open>null\<close>. The property of an
  object may be an array of strings.\<close>

definition body_prop :: "body \<Rightarrow> string \<Rightarrow> field option" where
  "body_prop b k =
     (case b of
        JPrim c \<Rightarrow> if c = Undef \<or> c = Null then None else Some (Inl Undef)
      | JRows _ \<Rightarrow> Some (Inl Undef)
      | JObject r arrays \<Rightarrow>
          (case map_of arrays k of Some a \<Rightarrow> Some (Inr a) | None \<Rightarrow> Some (Inl (get_prop r k))))"

definition field_truthy :: "field \<Rightarrow> bool" where
  "field_truthy f = (case f of Inl c \<Rightarrow> truthy c | Inr _ \<Rightarrow> True)"

fun join_comma :: "string list \<Rightarrow> string" where
  "join_comma [] = []"
| "join_comma [s] = s"
| "join_comma (s # ss) = s @ '','' @ join_comma ss"

definition field_String :: "js_env \<Rightarrow> field \<Rightarrow> string" where
  "field_String env f = (case f of Inl c \<Rightarrow> js_String env c | Inr ss \<Rightarrow> join_comma ss)"

text \<open>The engine's text for a property access on \<open>null\<close> is the argument \<open>type_error\<close>. The
  message of \<open>new Error(body.error || `HTTP ${res.status}`)\<close>, where a body that is not JSON
  counts as the empty object:\<close>

definition http_error :: "js_env \<Rightarrow> string \<Rightarrow> nat \<Rightarrow> string + body \<Rightarrow> string" where
  "http_error env type_error status body =
     (case body_prop (case body of Inr b \<Rightarrow> b | Inl _ \<Rightarrow> JObject [] []) ''error'' of
        None \<Rightarrow> type_error
      | Some f \<Rightarrow> if field_truthy f then field_String env f else ''HTTP '' @ nat_digits status)"

section \<open>The form\<close>

record login_page =
  lpUsername :: string
  lpPassword :: string
  lpError :: string
  lpBusy :: bool
  lpInFlight :: "(string \<times> string) list"
  lpLocation :: "string option"

datatype login_event =
    TypeUsername string
  | TypePassword string
  | Submit
  | Answer response

definition initial_login :: login_page where
  "initial_login =
     \<lparr>lpUsername = [], lpPassword = [], lpError = [], lpBusy = False, lpInFlight = [],
      lpLocation = None\<rparr>"

text \<open>The page to open after a login, from the query's \<open>next\<close>.\<close>

definition next_target :: "string option \<Rightarrow> string" where
  "next_target nxt =
     (case nxt of
        None \<Rightarrow> ''/''
      | Some n \<Rightarrow>
          if n \<noteq> [] \<and> has_prefix ''/'' n \<and> \<not> has_prefix ''//'' n then n else ''/'')"

text \<open>A submit up to its request, whose body is the pair of username and password.\<close>

definition submit :: "login_page \<Rightarrow> login_page" where
  "submit p =
     (if lpBusy p then p
      else p\<lparr>lpError := [], lpBusy := True,
             lpInFlight := lpInFlight p @ [(lpUsername p, lpPassword p)]\<rparr>)"

definition submit_failed :: "string \<Rightarrow> login_page \<Rightarrow> login_page" where
  "submit_failed msg p = p\<lparr>lpError := msg, lpPassword := [], lpBusy := False\<rparr>"

text \<open>The rest of a submit, when its request is answered.\<close>

definition submit_answered ::
  "js_env \<Rightarrow> string \<Rightarrow> (string \<Rightarrow> string) \<Rightarrow> string \<Rightarrow> response \<Rightarrow> login_page \<Rightarrow> login_page" where
  "submit_answered env type_error utf8 search res p =
     (case res of
        NetworkError msg \<Rightarrow> submit_failed msg p
      | Response status body \<Rightarrow>
          if \<not> response_ok status then submit_failed (http_error env type_error status body) p
          else p\<lparr>lpLocation := Some (next_target (search_get utf8 search ''next''))\<rparr>)"

definition login_step ::
  "js_env \<Rightarrow> string \<Rightarrow> (string \<Rightarrow> string) \<Rightarrow> string \<Rightarrow> login_event \<Rightarrow> login_page \<Rightarrow> login_page" where
  "login_step env type_error utf8 search ev p =
     (case ev of
        TypeUsername s \<Rightarrow> p\<lparr>lpUsername := s\<rparr>
      | TypePassword s \<Rightarrow> p\<lparr>lpPassword := s\<rparr>
      | Submit \<Rightarrow> submit p
      | Answer res \<Rightarrow>
          (case lpInFlight p of
             [] \<Rightarrow> p
           | _ # rest \<Rightarrow> submit_answered env type_error utf8 search res (p\<lparr>lpInFlight := rest\<rparr>)))"

text \<open>The page is busy while a request is out, and stays so once it has been told to
  leave: one request at a time, and none after a successful login.\<close>

definition login_wf :: "login_page \<Rightarrow> bool" where
  "login_wf p \<longleftrightarrow> length (lpInFlight p) + (if lpLocation p = None then 0 else 1) = (if lpBusy p then 1 else 0)"

lemma login_wf_step: "login_wf p \<Longrightarrow> login_wf (login_step env te utf8 search ev p)"
  by (auto simp: login_wf_def login_step_def submit_def submit_answered_def submit_failed_def
      split: login_event.split list.split response.split if_splits)

lemma login_wf_run: "login_wf p \<Longrightarrow> login_wf (fold (login_step env te utf8 search) evs p)"
  by (induction evs arbitrary: p) (simp_all add: login_wf_step)

text \<open>
  The login form has at most one request out at any time, whatever the user does; while it
  waits, and after a successful login, a submit does nothing. When an attempt fails the
  form is usable again, the typed password is gone and the error is shown.
\<close>

theorem login_one_request:
  assumes "p = fold (login_step env te utf8 search) evs initial_login"
  shows "length (lpInFlight p) \<le> 1 \<and>
    (lpInFlight p \<noteq> [] \<or> lpLocation p \<noteq> None \<longrightarrow> login_step env te utf8 search Submit p = p) \<and>
    (lpInFlight p \<noteq> [] \<longrightarrow> \<not> response_ok status \<longrightarrow>
       (let q = login_step env te utf8 search (Answer (Response status body)) p
        in \<not> lpBusy q \<and> lpInFlight q = [] \<and> lpPassword q = [] \<and>
           lpError q = http_error env te status body \<and> lpLocation q = None))"
proof -
  have "login_wf p" unfolding assms
    by (rule login_wf_run) (simp add: login_wf_def initial_login_def)
  then show ?thesis
    by (auto simp: login_wf_def login_step_def submit_def submit_answered_def submit_failed_def Let_def
        neq_Nil_conv split: if_splits)
qed

lemma login_one_request_witness:
  "\<not> lpBusy (fold (login_step undefined [] id []) [Submit, Answer (Response 401 (Inl []))] initial_login)"
proof -
  let ?p = "fold (login_step undefined [] id []) [Submit] initial_login"
  have "lpInFlight ?p \<noteq> []" and "\<not> response_ok 401"
    by (simp_all add: login_step_def submit_def initial_login_def response_ok_def)
  with login_one_request [of ?p undefined "[]" id "[]" "[Submit]" 401 "Inl []"]
  have "\<not> lpBusy (login_step undefined [] id [] (Answer (Response 401 (Inl []))) ?p)"
    unfolding Let_def by blast
  then show ?thesis by simp
qed

text \<open>
  Being sent to the login page and back leads to where the user was: for a page path
  and query in ASCII (which a browser's location always is), the \<open>next\<close> the dashboard
  appends is read back by the login page, and a successful login opens that very path
  when it starts with a single slash.
\<close>

theorem login_next_roundtrip:
  assumes "\<And>s. \<forall>c \<in> set s. code c < 128 \<Longrightarrow> utf8 s = s"
    and "\<forall>c \<in> set path. code c < 128" and "has_prefix ''/'' path" and "\<not> has_prefix ''//'' path"
    and "response_ok status"
  shows "lpLocation (submit_answered env te utf8 (''?next='' @ encodeURIComponent path)
      (Response status body) p) = Some path"
  using search_get_encode [OF assms(1,2)] assms(3-5)
  by (auto simp: submit_answered_def next_target_def)

lemma login_next_roundtrip_witness:
  "lpLocation (submit_answered undefined [] id (''?next='' @ encodeURIComponent ''/?a=b&c'')
      (Response 200 (Inr (JPrim Null))) initial_login) = Some ''/?a=b&c''"
  by (rule login_next_roundtrip) (simp_all add: code_def response_ok_def)

text \<open>
  The guard on \<open>next\<close> keeps the browser on its own host for every target without
  backslashes, tabs, newlines and leading or trailing blanks.
\<close>

theorem next_target_same_host:
  assumes "\<forall>c \<in> set n. 32 < code c \<and> code c \<noteq> 92"
  shows "url_host (next_target (Some n)) = None"
proof -
  have drop: "dropWhile (\<lambda>c. code c \<le> 32) xs = xs" if "set xs \<subseteq> set n" for xs
    using assms that by (cases xs) auto
  have "filter (\<lambda>c. code c \<notin> {9, 10, 13}) n = n"
    using assms by (intro filter_True) auto
  then have strip: "strip_url n = n"
    using drop [of n] drop [of "rev n"] by (simp add: strip_url_def)
  show ?thesis
  proof (cases "has_prefix ''/'' n \<and> \<not> has_prefix ''//'' n")
    case True
    then obtain t where t: "n = CHR ''/'' # t" by (auto simp: has_prefix_iff)
    with True have "t = [] \<or> (\<exists>b u. t = b # u \<and> b \<noteq> CHR ''/'')" by (cases t) auto
    with True strip t assms show ?thesis
      by (auto simp: next_target_def url_host_def url_slash_def)
  next
    case False
    then show ?thesis by (auto simp: next_target_def url_host_def strip_url_def code_def)
  qed
qed

lemma next_target_same_host_witness: "url_host (next_target (Some ''/a/b'')) = None"
  by (rule next_target_same_host) (simp add: code_def)

text \<open>
  With a backslash the guard can be passed by a target on another host: the browser
  takes \<^verbatim>\<open>/\evil.com\<close> for \<^verbatim>\<open>//evil.com\<close>.
\<close>

theorem next_target_other_host:
  "next_target (Some (CHR ''/'' # CHR 0x5C # ''evil.com'')) = CHR ''/'' # CHR 0x5C # ''evil.com'' \<and>
   url_host (CHR ''/'' # CHR 0x5C # ''evil.com'') = Some ''evil.com''"
  by (simp add: next_target_def url_host_def strip_url_def url_slash_def code_def)

end
