(* ===== verification/AppPage.thy ===== *)
theory AppPage
  imports LoginPage
begin

text \<open>
  The state machine of the dashboard, \<^verbatim>\<open>frontend/static/js/app.js\<close>. JavaScript runs one
  callback to its end before the next, so the page is a state and a step function on
  events: the clock advances, a timer fires, a request is answered, the user acts. An
  asynchronous function is cut at its \<open>await\<close>: the part before it sends a request that
  carries the name of the part after it, its \<open>continuation\<close>. The variables a closure
  captures (\<open>pollStart\<close>, \<open>consecErrs\<close>) travel with the timers and requests of the closure, which
  holds at most one of them at a time. A response arrives with its body.
\<close>

datatype callback = ClearMessage | Tick int nat

datatype continuation =
    KMe | KLogout | KReservations | KAlerts | KGPU | KSync | KStatus int nat | KResume | KImport

text \<open>What the user chose to see.\<close>

record controls =
  activeTab :: string
  filterType :: string
  filterAccount :: string
  searchText :: string
  gpuFilterAccount :: string
  gpuSearchText :: string

record page =
  controls :: controls
  reservations :: body
  alerts :: body
  gpuCoverage :: body
  loading :: bool
  message :: string
  messageErr :: bool
  reservationSort :: "string \<times> string"
  gpuSort :: "string \<times> string"
  msgTimer :: "nat option"
  authEnabled :: bool
  username :: field
  syncRunning :: bool
  syncPollTimer :: "nat option"
  clock :: int
  timers :: "(nat \<times> int \<times> callback) list"
  nextTimer :: nat
  inFlight :: "(nat \<times> continuation) list"
  nextFetch :: nat
  sent :: "(string \<times> string) list"
  navigations :: "string list"
  opened :: "string list"

text \<open>What surrounds the page: the engine, its text for a \<open>TypeError\<close>, and the location.\<close>

record browser =
  engine :: js_env
  typeErrorText :: string
  locationPath :: string
  locationSearch :: string

definition SYNC_POLL_TIMEOUT_MS :: int where "SYNC_POLL_TIMEOUT_MS = 10 * 60 * 1000"
definition SYNC_POLL_MAX_CONSECUTIVE_ERRS :: nat where "SYNC_POLL_MAX_CONSECUTIVE_ERRS = 3"

section \<open>Timers, requests and messages\<close>

definition setTimeout :: "callback \<Rightarrow> int \<Rightarrow> page \<Rightarrow> page" where
  "setTimeout cb ms p =
     p\<lparr>timers := timers p @ [(nextTimer p, clock p + ms, cb)], nextTimer := nextTimer p + 1\<rparr>"

definition clearTimeout :: "nat \<Rightarrow> page \<Rightarrow> page" where
  "clearTimeout t p = p\<lparr>timers := filter (\<lambda>e. fst e \<noteq> t) (timers p)\<rparr>"

definition fetch :: "string \<Rightarrow> string \<Rightarrow> continuation \<Rightarrow> page \<Rightarrow> page" where
  "fetch meth url k p =
     p\<lparr>inFlight := inFlight p @ [(nextFetch p, k)], nextFetch := nextFetch p + 1,
       sent := sent p @ [(meth, url)]\<rparr>"

definition showMsg :: "string \<Rightarrow> bool \<Rightarrow> page \<Rightarrow> page" where
  "showMsg txt isErr p =
     (let p1 = p\<lparr>message := txt, messageErr := isErr\<rparr>;
          p2 = (case msgTimer p of None \<Rightarrow> p1 | Some t \<Rightarrow> clearTimeout t p1)
      in (setTimeout ClearMessage 5000 p2)\<lparr>msgTimer := Some (nextTimer p)\<rparr>)"

definition redirectToLogin :: "browser \<Rightarrow> page \<Rightarrow> page" where
  "redirectToLogin br p =
     p\<lparr>navigations := navigations p @
         [''/login.html?next='' @ encodeURIComponent (locationPath br @ locationSearch br)]\<rparr>"

definition session_expired :: string where
  "session_expired = ''Session expired, redirecting to sign in''"

text \<open>The end of an \<open>apiFetch\<close>: the message of the exception it throws, or the parsed body.\<close>

definition apiFetch :: "browser \<Rightarrow> response \<Rightarrow> page \<Rightarrow> (string + body) \<times> page" where
  "apiFetch br res p =
     (case res of
        NetworkError msg \<Rightarrow> (Inl msg, p)
      | Response status body \<Rightarrow>
          if status = 401 then (Inl session_expired, redirectToLogin br p)
          else if \<not> response_ok status
          then (Inl (http_error (engine br) (typeErrorText br) status body), p)
          else (body, p))"

section \<open>Loading\<close>

definition loadReservations :: "page \<Rightarrow> page" where
  "loadReservations p = fetch ''GET'' ''/api/reservations'' KReservations (p\<lparr>loading := True\<rparr>)"

definition reservations_loaded :: "browser \<Rightarrow> response \<Rightarrow> page \<Rightarrow> page" where
  "reservations_loaded br res p =
     (case apiFetch br res p of
        (Inr b, p) \<Rightarrow> p\<lparr>reservations := b, loading := False\<rparr>
      | (Inl e, p) \<Rightarrow>
          (showMsg (''Load failed: '' @ e) True p)\<lparr>reservations := JRows [], loading := False\<rparr>)"

definition loadAlerts :: "page \<Rightarrow> page" where
  "loadAlerts p = fetch ''GET'' ''/api/alerts'' KAlerts p"

definition alerts_loaded :: "browser \<Rightarrow> response \<Rightarrow> page \<Rightarrow> page" where
  "alerts_loaded br res p =
     (case apiFetch br res p of
        (Inr b, p) \<Rightarrow> p\<lparr>alerts := b\<rparr>
      | (Inl e, p) \<Rightarrow> (showMsg (''Load alerts failed: '' @ e) True p)\<lparr>alerts := JRows []\<rparr>)"

definition loadGPUCoverage :: "page \<Rightarrow> page" where
  "loadGPUCoverage p = fetch ''GET'' ''/api/gpu-coverage'' KGPU p"

definition gpu_loaded :: "browser \<Rightarrow> response \<Rightarrow> page \<Rightarrow> page" where
  "gpu_loaded br res p =
     (case apiFetch br res p of
        (Inr b, p) \<Rightarrow> p\<lparr>gpuCoverage := b\<rparr>
      | (Inl e, p) \<Rightarrow> (showMsg (''Load GPU coverage failed: '' @ e) True p)\<lparr>gpuCoverage := JRows []\<rparr>)"

section \<open>Synchronising\<close>

definition syncData :: "page \<Rightarrow> page" where
  "syncData p =
     (if syncRunning p then showMsg ''Sync already running, please wait...'' False p
      else fetch ''POST'' ''/api/sync'' KSync
             ((showMsg ''Syncing from AWS... (this may take a few minutes)'' False p)
               \<lparr>syncRunning := True\<rparr>))"

definition pollSyncStatus :: "page \<Rightarrow> page" where
  "pollSyncStatus p =
     (let p1 = (case syncPollTimer p of
                  None \<Rightarrow> p
                | Some t \<Rightarrow> (clearTimeout t p)\<lparr>syncPollTimer := None\<rparr>)
      in (setTimeout (Tick (clock p1) 0) 2000 p1)\<lparr>syncPollTimer := Some (nextTimer p1)\<rparr>)"

definition sync_failed :: "string \<Rightarrow> page \<Rightarrow> page" where
  "sync_failed e p = showMsg (''Sync failed to start: '' @ e) True (p\<lparr>syncRunning := False\<rparr>)"

definition sync_posted :: "browser \<Rightarrow> response \<Rightarrow> page \<Rightarrow> page" where
  "sync_posted br res p =
     (case res of
        NetworkError msg \<Rightarrow> sync_failed msg p
      | Response status body \<Rightarrow>
          if status = 401 then sync_failed session_expired (redirectToLogin br p)
          else if status \<noteq> 202 \<and> status \<noteq> 409 \<and> \<not> response_ok status
          then sync_failed (http_error (engine br) (typeErrorText br) status body) p
          else pollSyncStatus p)"

text \<open>A tick of a poller, up to its request.\<close>

definition tick :: "int \<Rightarrow> nat \<Rightarrow> page \<Rightarrow> page" where
  "tick pollStart consecErrs p =
     (if clock p - pollStart > SYNC_POLL_TIMEOUT_MS
      then showMsg ''Sync is still running on the server (UI gave up after 10 minutes). Refresh later to see results.'' True
             (p\<lparr>syncRunning := False, syncPollTimer := None\<rparr>)
      else fetch ''GET'' ''/api/sync/status'' (KStatus pollStart consecErrs) p)"

definition rearm :: "int \<Rightarrow> nat \<Rightarrow> page \<Rightarrow> page" where
  "rearm pollStart consecErrs p =
     (setTimeout (Tick pollStart consecErrs) 5000 p)\<lparr>syncPollTimer := Some (nextTimer p)\<rparr>"

definition status_failed :: "string \<Rightarrow> int \<Rightarrow> nat \<Rightarrow> page \<Rightarrow> page" where
  "status_failed e pollStart consecErrs0 p =
     (let consecErrs = consecErrs0 + 1 in
      if consecErrs \<ge> SYNC_POLL_MAX_CONSECUTIVE_ERRS
      then showMsg (''Status check failed (sync may still be running on the server): '' @ e) True
             (p\<lparr>syncRunning := False, syncPollTimer := None\<rparr>)
      else rearm pollStart consecErrs p)"

definition error_count :: "field \<Rightarrow> nat" where
  "error_count f = (case f of Inr es \<Rightarrow> length es | Inl (Str s) \<Rightarrow> length s | Inl _ \<Rightarrow> 0)"

definition sync_finished :: "browser \<Rightarrow> field \<Rightarrow> field \<Rightarrow> page \<Rightarrow> page" where
  "sync_finished br synced errors p =
     (let errCount = error_count errors;
          txt = ''Synced '' @ (if field_truthy synced then field_String (engine br) synced else ''0'') @
                '' items'' @ (if errCount \<noteq> 0 then '', '' @ nat_digits errCount @ '' errors'' else [])
      in loadGPUCoverage (loadAlerts (loadReservations
           (showMsg txt (errCount > 0) (p\<lparr>syncRunning := False, syncPollTimer := None\<rparr>)))))"

text \<open>The rest of a tick. A body of \<open>null\<close> throws after the error count was reset.\<close>

definition status_answered :: "browser \<Rightarrow> response \<Rightarrow> int \<Rightarrow> nat \<Rightarrow> page \<Rightarrow> page" where
  "status_answered br res pollStart consecErrs p0 =
     (case apiFetch br res p0 of
        (Inl e, p) \<Rightarrow> status_failed e pollStart consecErrs p
      | (Inr s, p) \<Rightarrow>
          (case (body_prop s ''running'', body_prop s ''synced'', body_prop s ''errors'') of
             (Some running, Some synced, Some errors) \<Rightarrow>
               if field_truthy running then rearm pollStart 0 (p\<lparr>syncRunning := True\<rparr>)
               else sync_finished br synced errors p
           | _ \<Rightarrow> status_failed (typeErrorText br) pollStart 0 p))"

definition resumeSyncIfRunning :: "page \<Rightarrow> page" where
  "resumeSyncIfRunning p = fetch ''GET'' ''/api/sync/status'' KResume p"

definition resume_answered :: "browser \<Rightarrow> response \<Rightarrow> page \<Rightarrow> page" where
  "resume_answered br res p0 =
     (case apiFetch br res p0 of
        (Inl e, p) \<Rightarrow> p
      | (Inr s, p) \<Rightarrow>
          (case body_prop s ''running'' of
             None \<Rightarrow> p
           | Some running \<Rightarrow>
               if field_truthy running \<and> syncPollTimer p = None
               then pollSyncStatus (showMsg ''Sync in progress...'' False (p\<lparr>syncRunning := True\<rparr>))
               else p))"

section \<open>Signing out, importing, mounting\<close>

definition logout :: "page \<Rightarrow> page" where
  "logout p = fetch ''POST'' ''/api/logout'' KLogout p"

definition logged_out :: "page \<Rightarrow> page" where
  "logged_out p = p\<lparr>navigations := navigations p @ [''/login.html'']\<rparr>"

definition exportCSV :: "page \<Rightarrow> page" where
  "exportCSV p = p\<lparr>opened := opened p @ [''/api/export'']\<rparr>"

definition importFile :: "bool \<Rightarrow> page \<Rightarrow> page" where
  "importFile chosen p = (if chosen then fetch ''POST'' ''/api/import'' KImport p else p)"

definition import_answered :: "browser \<Rightarrow> response \<Rightarrow> page \<Rightarrow> page" where
  "import_answered br res p0 =
     (case apiFetch br res p0 of
        (Inl e, p) \<Rightarrow> showMsg (''Import failed: '' @ e) True p
      | (Inr d, p) \<Rightarrow>
          (case body_prop d ''imported'' of
             None \<Rightarrow> showMsg (''Import failed: '' @ typeErrorText br) True p
           | Some n \<Rightarrow>
               loadAlerts (loadReservations
                 (showMsg (''Imported '' @ (if field_truthy n then field_String (engine br) n else ''0'') @
                    '' records'') False p))))"

definition loadMe :: "page \<Rightarrow> page" where
  "loadMe p = fetch ''GET'' ''/api/me'' KMe p"

definition me_failed :: "string \<Rightarrow> page \<Rightarrow> bool \<times> page" where
  "me_failed e p = (False, showMsg (''Could not verify session: '' @ e) True p)"

text \<open>The rest of \<open>loadMe\<close>, and what it resolves to.\<close>

definition me_answered :: "browser \<Rightarrow> response \<Rightarrow> page \<Rightarrow> bool \<times> page" where
  "me_answered br res p =
     (case res of
        NetworkError msg \<Rightarrow> me_failed msg p
      | Response status body \<Rightarrow>
          if status = 401 then (False, redirectToLogin br p)
          else (case body of
                  Inl e \<Rightarrow> me_failed e p
                | Inr me \<Rightarrow>
                    (case (body_prop me ''auth_enabled'', body_prop me ''username'') of
                       (Some enabled, Some user) \<Rightarrow>
                         (True, p\<lparr>authEnabled := field_truthy enabled,
                                  username := (if field_truthy user then user else Inl (Str []))\<rparr>)
                     | _ \<Rightarrow> me_failed (typeErrorText br) p)))"

text \<open>The rest of the \<open>onMounted\<close> callback.\<close>

definition mounted :: "browser \<Rightarrow> response \<Rightarrow> page \<Rightarrow> page" where
  "mounted br res p0 =
     (case me_answered br res p0 of
        (True, p) \<Rightarrow> resumeSyncIfRunning (loadGPUCoverage (loadReservations p))
      | (False, p) \<Rightarrow> p)"

section \<open>Events\<close>

datatype event =
    Advance nat
  | Fire nat
  | Deliver nat response
  | ClickSync
  | ClickLogout
  | ClickExport
  | ChooseFile bool
  | OpenDashboard
  | OpenAlerts
  | OpenGPU
  | SelectType string
  | SelectAccount string
  | EnterSearch string
  | SelectGpuAccount string
  | EnterGpuSearch string
  | SortBy string
  | GpuSortBy string

definition run_callback :: "callback \<Rightarrow> page \<Rightarrow> page" where
  "run_callback cb p =
     (case cb of
        ClearMessage \<Rightarrow> p\<lparr>message := [], msgTimer := None\<rparr>
      | Tick pollStart consecErrs \<Rightarrow> tick pollStart consecErrs p)"

definition continue :: "browser \<Rightarrow> continuation \<Rightarrow> response \<Rightarrow> page \<Rightarrow> page" where
  "continue br k res p =
     (case k of
        KMe \<Rightarrow> mounted br res p
      | KLogout \<Rightarrow> logged_out p
      | KReservations \<Rightarrow> reservations_loaded br res p
      | KAlerts \<Rightarrow> alerts_loaded br res p
      | KGPU \<Rightarrow> gpu_loaded br res p
      | KSync \<Rightarrow> sync_posted br res p
      | KStatus pollStart consecErrs \<Rightarrow> status_answered br res pollStart consecErrs p
      | KResume \<Rightarrow> resume_answered br res p
      | KImport \<Rightarrow> import_answered br res p)"

definition set_controls :: "(controls \<Rightarrow> controls) \<Rightarrow> page \<Rightarrow> page" where
  "set_controls f p = p\<lparr>controls := f (controls p)\<rparr>"

definition page_step :: "browser \<Rightarrow> event \<Rightarrow> page \<Rightarrow> page" where
  "page_step br ev p =
     (case ev of
        Advance ms \<Rightarrow> p\<lparr>clock := clock p + int ms\<rparr>
      | Fire t \<Rightarrow>
          (case find_key fst t (timers p) of
             None \<Rightarrow> p
           | Some (_, due, cb) \<Rightarrow>
               if due \<le> clock p
               then run_callback cb (p\<lparr>timers := delete_key fst t (timers p)\<rparr>) else p)
      | Deliver i res \<Rightarrow>
          (case find_key fst i (inFlight p) of
             None \<Rightarrow> p
           | Some (_, k) \<Rightarrow> continue br k res (p\<lparr>inFlight := delete_key fst i (inFlight p)\<rparr>))
      | ClickSync \<Rightarrow> syncData p
      | ClickLogout \<Rightarrow> logout p
      | ClickExport \<Rightarrow> exportCSV p
      | ChooseFile chosen \<Rightarrow> importFile chosen p
      | OpenDashboard \<Rightarrow> set_controls (activeTab_update (\<lambda>_. ''dashboard'')) p
      | OpenAlerts \<Rightarrow> loadAlerts (set_controls (activeTab_update (\<lambda>_. ''alerts'')) p)
      | OpenGPU \<Rightarrow> loadGPUCoverage (set_controls (activeTab_update (\<lambda>_. ''gpu'')) p)
      | SelectType s \<Rightarrow> set_controls (filterType_update (\<lambda>_. s)) p
      | SelectAccount s \<Rightarrow> set_controls (filterAccount_update (\<lambda>_. s)) p
      | EnterSearch s \<Rightarrow> set_controls (searchText_update (\<lambda>_. s)) p
      | SelectGpuAccount s \<Rightarrow> set_controls (gpuFilterAccount_update (\<lambda>_. s)) p
      | EnterGpuSearch s \<Rightarrow> set_controls (gpuSearchText_update (\<lambda>_. s)) p
      | SortBy key \<Rightarrow> p\<lparr>reservationSort := sortBy key (reservationSort p)\<rparr>
      | GpuSortBy key \<Rightarrow> p\<lparr>gpuSort := sortBy key (gpuSort p)\<rparr>)"

text \<open>The page as \<open>setup\<close> returns it at time \<open>t0\<close>, and after \<open>onMounted\<close> has begun.\<close>

definition setup_page :: "int \<Rightarrow> page" where
  "setup_page t0 =
     \<lparr>controls = \<lparr>activeTab = ''dashboard'', filterType = [], filterAccount = [], searchText = [],
        gpuFilterAccount = [], gpuSearchText = []\<rparr>,
      reservations = JRows [], alerts = JRows [], gpuCoverage = JRows [], loading = False,
      message = [], messageErr = False, reservationSort = ([], ''asc''), gpuSort = ([], ''asc''),
      msgTimer = None, authEnabled = False, username = Inl (Str []), syncRunning = False,
      syncPollTimer = None, clock = t0, timers = [], nextTimer = 1, inFlight = [],
      nextFetch = 0, sent = [], navigations = [], opened = []\<rparr>"

definition start_page :: "int \<Rightarrow> page" where
  "start_page t0 = loadMe (setup_page t0)"

inductive reachable :: "browser \<Rightarrow> page \<Rightarrow> bool" for br where
  start: "reachable br (start_page t0)"
| step: "reachable br p \<Longrightarrow> reachable br (page_step br ev p)"

inductive_cases reachable_elim: "reachable br p"

section \<open>Well-formed pages\<close>

definition is_tick :: "nat \<times> int \<times> callback \<Rightarrow> bool" where
  "is_tick e \<longleftrightarrow> snd (snd e) \<noteq> ClearMessage"

definition ticks :: "page \<Rightarrow> (nat \<times> int \<times> callback) list" where
  "ticks p = filter is_tick (timers p)"

definition clears :: "page \<Rightarrow> (nat \<times> int \<times> callback) list" where
  "clears p = filter (\<lambda>e. \<not> is_tick e) (timers p)"

text \<open>
  The message timer: when \<open>msgTimer\<close> is set, it is the one pending \<open>ClearMessage\<close> timer, due
  within five seconds; otherwise there is none, and no message either.
\<close>

definition message_wf :: "page \<Rightarrow> bool" where
  "message_wf p \<longleftrightarrow>
     (case msgTimer p of
        None \<Rightarrow> message p = [] \<and> clears p = []
      | Some m \<Rightarrow> \<exists>due \<le> clock p + 5000. clears p = [(m, due, ClearMessage)])"

definition page_wf :: "page \<Rightarrow> bool" where
  "page_wf p \<longleftrightarrow>
     distinct (map fst (timers p)) \<and> (\<forall>e \<in> set (timers p). fst e < nextTimer p) \<and>
     distinct (map fst (inFlight p)) \<and> (\<forall>e \<in> set (inFlight p). fst e < nextFetch p) \<and>
     message_wf p \<and>
     (\<forall>t. syncPollTimer p = Some t \<longrightarrow> t < nextTimer p \<and> t \<notin> fst ` set (clears p))"

lemma filter_other_key:
  assumes "distinct (map fst es)" "x \<in> set es" "\<not> P x"
  shows "filter P (filter (\<lambda>e. fst e \<noteq> fst x) es) = filter P es"
proof -
  have "P e \<and> fst e \<noteq> fst x \<longleftrightarrow> P e" if "e \<in> set es" for e
    using assms that by (metis eq_key_imp_eq_value prod.collapse)
  then show ?thesis by (auto simp: intro!: filter_cong)
qed

lemma clears_timer:
  "clears p = [(m, due, ClearMessage)] \<Longrightarrow> (m, due, ClearMessage) \<in> set (timers p)"
proof -
  assume "clears p = [(m, due, ClearMessage)]"
  then have "(m, due, ClearMessage) \<in> set (clears p)" by simp
  then show ?thesis by (simp add: clears_def)
qed

text \<open>What the primitives leave alone.\<close>

lemma showMsg_fields [simp]:
  "message (showMsg s b p) = s" "messageErr (showMsg s b p) = b"
  "syncRunning (showMsg s b p) = syncRunning p" "syncPollTimer (showMsg s b p) = syncPollTimer p"
  "inFlight (showMsg s b p) = inFlight p" "nextFetch (showMsg s b p) = nextFetch p"
  "clock (showMsg s b p) = clock p" "sent (showMsg s b p) = sent p"
  "navigations (showMsg s b p) = navigations p"
  by (simp_all add: showMsg_def setTimeout_def clearTimeout_def Let_def split: option.split)

lemma fetch_fields [simp]:
  "timers (fetch m u k p) = timers p" "nextTimer (fetch m u k p) = nextTimer p"
  "msgTimer (fetch m u k p) = msgTimer p" "message (fetch m u k p) = message p"
  "syncRunning (fetch m u k p) = syncRunning p" "syncPollTimer (fetch m u k p) = syncPollTimer p"
  "clock (fetch m u k p) = clock p" "sent (fetch m u k p) = sent p @ [(m, u)]"
  "inFlight (fetch m u k p) = inFlight p @ [(nextFetch p, k)]"
  "nextFetch (fetch m u k p) = nextFetch p + 1" "navigations (fetch m u k p) = navigations p"
  by (simp_all add: fetch_def)

lemma redirect_fields [simp]:
  "timers (redirectToLogin br p) = timers p" "nextTimer (redirectToLogin br p) = nextTimer p"
  "msgTimer (redirectToLogin br p) = msgTimer p" "message (redirectToLogin br p) = message p"
  "syncRunning (redirectToLogin br p) = syncRunning p"
  "syncPollTimer (redirectToLogin br p) = syncPollTimer p"
  "clock (redirectToLogin br p) = clock p" "sent (redirectToLogin br p) = sent p"
  "inFlight (redirectToLogin br p) = inFlight p" "nextFetch (redirectToLogin br p) = nextFetch p"
  by (simp_all add: redirectToLogin_def)

lemma poll_fields [simp]:
  "syncRunning (pollSyncStatus p) = syncRunning p" "inFlight (pollSyncStatus p) = inFlight p"
  "clock (pollSyncStatus p) = clock p" "sent (pollSyncStatus p) = sent p"
  "navigations (pollSyncStatus p) = navigations p"
  by (simp_all add: pollSyncStatus_def setTimeout_def clearTimeout_def Let_def split: option.split)

lemma rearm_fields [simp]:
  "syncRunning (rearm s e p) = syncRunning p" "inFlight (rearm s e p) = inFlight p"
  "clock (rearm s e p) = clock p" "sent (rearm s e p) = sent p"
  "navigations (rearm s e p) = navigations p"
  by (simp_all add: rearm_def setTimeout_def)

lemma controls_fields [simp]:
  "timers (set_controls f p) = timers p" "nextTimer (set_controls f p) = nextTimer p"
  "msgTimer (set_controls f p) = msgTimer p" "message (set_controls f p) = message p"
  "syncRunning (set_controls f p) = syncRunning p" "syncPollTimer (set_controls f p) = syncPollTimer p"
  "clock (set_controls f p) = clock p" "sent (set_controls f p) = sent p"
  "inFlight (set_controls f p) = inFlight p" "nextFetch (set_controls f p) = nextFetch p"
  "reservations (set_controls f p) = reservations p" "controls (set_controls f p) = f (controls p)"
  by (simp_all add: set_controls_def)

text \<open>A page is well formed whatever the fields that hold data.\<close>

lemma page_wf_data [simp]:
  "page_wf (p\<lparr>reservations := b\<rparr>) = page_wf p" "page_wf (p\<lparr>alerts := b\<rparr>) = page_wf p"
  "page_wf (p\<lparr>gpuCoverage := b\<rparr>) = page_wf p" "page_wf (p\<lparr>loading := l\<rparr>) = page_wf p"
  "page_wf (set_controls g p) = page_wf p"
  "page_wf (p\<lparr>reservationSort := st\<rparr>) = page_wf p" "page_wf (p\<lparr>gpuSort := st\<rparr>) = page_wf p"
  "page_wf (p\<lparr>authEnabled := l\<rparr>) = page_wf p" "page_wf (p\<lparr>username := f\<rparr>) = page_wf p"
  "page_wf (p\<lparr>syncRunning := l\<rparr>) = page_wf p" "page_wf (p\<lparr>navigations := ns\<rparr>) = page_wf p"
  "page_wf (p\<lparr>opened := ns\<rparr>) = page_wf p"
  "page_wf (redirectToLogin br p) = page_wf p"
  by (simp_all add: page_wf_def message_wf_def clears_def cong: option.case_cong)

lemma ticks_data [simp]:
  "ticks (p\<lparr>reservations := b\<rparr>) = ticks p" "ticks (p\<lparr>alerts := b\<rparr>) = ticks p"
  "ticks (p\<lparr>gpuCoverage := b\<rparr>) = ticks p" "ticks (p\<lparr>loading := l\<rparr>) = ticks p"
  "ticks (set_controls g p) = ticks p"
  "ticks (p\<lparr>reservationSort := st\<rparr>) = ticks p" "ticks (p\<lparr>gpuSort := st\<rparr>) = ticks p"
  "ticks (p\<lparr>authEnabled := l\<rparr>) = ticks p" "ticks (p\<lparr>username := f\<rparr>) = ticks p"
  "ticks (p\<lparr>syncRunning := l\<rparr>) = ticks p" "ticks (p\<lparr>navigations := ns\<rparr>) = ticks p"
  "ticks (p\<lparr>opened := ns\<rparr>) = ticks p" "ticks (p\<lparr>syncPollTimer := t\<rparr>) = ticks p"
  "ticks (p\<lparr>inFlight := fs\<rparr>) = ticks p" "ticks (p\<lparr>clock := c\<rparr>) = ticks p"
  "ticks (redirectToLogin br p) = ticks p" "ticks (fetch m u k p) = ticks p"
  by (simp_all add: ticks_def)

lemma message_wf_cong:
  assumes "message_wf p" "msgTimer q = msgTimer p" "message q = message p" "clock p \<le> clock q"
    "clears q = clears p"
  shows "message_wf q"
proof (cases "msgTimer p")
  case (Some m)
  with assms obtain due where "due \<le> clock p + 5000" "clears p = [(m, due, ClearMessage)]"
    by (auto simp: message_wf_def)
  with Some assms show ?thesis by (auto simp: message_wf_def)
qed (use assms in \<open>simp add: message_wf_def\<close>)

lemma page_wf_cong:
  assumes "page_wf p" "timers q = timers p" "nextTimer q = nextTimer p" "msgTimer q = msgTimer p"
    "message q = message p" "clock p \<le> clock q"
    "distinct (map fst (inFlight q))" "\<forall>e \<in> set (inFlight q). fst e < nextFetch q"
    "syncPollTimer q = None \<or> syncPollTimer q = syncPollTimer p"
  shows "page_wf q"
proof -
  have c: "clears q = clears p" using assms(2) by (simp add: clears_def)
  then have "message_wf q" using assms by (intro message_wf_cong [of p q]) (auto simp: page_wf_def)
  moreover have "\<forall>t. syncPollTimer q = Some t \<longrightarrow> t < nextTimer q \<and> t \<notin> fst ` set (clears q)"
    using assms(9)
  proof
    assume "syncPollTimer q = syncPollTimer p"
    with assms(1,3) c show ?thesis by (simp add: page_wf_def)
  qed simp
  ultimately show ?thesis using assms c by (simp add: page_wf_def)
qed

lemma page_wf_fetches:
  "page_wf p \<Longrightarrow> distinct (map fst (inFlight p)) \<and> (\<forall>e \<in> set (inFlight p). fst e < nextFetch p)"
  by (simp add: page_wf_def)

lemma page_wf_forget [simp]: "page_wf p \<Longrightarrow> page_wf (p\<lparr>syncPollTimer := None\<rparr>)"
  by (frule page_wf_fetches, erule page_wf_cong) auto

lemma page_wf_clock: "page_wf p \<Longrightarrow> page_wf (p\<lparr>clock := clock p + int ms\<rparr>)"
  by (frule page_wf_fetches, erule page_wf_cong) auto

lemma page_wf_fetch [simp]: "page_wf p \<Longrightarrow> page_wf (fetch m u k p)"
  by (frule page_wf_fetches, erule page_wf_cong) (auto simp: less_Suc_eq)

lemma page_wf_answered [simp]:
  "page_wf p \<Longrightarrow> page_wf (p\<lparr>inFlight := delete_key fst i (inFlight p)\<rparr>)"
  by (frule page_wf_fetches, erule page_wf_cong)
    (simp_all add: delete_key_def distinct_filter_keys)

lemma showMsg_timers:
  assumes "page_wf p"
  shows "\<exists>ts. timers (showMsg s b p) = ts @ [(nextTimer p, clock p + 5000, ClearMessage)] \<and>
    set ts \<subseteq> set (timers p) \<and> distinct (map fst ts) \<and>
    filter is_tick ts = ticks p \<and> filter (\<lambda>e. \<not> is_tick e) ts = []"
proof (cases "msgTimer p")
  case None
  with assms show ?thesis
    by (simp add: showMsg_def setTimeout_def Let_def ticks_def page_wf_def message_wf_def clears_def)
next
  case (Some m)
  with assms obtain due where c: "clears p = [(m, due, ClearMessage)]"
    by (auto simp: page_wf_def message_wf_def)
  let ?ts = "filter (\<lambda>e. fst e \<noteq> m) (timers p)"
  have d: "distinct (map fst (timers p))" using assms by (simp add: page_wf_def)
  have "filter is_tick ?ts = ticks p"
    using filter_other_key [OF d clears_timer [OF c], of is_tick] by (simp add: is_tick_def ticks_def)
  moreover have "filter (\<lambda>e. \<not> is_tick e) ?ts = filter (\<lambda>e. fst e \<noteq> m) (clears p)"
    by (simp add: clears_def conj_commute)
  then have "filter (\<lambda>e. \<not> is_tick e) ?ts = []" by (simp add: c)
  moreover have "timers (showMsg s b p) = ?ts @ [(nextTimer p, clock p + 5000, ClearMessage)]"
    using Some by (simp add: showMsg_def setTimeout_def clearTimeout_def Let_def)
  ultimately show ?thesis using d by (intro exI [of _ ?ts]) (simp add: distinct_filter_keys)
qed

lemma ticks_showMsg [simp]: "page_wf p \<Longrightarrow> ticks (showMsg s b p) = ticks p"
  using showMsg_timers [of p s b] by (auto simp: ticks_def is_tick_def)

lemma page_wf_showMsg [simp]:
  assumes "page_wf p"
  shows "page_wf (showMsg s b p)"
proof -
  obtain ts where ts: "timers (showMsg s b p) = ts @ [(nextTimer p, clock p + 5000, ClearMessage)]"
    "set ts \<subseteq> set (timers p)" "distinct (map fst ts)" "filter (\<lambda>e. \<not> is_tick e) ts = []"
    using showMsg_timers [OF assms] by blast
  have n: "nextTimer (showMsg s b p) = nextTimer p + 1" "msgTimer (showMsg s b p) = Some (nextTimer p)"
    by (simp_all add: showMsg_def setTimeout_def clearTimeout_def Let_def split: option.split)
  have c: "clears (showMsg s b p) = [(nextTimer p, clock p + 5000, ClearMessage)]"
    using ts by (simp add: clears_def is_tick_def)
  have lt: "\<forall>e \<in> set ts. fst e < nextTimer p" using assms ts(2) by (auto simp: page_wf_def)
  have "nextTimer p \<notin> fst ` set ts" using lt by fastforce
  with ts(3) have "distinct (map fst (timers (showMsg s b p)))" by (simp add: ts(1))
  moreover have "\<forall>e \<in> set (timers (showMsg s b p)). fst e < nextTimer p + 1"
    using lt by (auto simp: ts(1))
  moreover have "message_wf (showMsg s b p)" by (simp add: message_wf_def n c)
  moreover have "\<forall>t. syncPollTimer p = Some t \<longrightarrow> t < nextTimer p"
    using assms by (simp add: page_wf_def)
  ultimately show ?thesis using assms by (fastforce simp: page_wf_def n c)
qed

lemma page_wf_arm:
  assumes "page_wf p"
  shows "page_wf ((setTimeout (Tick a e) ms p)\<lparr>syncPollTimer := Some (nextTimer p)\<rparr>)"
  using assms
  by (fastforce simp: page_wf_def message_wf_def clears_def setTimeout_def is_tick_def
      split: option.splits)

lemma page_wf_rearm [simp]: "page_wf p \<Longrightarrow> page_wf (rearm a e p)"
  by (simp add: rearm_def page_wf_arm)

lemma page_wf_clear_tick:
  assumes "page_wf p" "syncPollTimer p = Some t"
  shows "page_wf ((clearTimeout t p)\<lparr>syncPollTimer := None\<rparr>)"
proof -
  let ?ts = "filter (\<lambda>e. fst e \<noteq> t) (timers p)"
  have "filter (\<lambda>e. \<not> is_tick e) ?ts = filter (\<lambda>e. fst e \<noteq> t) (clears p)"
    by (simp add: clears_def conj_commute)
  also have "\<dots> = clears p" using assms by (intro filter_True) (auto simp: page_wf_def)
  finally have "clears ((clearTimeout t p)\<lparr>syncPollTimer := None\<rparr>) = clears p"
    by (simp add: clears_def clearTimeout_def)
  note c = this
  have "message_wf ((clearTimeout t p)\<lparr>syncPollTimer := None\<rparr>)"
    using assms by (intro message_wf_cong [OF _ _ _ _ c]) (simp_all add: page_wf_def clearTimeout_def)
  with assms c show ?thesis
    by (simp add: page_wf_def clearTimeout_def distinct_filter_keys)
qed

lemma page_wf_poll [simp]: "page_wf p \<Longrightarrow> page_wf (pollSyncStatus p)"
proof (cases "syncPollTimer p")
  case None
  assume "page_wf p"
  from page_wf_arm [OF this] None show ?thesis by (simp add: pollSyncStatus_def Let_def)
next
  case (Some t)
  assume "page_wf p"
  from page_wf_arm [OF page_wf_clear_tick [OF this Some]] Some show ?thesis
    by (simp add: pollSyncStatus_def Let_def)
qed

lemma ticks_rearm [simp]:
  "ticks (rearm s e p) = ticks p @ [(nextTimer p, clock p + 5000, Tick s e)]"
  by (simp add: ticks_def rearm_def setTimeout_def is_tick_def)

lemma ticks_poll:
  "\<exists>ts. ticks (pollSyncStatus p) = ts @ [(nextTimer p, clock p + 2000, Tick (clock p) 0)] \<and>
     ts = (case syncPollTimer p of None \<Rightarrow> ticks p | Some t \<Rightarrow> filter (\<lambda>e. fst e \<noteq> t) (ticks p))"
  by (auto simp: ticks_def pollSyncStatus_def setTimeout_def clearTimeout_def Let_def is_tick_def
      conj_commute split: option.split)

section \<open>Every event keeps the page well formed\<close>

lemma find_timer:
  "find_key fst t ts = Some e \<Longrightarrow> e \<in> set ts \<and> t = fst e"
  using find_key_Some by fastforce

lemma page_wf_fired_tick:
  assumes "page_wf p" "e \<in> set (timers p)" "is_tick e"
  shows "page_wf (p\<lparr>timers := delete_key fst (fst e) (timers p)\<rparr>)"
proof -
  let ?q = "p\<lparr>timers := delete_key fst (fst e) (timers p)\<rparr>"
  have "distinct (map fst (timers p))" using assms by (simp add: page_wf_def)
  from filter_other_key [OF this assms(2), of "\<lambda>e. \<not> is_tick e"] assms(3)
  have c: "clears ?q = clears p" by (simp add: clears_def delete_key_def)
  have "message_wf ?q"
    using assms by (intro message_wf_cong [OF _ _ _ _ c]) (simp_all add: page_wf_def)
  with assms c show ?thesis
    by (simp add: page_wf_def delete_key_def distinct_filter_keys)
qed

lemma page_wf_fired_clear:
  assumes "page_wf p" "e \<in> set (timers p)" "\<not> is_tick e"
  shows "page_wf (p\<lparr>timers := delete_key fst (fst e) (timers p), message := [], msgTimer := None\<rparr>)"
proof -
  let ?q = "p\<lparr>timers := delete_key fst (fst e) (timers p), message := [], msgTimer := None\<rparr>"
  have "e \<in> set (clears p)" using assms by (simp add: clears_def)
  with assms(1) have "clears p = [e]"
    by (auto simp: page_wf_def message_wf_def split: option.splits)
  moreover have "clears ?q = filter (\<lambda>x. fst x \<noteq> fst e) (clears p)"
    by (simp add: clears_def delete_key_def conj_commute)
  ultimately have "clears ?q = []" by simp
  with assms(1) show ?thesis
    by (simp add: page_wf_def message_wf_def delete_key_def distinct_filter_keys)
qed

lemma page_wf_tick: "page_wf p \<Longrightarrow> page_wf (tick s e p)"
  by (simp add: tick_def)

lemmas load_defs = loadReservations_def loadAlerts_def loadGPUCoverage_def resumeSyncIfRunning_def

lemma page_wf_loads [simp]:
  "page_wf p \<Longrightarrow> page_wf (loadReservations p)" "page_wf p \<Longrightarrow> page_wf (loadAlerts p)"
  "page_wf p \<Longrightarrow> page_wf (loadGPUCoverage p)" "page_wf p \<Longrightarrow> page_wf (resumeSyncIfRunning p)"
  by (simp_all add: load_defs)

lemmas response_splits = response.split sum.split option.split

lemma page_wf_continue: "page_wf p \<Longrightarrow> page_wf (continue br k res p)"
proof (cases k)
  case KMe
  assume "page_wf p"
  then show ?thesis
    by (simp add: KMe continue_def mounted_def me_answered_def me_failed_def split: response_splits)
next
  case KReservations
  assume "page_wf p"
  then show ?thesis
    by (simp add: KReservations continue_def reservations_loaded_def apiFetch_def split: response_splits)
next
  case KAlerts
  assume "page_wf p"
  then show ?thesis
    by (simp add: KAlerts continue_def alerts_loaded_def apiFetch_def split: response_splits)
next
  case KGPU
  assume "page_wf p"
  then show ?thesis
    by (simp add: KGPU continue_def gpu_loaded_def apiFetch_def split: response_splits)
next
  case KSync
  assume "page_wf p"
  then show ?thesis
    by (simp add: KSync continue_def sync_posted_def sync_failed_def split: response_splits)
next
  case (KStatus s e)
  assume "page_wf p"
  then show ?thesis
    by (simp add: KStatus continue_def status_answered_def status_failed_def sync_finished_def
        apiFetch_def Let_def split: response_splits)
next
  case KResume
  assume "page_wf p"
  then show ?thesis
    by (simp add: KResume continue_def resume_answered_def apiFetch_def split: response_splits)
next
  case KImport
  assume "page_wf p"
  then show ?thesis
    by (simp add: KImport continue_def import_answered_def apiFetch_def split: response_splits)
qed (simp add: continue_def logged_out_def)

lemma page_wf_step:
  assumes "page_wf p"
  shows "page_wf (page_step br ev p)"
proof (cases ev)
  case (Fire t)
  show ?thesis
  proof (cases "find_key fst t (timers p)")
    case (Some e)
    obtain due cb where e: "e = (t, due, cb)" "e \<in> set (timers p)"
      using find_timer [OF Some] by (cases e) auto
    show ?thesis
    proof (cases cb)
      case ClearMessage
      with e page_wf_fired_clear [OF assms e(2)] assms show ?thesis
        by (simp add: page_step_def Fire Some run_callback_def is_tick_def)
    next
      case (Tick a b)
      with e page_wf_fired_tick [OF assms e(2)] assms show ?thesis
        by (simp add: page_step_def Fire Some run_callback_def is_tick_def page_wf_tick)
    qed
  qed (simp add: page_step_def Fire assms)
qed (auto simp: page_step_def assms page_wf_clock page_wf_continue syncData_def logout_def exportCSV_def
    importFile_def split: option.split)

lemma page_wf_start: "page_wf (start_page t0)"
  by (simp add: start_page_def loadMe_def page_wf_def message_wf_def clears_def setup_page_def fetch_def)

lemma reachable_wf: "reachable br p \<Longrightarrow> page_wf p"
  by (induction rule: reachable.induct) (simp_all add: page_wf_start page_wf_step)

text \<open>
  C5. A message never stays: whenever the page shows one, exactly one timer that clears it
  is pending, due within five seconds, and when it fires the message is gone.
\<close>

theorem message_clears:
  assumes "reachable br p" and "message p \<noteq> []"
  shows "\<exists>t due. filter (\<lambda>e. snd (snd e) = ClearMessage) (timers p) = [(t, due, ClearMessage)] \<and>
    due \<le> clock p + 5000 \<and>
    (\<forall>ms. due \<le> clock p + int ms \<longrightarrow>
       message (page_step br (Fire t) (page_step br (Advance ms) p)) = [])"
proof -
  have wf: "page_wf p" using assms(1) by (rule reachable_wf)
  with assms(2) obtain m due where c: "clears p = [(m, due, ClearMessage)]" "due \<le> clock p + 5000"
    by (auto simp: page_wf_def message_wf_def split: option.splits)
  then have "(m, due, ClearMessage) \<in> set (timers p)" by (intro clears_timer)
  with wf have "find_key fst m (timers p) = Some (m, due, ClearMessage)"
    using find_key_mem [of fst "timers p" "(m, due, ClearMessage)"] by (simp add: page_wf_def)
  with c show ?thesis
    by (intro exI [of _ m] exI [of _ due]) (simp add: page_step_def run_callback_def clears_def is_tick_def)
qed

lemma message_clears_witness:
  "\<exists>t due. filter (\<lambda>e. snd (snd e) = ClearMessage) (timers (page_step undefined ClickSync (start_page 0)))
     = [(t, due, ClearMessage)] \<and> due \<le> 5000"
proof -
  have r: "reachable undefined (page_step undefined ClickSync (start_page 0))"
    by (intro reachable.intros)
  have c: "clock (page_step undefined ClickSync (start_page 0)) = 0"
    and m: "message (page_step undefined ClickSync (start_page 0)) \<noteq> []"
    by (simp_all add: page_step_def syncData_def start_page_def loadMe_def setup_page_def)
  from message_clears [OF r m] c show ?thesis by auto
qed

section \<open>The poller\<close>

fun sync_request :: "continuation \<Rightarrow> bool" where
  "sync_request KSync = True"
| "sync_request (KStatus s e) = True"
| "sync_request k = False"

definition sync_driver :: "page \<Rightarrow> bool" where
  "sync_driver p \<longleftrightarrow> ticks p \<noteq> [] \<or> (\<exists>e \<in> set (inFlight p). sync_request (snd e))"

lemma ticks_loads [simp]:
  "ticks (loadReservations p) = ticks p" "ticks (loadAlerts p) = ticks p"
  "ticks (loadGPUCoverage p) = ticks p" "ticks (resumeSyncIfRunning p) = ticks p"
  by (simp_all add: load_defs)

lemma ticks_poll_nonempty [simp]: "ticks (pollSyncStatus p) \<noteq> []"
  using ticks_poll [of p] by auto

text \<open>What an answer to any request but a synchronisation leaves of the poller.\<close>

definition poller_kept :: "page \<Rightarrow> page \<Rightarrow> bool" where
  "poller_kept p q \<longleftrightarrow> ticks q = ticks p \<and> syncRunning q = syncRunning p \<and> clock q = clock p \<and>
     (\<exists>fs. inFlight q = inFlight p @ fs \<and> (\<forall>e \<in> set fs. \<not> sync_request (snd e)))"

lemma poller_kept_continue:
  assumes "page_wf p" "\<not> sync_request k" "k \<noteq> KResume"
  shows "poller_kept p (continue br k res p)"
proof (cases k)
  case KMe
  with assms show ?thesis
    by (simp add: poller_kept_def continue_def mounted_def me_answered_def me_failed_def load_defs
        split: response_splits)
next
  case KReservations
  with assms show ?thesis
    by (simp add: poller_kept_def continue_def reservations_loaded_def apiFetch_def
        split: response_splits)
next
  case KAlerts
  with assms show ?thesis
    by (simp add: poller_kept_def continue_def alerts_loaded_def apiFetch_def split: response_splits)
next
  case KGPU
  with assms show ?thesis
    by (simp add: poller_kept_def continue_def gpu_loaded_def apiFetch_def split: response_splits)
next
  case KImport
  with assms show ?thesis
    by (simp add: poller_kept_def continue_def import_answered_def apiFetch_def load_defs
        split: response_splits)
qed (use assms in \<open>simp_all add: poller_kept_def continue_def logged_out_def\<close>)

lemma poller_kept_driver: "poller_kept p q \<Longrightarrow> sync_driver p \<Longrightarrow> sync_driver q"
  by (auto simp: poller_kept_def sync_driver_def)

lemma driver_sync_posted: "page_wf p \<Longrightarrow> syncRunning (sync_posted br res p) \<Longrightarrow> ticks (sync_posted br res p) \<noteq> []"
  by (auto simp: sync_posted_def sync_failed_def split: response.splits if_splits)

lemma driver_status_answered:
  "page_wf p \<Longrightarrow> syncRunning (status_answered br res s e p) \<longrightarrow> ticks (status_answered br res s e p) \<noteq> []"
  by (simp add: status_answered_def status_failed_def sync_finished_def apiFetch_def load_defs Let_def
      split: response_splits)

lemma driver_resume:
  assumes "page_wf p"
  shows "(poller_kept p (resume_answered br res p)) \<or> ticks (resume_answered br res p) \<noteq> []"
  using assms
  by (simp add: resume_answered_def poller_kept_def apiFetch_def split: response_splits)

lemma find_request: "find_key fst i es = Some e \<Longrightarrow> e \<in> set es \<and> i = fst e"
  using find_key_Some by fastforce

lemma driver_answer:
  assumes "page_wf p" "find_key fst i (inFlight p) = Some e" "\<not> sync_request (snd e)"
    "sync_driver p"
  shows "sync_driver (p\<lparr>inFlight := delete_key fst i (inFlight p)\<rparr>)"
proof (cases "ticks p \<noteq> []")
  case False
  with assms(4) obtain f where f: "f \<in> set (inFlight p)" "sync_request (snd f)"
    by (auto simp: sync_driver_def)
  have "distinct (map fst (inFlight p))" using assms(1) by (simp add: page_wf_def)
  with f assms(2,3) find_request [OF assms(2)] have "fst f \<noteq> i"
    by (metis eq_key_imp_eq_value prod.collapse)
  with f have "\<exists>e \<in> set (delete_key fst i (inFlight p)). sync_request (snd e)"
    by (intro bexI [of _ f]) (simp_all add: delete_key_def)
  then show ?thesis by (simp add: sync_driver_def)
qed (simp add: sync_driver_def)

definition spinner_wf :: "page \<Rightarrow> bool" where
  "spinner_wf p \<longleftrightarrow> page_wf p \<and> (syncRunning p \<longrightarrow> sync_driver p)"

lemma spinner_continue:
  assumes "page_wf p" "syncRunning p \<longrightarrow> sync_driver p \<or> sync_request k"
  shows "syncRunning (continue br k res p) \<longrightarrow> sync_driver (continue br k res p)"
proof (cases "sync_request k")
  case True
  then show ?thesis
    using driver_sync_posted [OF assms(1), of br res] driver_status_answered [OF assms(1), of br res]
    by (cases k) (auto simp: continue_def sync_driver_def)
next
  case False
  show ?thesis
  proof (cases "k = KResume")
    case True
    have c: "continue br k res p = resume_answered br res p" by (simp add: True continue_def)
    show ?thesis
      using driver_resume [OF assms(1), of br res]
    proof
      assume kept: "poller_kept p (resume_answered br res p)"
      then have "syncRunning (resume_answered br res p) = syncRunning p" by (simp add: poller_kept_def)
      with poller_kept_driver [OF kept] assms(2) False show ?thesis by (simp add: c)
    qed (simp add: c sync_driver_def)
  next
    case other: False
    have kept: "poller_kept p (continue br k res p)"
      using assms(1) False other by (rule poller_kept_continue)
    then have "syncRunning (continue br k res p) = syncRunning p" by (simp add: poller_kept_def)
    with poller_kept_driver [OF kept] assms(2) False show ?thesis by simp
  qed
qed

lemma driver_fired_clear:
  "page_wf p \<Longrightarrow> e \<in> set (timers p) \<Longrightarrow> \<not> is_tick e \<Longrightarrow>
   ticks (p\<lparr>timers := delete_key fst (fst e) (timers p), message := [], msgTimer := None\<rparr>) = ticks p"
  using filter_other_key [of "timers p" e is_tick]
  by (simp add: page_wf_def ticks_def delete_key_def)

lemma sync_driver_tick:
  "page_wf p \<Longrightarrow> syncRunning (tick s e p) \<Longrightarrow> sync_driver (tick s e p)"
  by (auto simp: tick_def sync_driver_def split: if_splits)

lemma spinner_step:
  assumes "spinner_wf p"
  shows "spinner_wf (page_step br ev p)"
proof -
  have wf: "page_wf p" and run: "syncRunning p \<longrightarrow> sync_driver p"
    using assms by (simp_all add: spinner_wf_def)
  have "syncRunning (page_step br ev p) \<longrightarrow> sync_driver (page_step br ev p)"
  proof (cases ev)
    case (Fire t)
    show ?thesis
    proof (cases "find_key fst t (timers p)")
      case (Some e)
      obtain due cb where e: "e = (t, due, cb)" "e \<in> set (timers p)"
        using find_timer [OF Some] by (cases e) auto
      show ?thesis
      proof (cases cb)
        case ClearMessage
        with e driver_fired_clear [OF wf e(2)] run show ?thesis
          by (simp add: page_step_def Fire Some run_callback_def is_tick_def sync_driver_def)
      next
        case (Tick a b)
        with e page_wf_fired_tick [OF wf e(2)] run show ?thesis
          by (auto simp: page_step_def Fire Some run_callback_def is_tick_def intro: sync_driver_tick)
      qed
    qed (use run in \<open>simp add: page_step_def Fire\<close>)
  next
    case (Deliver i res)
    show ?thesis
    proof (cases "find_key fst i (inFlight p)")
      case (Some e)
      let ?q = "p\<lparr>inFlight := delete_key fst i (inFlight p)\<rparr>"
      have "syncRunning ?q \<longrightarrow> sync_driver ?q \<or> sync_request (snd e)"
        using driver_answer [OF wf Some] run by auto
      from spinner_continue [OF page_wf_answered [OF wf] this, of br res]
      show ?thesis by (simp add: page_step_def Deliver Some case_prod_beta)
    qed (use run in \<open>simp add: page_step_def Deliver\<close>)
  qed (use wf run in \<open>auto simp: page_step_def sync_driver_def syncData_def logout_def exportCSV_def
      importFile_def load_defs\<close>)
  with wf show ?thesis by (simp add: spinner_wf_def page_wf_step)
qed

lemma reachable_spinner: "reachable br p \<Longrightarrow> spinner_wf p"
proof (induction rule: reachable.induct)
  case (start t0)
  then show ?case
    by (simp add: spinner_wf_def page_wf_start) (simp add: start_page_def loadMe_def setup_page_def)
qed (rule spinner_step)

text \<open>
  C4. The \<open>Syncing\<close> state of the button is never stuck: in every reachable state in which it
  is on, something is pending that will decide about it, a poller's timer, a status
  request or the request that starts the synchronisation.
\<close>

theorem spinner_has_driver:
  assumes "reachable br p" and "syncRunning p"
  shows "(\<exists>t due s e. (t, due, Tick s e) \<in> set (timers p)) \<or>
    (\<exists>i s e. (i, KStatus s e) \<in> set (inFlight p)) \<or> (\<exists>i. (i, KSync) \<in> set (inFlight p))"
proof -
  have "sync_driver p" using reachable_spinner [OF assms(1)] assms(2) by (simp add: spinner_wf_def)
  then consider e where "e \<in> set (timers p)" "is_tick e"
    | e where "e \<in> set (inFlight p)" "sync_request (snd e)"
    by (auto simp: sync_driver_def ticks_def filter_empty_conv)
  then show ?thesis
  proof cases
    case 1
    obtain t due cb where e: "e = (t, due, cb)" by (cases e)
    with 1 show ?thesis by (cases cb) (auto simp: is_tick_def)
  next
    case 2
    obtain i k where e: "e = (i, k)" by (cases e)
    with 2 show ?thesis by (cases k) auto
  qed
qed

lemma spinner_has_driver_witness:
  "(\<exists>i. (i, KSync) \<in> set (inFlight (page_step undefined ClickSync (start_page 0))))"
proof -
  have r: "reachable undefined (page_step undefined ClickSync (start_page 0))"
    by (intro reachable.intros)
  have "syncRunning (page_step undefined ClickSync (start_page 0))"
    by (simp add: page_step_def syncData_def start_page_def loadMe_def setup_page_def)
  from spinner_has_driver [OF r this] show ?thesis
    by (auto simp: page_step_def syncData_def start_page_def loadMe_def setup_page_def fetch_def
        showMsg_def setTimeout_def Let_def)
qed

text \<open>
  The work a page's pollers have left, counted in steps: a poller whose next tick is due
  at \<open>due\<close> can still send a status request every five seconds until ten minutes after its
  start, and each request is answered once.
\<close>

definition tick_rank :: "nat \<times> int \<times> callback \<Rightarrow> nat" where
  "tick_rank e =
     (case e of (_, due, ClearMessage) \<Rightarrow> 0
      | (_, due, Tick s _) \<Rightarrow>
          if due \<le> s + SYNC_POLL_TIMEOUT_MS
          then 2 * nat ((s + SYNC_POLL_TIMEOUT_MS - due) div 5000 + 1) + 3 else 1)"

definition request_rank :: "int \<Rightarrow> nat \<times> continuation \<Rightarrow> nat" where
  "request_rank now e =
     (case e of (_, KStatus s _) \<Rightarrow> 2 * nat ((s + SYNC_POLL_TIMEOUT_MS - now) div 5000 + 1) + 2 | _ \<Rightarrow> 0)"

definition poll_work :: "page \<Rightarrow> nat" where
  "poll_work p = sum_list (map tick_rank (ticks p)) + sum_list (map (request_rank (clock p)) (inFlight p))"

lemma sum_filter_le: "sum_list (map f (filter P xs)) \<le> (sum_list (map f xs) :: nat)"
  by (induction xs) auto

lemma sum_delete_key:
  "x \<in> set xs \<Longrightarrow> sum_list (map f (delete_key k (k x) xs)) + f x \<le> (sum_list (map f xs) :: nat)"
  unfolding delete_key_def
proof (induction xs)
  case (Cons y ys)
  then show ?case using sum_filter_le [of f "\<lambda>r. k r \<noteq> k x" ys] by auto
qed simp

lemma request_rank_mono: "c \<le> d \<Longrightarrow> request_rank d e \<le> request_rank c e"
proof -
  assume "c \<le> d"
  then have "(s + SYNC_POLL_TIMEOUT_MS - d) div 5000 \<le> (s + SYNC_POLL_TIMEOUT_MS - c) div 5000" for s
    by (intro zdiv_mono1) auto
  then show ?thesis
    by (auto simp: request_rank_def split: prod.split continuation.split intro!: nat_mono)
qed

lemma tick_rank_pos: "is_tick e \<Longrightarrow> 1 \<le> tick_rank e"
  by (auto simp: is_tick_def tick_rank_def split: prod.split callback.split)

lemma tick_to_request:
  assumes "due \<le> now" "now - s \<le> SYNC_POLL_TIMEOUT_MS"
  shows "request_rank now (i, KStatus s e) < tick_rank (t, due, Tick s e')"
proof -
  have "(s + SYNC_POLL_TIMEOUT_MS - now) div 5000 \<le> (s + SYNC_POLL_TIMEOUT_MS - due) div 5000"
    using assms by (intro zdiv_mono1) auto
  moreover have "0 \<le> (s + SYNC_POLL_TIMEOUT_MS - now) div 5000"
    using assms by (intro div_int_pos_iff [THEN iffD2]) auto
  ultimately show ?thesis using assms by (simp add: request_rank_def tick_rank_def)
qed

lemma request_to_tick: "tick_rank (t, now + 5000, Tick s e') < request_rank now (i, KStatus s e)"
proof -
  have "(s + SYNC_POLL_TIMEOUT_MS - (now + 5000)) div 5000 = (s + SYNC_POLL_TIMEOUT_MS - now) div 5000 - 1"
    by (simp add: diff_add_eq_diff_diff_swap div_diff diff_diff_eq [symmetric])
  moreover have "0 \<le> (s + SYNC_POLL_TIMEOUT_MS - now) div 5000" if "now + 5000 \<le> s + SYNC_POLL_TIMEOUT_MS"
    using that by (intro div_int_pos_iff [THEN iffD2]) auto
  ultimately show ?thesis by (auto simp: request_rank_def tick_rank_def nat_add_distrib)
qed

lemma poll_work_same:
  "ticks q = ticks p \<Longrightarrow> inFlight q = inFlight p \<Longrightarrow> clock q = clock p \<Longrightarrow> poll_work q = poll_work p"
  by (simp add: poll_work_def)

lemma request_rank_other: "\<not> sync_request (snd e) \<Longrightarrow> request_rank c e = 0"
  by (cases e rule: prod.exhaust, cases "snd e") (auto simp: request_rank_def split: continuation.split)

lemma poll_work_kept: "poller_kept p q \<Longrightarrow> poll_work q = poll_work p"
  by (auto simp: poller_kept_def poll_work_def request_rank_other)

lemma poll_work_fetch:
  "poll_work (fetch m u k p) = poll_work p + request_rank (clock p) (nextFetch p, k)"
  by (simp add: poll_work_def)

lemma poll_work_rearm:
  "poll_work (rearm s e p) = poll_work p + tick_rank (nextTimer p, clock p + 5000, Tick s e)"
  by (simp add: poll_work_def)

lemma poll_work_poll: "poll_work (pollSyncStatus p) \<le> poll_work p + 243"
proof -
  obtain ts where ts: "ticks (pollSyncStatus p) = ts @ [(nextTimer p, clock p + 2000, Tick (clock p) 0)]"
    "ts = (case syncPollTimer p of None \<Rightarrow> ticks p | Some t \<Rightarrow> filter (\<lambda>e. fst e \<noteq> t) (ticks p))"
    using ticks_poll by blast
  have "sum_list (map tick_rank ts) \<le> sum_list (map tick_rank (ticks p))"
    by (simp add: ts(2) sum_filter_le split: option.split)
  moreover have "tick_rank (nextTimer p, clock p + 2000, Tick (clock p) 0) = 243"
    by (simp add: tick_rank_def SYNC_POLL_TIMEOUT_MS_def)
  ultimately show ?thesis by (simp add: poll_work_def ts(1))
qed

lemma poll_work_data [simp]:
  "poll_work (p\<lparr>syncRunning := b\<rparr>) = poll_work p" "poll_work (p\<lparr>syncPollTimer := t\<rparr>) = poll_work p"
  "poll_work (set_controls g p) = poll_work p"
  "poll_work (p\<lparr>reservationSort := st\<rparr>) = poll_work p" "poll_work (p\<lparr>gpuSort := st\<rparr>) = poll_work p"
  "poll_work (redirectToLogin br p) = poll_work p"
  "page_wf p \<Longrightarrow> poll_work (showMsg s b p) = poll_work p"
  "poll_work (loadReservations p) = poll_work p" "poll_work (loadAlerts p) = poll_work p"
  "poll_work (loadGPUCoverage p) = poll_work p"
  by (simp_all add: poll_work_def load_defs request_rank_def)

lemma ticks_delete:
  "ticks (p\<lparr>timers := delete_key fst t (timers p)\<rparr>) = delete_key fst t (ticks p)"
  by (simp add: ticks_def delete_key_def conj_commute)

lemma poll_work_fired:
  assumes "e \<in> set (timers p)" "is_tick e"
  shows "poll_work (p\<lparr>timers := delete_key fst (fst e) (timers p)\<rparr>) + tick_rank e \<le> poll_work p"
proof -
  have "e \<in> set (ticks p)" using assms by (simp add: ticks_def)
  from sum_delete_key [OF this, of tick_rank fst] show ?thesis
    by (simp add: poll_work_def ticks_delete)
qed

lemma poll_work_answered:
  assumes "e \<in> set (inFlight p)"
  shows "poll_work (p\<lparr>inFlight := delete_key fst (fst e) (inFlight p)\<rparr>) + request_rank (clock p) e \<le> poll_work p"
  using sum_delete_key [OF assms, of "request_rank (clock p)" fst] by (simp add: poll_work_def)

lemma poll_work_tick:
  assumes "page_wf p" "(t, due, Tick s e) \<in> set (timers p)" "due \<le> clock p"
  shows "poll_work (tick s e (p\<lparr>timers := delete_key fst t (timers p)\<rparr>)) < poll_work p"
proof -
  let ?e = "(t, due, Tick s e)" and ?q = "p\<lparr>timers := delete_key fst t (timers p)\<rparr>"
  have k: "is_tick ?e" by (simp add: is_tick_def)
  have le: "poll_work ?q + tick_rank ?e \<le> poll_work p"
    using poll_work_fired [OF assms(2) k] by simp
  have wf: "page_wf ?q" using page_wf_fired_tick [OF assms(1,2) k] by simp
  show ?thesis
  proof (cases "clock p - s > SYNC_POLL_TIMEOUT_MS")
    case True
    with wf have "poll_work (tick s e ?q) = poll_work ?q" by (simp add: tick_def)
    with le tick_rank_pos [OF k] show ?thesis by linarith
  next
    case False
    then have "request_rank (clock p) (nextFetch p, KStatus s e) < tick_rank ?e"
      using assms(3) by (intro tick_to_request) auto
    with False le show ?thesis by (simp add: tick_def poll_work_fetch)
  qed
qed

lemma poll_work_status:
  assumes "page_wf p"
  shows "poll_work (status_answered br res s e p) < poll_work p + request_rank (clock p) (i, KStatus s e)"
proof -
  have pos: "0 < request_rank (clock p) (i, KStatus s e)" by (simp add: request_rank_def)
  show ?thesis
    using assms pos
    by (simp add: status_answered_def status_failed_def sync_finished_def apiFetch_def Let_def
        poll_work_rearm request_to_tick split: response_splits)
qed

lemma find_mem: "distinct (map fst es) \<Longrightarrow> (i, k) \<in> set es \<Longrightarrow> find_key fst i es = Some (i, k)"
  using find_key_mem [of fst es "(i, k)"] by simp

lemma poll_work_other:
  assumes "page_wf p"
    and "\<And>i res e. ev = Deliver i res \<Longrightarrow> find_key fst i (inFlight p) = Some e \<Longrightarrow> snd e \<noteq> KSync \<and> snd e \<noteq> KResume"
  shows "poll_work (page_step br ev p) \<le> poll_work p"
proof (cases ev)
  case (Advance ms)
  have "sum_list (map (request_rank (clock p + int ms)) es) \<le> sum_list (map (request_rank (clock p)) es)" for es
    by (rule sum_list_mono) (simp add: request_rank_mono)
  then show ?thesis by (simp add: page_step_def Advance poll_work_def)
next
  case (Fire t)
  show ?thesis
  proof (cases "find_key fst t (timers p)")
    case (Some x)
    obtain due cb where x: "x = (t, due, cb)" "x \<in> set (timers p)"
      using find_timer [OF Some] by (cases x) auto
    show ?thesis
    proof (cases cb)
      case ClearMessage
      with x driver_fired_clear [OF assms(1) x(2)] show ?thesis
        by (auto simp: page_step_def Fire Some run_callback_def is_tick_def poll_work_def)
    next
      case (Tick a b)
      have "due \<le> clock p \<Longrightarrow>
          poll_work (tick a b (p\<lparr>timers := delete_key fst t (timers p)\<rparr>)) < poll_work p"
        using poll_work_tick [OF assms(1), of t due a b] x Tick by simp
      with x Tick show ?thesis
        by (auto simp: page_step_def Fire Some run_callback_def dest: less_imp_le)
    qed
  qed (simp add: page_step_def Fire)
next
  case (Deliver i res)
  show ?thesis
  proof (cases "find_key fst i (inFlight p)")
    case (Some x)
    obtain k where x: "x = (i, k)" "x \<in> set (inFlight p)"
      using find_request [OF Some] by (cases x) auto
    let ?q = "p\<lparr>inFlight := delete_key fst i (inFlight p)\<rparr>"
    have le: "poll_work ?q + request_rank (clock p) x \<le> poll_work p"
      using poll_work_answered [OF x(2)] x(1) by simp
    have wf: "page_wf ?q" using assms(1) by simp
    have k: "k \<noteq> KSync" "k \<noteq> KResume" using assms(2) [OF Deliver Some] x(1) by auto
    have "poll_work (continue br k res ?q) \<le> poll_work ?q + request_rank (clock p) x"
    proof (cases "sync_request k")
      case True
      with k obtain s e where ks: "k = KStatus s e" by (cases k) auto
      from poll_work_status [OF wf, of br res s e i] show ?thesis
        by (simp add: ks continue_def x(1))
    next
      case False
      from poll_work_kept [OF poller_kept_continue [OF wf False k(2)]] show ?thesis by simp
    qed
    with le show ?thesis by (simp add: page_step_def Deliver Some x(1))
  qed (simp add: page_step_def Deliver)
qed (use assms(1) in \<open>auto simp: page_step_def syncData_def logout_def exportCSV_def importFile_def
    poll_work_fetch request_rank_def, simp add: poll_work_def\<close>)

lemma fold_reachable: "reachable br p \<Longrightarrow> reachable br (fold (page_step br) evs p)"
  by (induction evs arbitrary: p) (simp_all add: reachable.step)

lemma poll_work_started:
  assumes "page_wf p" "find_key fst i (inFlight p) = Some x" "snd x = KSync \<or> snd x = KResume"
  shows "poll_work (page_step br (Deliver i res) p) \<le> poll_work p + 243"
proof -
  let ?q = "p\<lparr>inFlight := delete_key fst i (inFlight p)\<rparr>"
  have x: "x \<in> set (inFlight p)" "fst x = i" using find_request [OF assms(2)] by simp_all
  then have le: "poll_work ?q \<le> poll_work p" using poll_work_answered [OF x(1)] by simp
  have wf: "page_wf ?q" using assms(1) by simp
  have "poll_work (sync_posted br res ?q) \<le> poll_work ?q + 243"
    using wf poll_work_poll [of ?q] poll_work_poll [of "redirectToLogin br ?q"]
    by (simp add: sync_posted_def sync_failed_def split: response.split)
  moreover have "poll_work (pollSyncStatus (showMsg s False (?q\<lparr>syncRunning := True\<rparr>))) \<le> poll_work ?q + 243" for s
    using poll_work_poll [of "showMsg s False (?q\<lparr>syncRunning := True\<rparr>)"] wf by simp
  then have "poll_work (resume_answered br res ?q) \<le> poll_work ?q + 243"
    by (simp add: resume_answered_def apiFetch_def split: response_splits)
  ultimately have "poll_work (continue br (snd x) res ?q) \<le> poll_work ?q + 243"
    using assms(3) by (auto simp: continue_def)
  with le assms(2) show ?thesis by (simp add: page_step_def case_prod_beta)
qed

lemma poll_work_any:
  assumes "page_wf p"
  shows "poll_work (page_step br ev p) \<le> poll_work p + 243"
proof (cases "\<exists>i res x. ev = Deliver i res \<and> find_key fst i (inFlight p) = Some x \<and> (snd x = KSync \<or> snd x = KResume)")
  case True
  with poll_work_started [OF assms] show ?thesis by blast
next
  case False
  then have "poll_work (page_step br ev p) \<le> poll_work p" by (intro poll_work_other [OF assms]) blast
  then show ?thesis by simp
qed

text \<open>
  C3. Polling ends. The pollers' remaining work, a natural number, drops with every tick that
  fires and every status answer that arrives, whatever the answers say; no user action
  and no other answer adds to it, except that the answer to the request that starts a synchronisation and
  the answer that finds one running when the page is loaded start a poller, which adds at most 243.
\<close>

theorem poll_work_decreases:
  assumes "reachable br p"
  shows "(\<forall>t due s e. (t, due, Tick s e) \<in> set (timers p) \<and> due \<le> clock p \<longrightarrow>
      poll_work (page_step br (Fire t) p) < poll_work p) \<and>
    (\<forall>i s e res. (i, KStatus s e) \<in> set (inFlight p) \<longrightarrow>
      poll_work (page_step br (Deliver i res) p) < poll_work p) \<and>
    (\<forall>ev. (\<forall>i res x. ev = Deliver i res \<longrightarrow> find_key fst i (inFlight p) = Some x \<longrightarrow>
        snd x \<noteq> KSync \<and> snd x \<noteq> KResume) \<longrightarrow>
      poll_work (page_step br ev p) \<le> poll_work p) \<and>
    (\<forall>ev. poll_work (page_step br ev p) \<le> poll_work p + 243)"
proof -
  have wf: "page_wf p" using assms by (rule reachable_wf)
  then have d: "distinct (map fst (timers p))" "distinct (map fst (inFlight p))"
    by (simp_all add: page_wf_def)
  have "poll_work (page_step br (Fire t) p) < poll_work p"
    if "(t, due, Tick s e) \<in> set (timers p)" "due \<le> clock p" for t due s e
    using find_mem [OF d(1) that(1)] poll_work_tick [OF wf that] that
    by (simp add: page_step_def run_callback_def)
  moreover have "poll_work (page_step br (Deliver i res) p) < poll_work p"
    if "(i, KStatus s e) \<in> set (inFlight p)" for i s e res
  proof -
    let ?q = "p\<lparr>inFlight := delete_key fst i (inFlight p)\<rparr>"
    have "poll_work (status_answered br res s e ?q) < poll_work ?q + request_rank (clock p) (i, KStatus s e)"
      using poll_work_status [of ?q br res s e i] wf by simp
    also have "\<dots> \<le> poll_work p" using poll_work_answered [OF that] by simp
    finally show ?thesis
      using find_mem [OF d(2) that] by (simp add: page_step_def continue_def)
  qed
  moreover have "poll_work (page_step br ev p) \<le> poll_work p"
    if "\<forall>i res x. ev = Deliver i res \<longrightarrow> find_key fst i (inFlight p) = Some x \<longrightarrow>
        snd x \<noteq> KSync \<and> snd x \<noteq> KResume" for ev
    by (rule poll_work_other [OF wf]) (use that in blast)
  ultimately show ?thesis using poll_work_any [OF wf] by blast
qed

text \<open>
  A poller is started by the answer to a click, its first tick fires, and the status it asks for
  arrives: its work is 243, then 242, then 241 steps.
\<close>

definition polling_page :: "event list \<Rightarrow> page" where
  "polling_page evs =
     fold (page_step undefined) (ClickSync # evs) (start_page 0)"

definition poll_started :: event where "poll_started = Deliver 1 (Response 202 (Inr (JObject [] [])))"

definition still_running :: event where
  "still_running = Deliver 2 (Response 200 (Inr (JObject [(''running'', Bool True)] [])))"

lemma polling_page_reachable: "reachable undefined (polling_page evs)"
  unfolding polling_page_def by (rule fold_reachable [OF reachable.start])

lemmas polling_run = polling_page_def poll_started_def page_step_def start_page_def loadMe_def setup_page_def
  fetch_def continue_def syncData_def showMsg_def setTimeout_def clearTimeout_def sync_posted_def
  pollSyncStatus_def run_callback_def tick_def SYNC_POLL_TIMEOUT_MS_def delete_key_def Let_def

lemma polling_states:
  "inFlight (polling_page []) = [(0, KMe), (1, KSync)]"
  "timers (polling_page [poll_started, Advance 2000]) = [(1, 5000, ClearMessage), (2, 2000, Tick 0 0)]"
  "clock (polling_page [poll_started, Advance 2000]) = 2000"
  "inFlight (polling_page [poll_started, Advance 2000, Fire 2]) = [(0, KMe), (2, KStatus 0 0)]"
  by (simp_all add: polling_run)

lemma polling_work:
  "poll_work (polling_page []) = 0" "poll_work (polling_page [poll_started]) = 243"
  "poll_work (polling_page [poll_started, Advance 2000, Fire 2]) = 242"
  "poll_work (polling_page [poll_started, Advance 2000, Fire 2, still_running]) = 241"
  by (simp_all add: polling_run still_running_def status_answered_def apiFetch_def response_ok_def
      body_prop_def get_prop_def field_truthy_def rearm_def poll_work_def ticks_def is_tick_def
      tick_rank_def request_rank_def)

lemma polling_page_step: "page_step undefined ev (polling_page evs) = polling_page (evs @ [ev])"
  by (simp add: polling_page_def)

lemma poll_work_decreases_witness:
  "poll_work (polling_page [poll_started]) \<le> poll_work (polling_page []) + 243 \<and>
   poll_work (polling_page [poll_started, Advance 2000]) \<le> poll_work (polling_page [poll_started]) \<and>
   poll_work (polling_page [poll_started, Advance 2000, Fire 2]) < poll_work (polling_page [poll_started, Advance 2000]) \<and>
   poll_work (polling_page [poll_started, Advance 2000, Fire 2, still_running]) <
     poll_work (polling_page [poll_started, Advance 2000, Fire 2])"
proof -
  note work = poll_work_decreases [OF polling_page_reachable, unfolded polling_page_step]
  have "poll_work (polling_page [poll_started]) \<le> poll_work (polling_page []) + 243"
    using work [of "[]"] by simp
  moreover have "poll_work (polling_page [poll_started, Advance 2000]) \<le> poll_work (polling_page [poll_started])"
    using work [of "[poll_started]"] by simp
  moreover have "poll_work (polling_page [poll_started, Advance 2000, Fire 2]) <
      poll_work (polling_page [poll_started, Advance 2000])"
    using work [of "[poll_started, Advance 2000]"] by (simp add: polling_states)
  moreover have "poll_work (polling_page [poll_started, Advance 2000, Fire 2, still_running]) <
      poll_work (polling_page [poll_started, Advance 2000, Fire 2])"
    using work [of "[poll_started, Advance 2000, Fire 2]"] by (simp add: polling_states still_running_def)
  ultimately show ?thesis by blast
qed

definition two_pollers_trace :: "event list" where
  "two_pollers_trace =
     [Deliver 0 (Response 200 (Inr (JObject [(''auth_enabled'', Bool False)] []))),
      ClickSync,
      Deliver 3 (Response 200 (Inr (JObject [(''running'', Bool True)] []))),
      Advance 2000, Fire 3,
      Deliver 4 (Response 202 (Inr (JObject [] []))),
      Advance 2000, Fire 4]"

lemma two_pollers_run:
  "inFlight (fold (page_step br) two_pollers_trace (start_page 0)) =
     [(1, KReservations), (2, KGPU), (5, KStatus 0 0), (6, KStatus 2000 0)]"
  by (simp add: two_pollers_trace_def page_step_def start_page_def loadMe_def setup_page_def fetch_def
      continue_def mounted_def me_answered_def body_prop_def get_prop_def load_defs syncData_def
      showMsg_def setTimeout_def clearTimeout_def resume_answered_def apiFetch_def response_ok_def
      field_truthy_def pollSyncStatus_def run_callback_def tick_def SYNC_POLL_TIMEOUT_MS_def
      sync_posted_def delete_key_def Let_def)

text \<open>
  C40. The guard of \<open>resumeSyncIfRunning\<close> does not prevent a second poller: when the user
  starts a synchronisation before the status request sent on loading is answered, and
  that answer says one is running, there is a reachable state with two pollers, each
  with a status request out.
\<close>

theorem two_pollers_reachable:
  "\<exists>p. reachable br p \<and> (\<exists>i s j t. i \<noteq> j \<and> s \<noteq> t \<and> (i, KStatus s 0) \<in> set (inFlight p) \<and>
     (j, KStatus t 0) \<in> set (inFlight p))"
proof -
  let ?p = "fold (page_step br) two_pollers_trace (start_page 0)"
  have "reachable br ?p" by (rule fold_reachable [OF reachable.start])
  moreover have "(5, KStatus 0 0) \<in> set (inFlight ?p)" "(6, KStatus 2000 0) \<in> set (inFlight ?p)"
    by (simp_all add: two_pollers_run)
  moreover have "(5 :: nat) \<noteq> 6" "(0 :: int) \<noteq> 2000" by simp_all
  ultimately show ?thesis by blast
qed

section \<open>Sessions\<close>

definition page_location :: "browser \<Rightarrow> string" where
  "page_location br = locationPath br @ locationSearch br"

text \<open>The query of the login page a request's 401 leads to, and the poller's timer it sets again.\<close>

definition login_query :: "browser \<Rightarrow> continuation \<Rightarrow> string" where
  "login_query br k = (if k = KLogout then [] else ''?next='' @ encodeURIComponent (page_location br))"

definition retried :: "page \<Rightarrow> continuation \<Rightarrow> (nat \<times> int \<times> callback) list" where
  "retried p k =
     (case k of
        KStatus s e \<Rightarrow> if e + 1 < 3 then [(nextTimer p, clock p + 5000, Tick s (e + 1))] else []
      | _ \<Rightarrow> [])"

lemma unauthorized_continue:
  assumes "page_wf p"
  shows "navigations (continue br k (Response 401 body) p) = navigations p @ [''/login.html'' @ login_query br k] \<and>
    sent (continue br k (Response 401 body) p) = sent p \<and>
    inFlight (continue br k (Response 401 body) p) = inFlight p \<and>
    ticks (continue br k (Response 401 body) p) = ticks p @ retried p k"
  using assms
  by (cases k)
    (simp_all add: login_query_def retried_def continue_def mounted_def me_answered_def logged_out_def
      reservations_loaded_def alerts_loaded_def gpu_loaded_def sync_posted_def sync_failed_def
      status_answered_def status_failed_def resume_answered_def import_answered_def apiFetch_def
      SYNC_POLL_MAX_CONSECUTIVE_ERRS_def redirectToLogin_def page_location_def Let_def)

lemma login_from_query:
  assumes "\<forall>s. (\<forall>c \<in> set s. code c < 128) \<longrightarrow> utf8 s = s" "\<forall>c \<in> set (page_location br). code c < 128"
    "has_prefix ''/'' (page_location br)" "\<not> has_prefix ''//'' (page_location br)" "response_ok status"
  shows "lpLocation (submit_answered env te utf8 (login_query br k) (Response status b) lp) =
    Some (if k = KLogout then ''/'' else page_location br)"
proof (cases "k = KLogout")
  case True
  have "search_get utf8 [] ''next'' = None" by (simp add: search_get_def)
  with True assms(5) show ?thesis by (simp add: login_query_def submit_answered_def next_target_def)
next
  case False
  then have "login_query br k = ''?next='' @ encodeURIComponent (page_location br)"
    by (simp only: login_query_def if_False)
  then show ?thesis using False assms by (simp only: if_False) (intro login_next_roundtrip, auto)
qed

text \<open>
  C6. Whatever the page was doing, a 401 to the request it waits for makes it open the login page, once,
  and it sends no request in that step. The timers of the pollers stay, and only the status
  request of a poller sets one more, five seconds ahead, unless it was the third failure in a row: should the
  browser not have left the page by then, that poller asks again. A successful login on the login page
  then opens the location the user was at, for any location that is a path of this host in ASCII, as a
  browser's is; after the request that signs the user out it opens the start page.
\<close>

theorem unauthorized_redirects:
  assumes "reachable br p" and "find_key fst i (inFlight p) = Some (i, k)"
    and "q = page_step br (Deliver i (Response 401 body)) p"
  shows "\<exists>search. navigations q = navigations p @ [''/login.html'' @ search] \<and>
    sent q = sent p \<and> inFlight q = delete_key fst i (inFlight p) \<and>
    filter is_tick (timers q) = filter is_tick (timers p) @
      (case k of KStatus s e \<Rightarrow> if e + 1 < 3 then [(nextTimer p, clock p + 5000, Tick s (e + 1))] else []
       | _ \<Rightarrow> []) \<and>
    (\<forall>env te utf8 status b lp. (\<forall>s. (\<forall>c \<in> set s. code c < 128) \<longrightarrow> utf8 s = s) \<longrightarrow>
       (\<forall>c \<in> set (page_location br). code c < 128) \<longrightarrow> has_prefix ''/'' (page_location br) \<longrightarrow>
       \<not> has_prefix ''//'' (page_location br) \<longrightarrow> response_ok status \<longrightarrow>
       lpLocation (submit_answered env te utf8 search (Response status b) lp) =
         Some (if k = KLogout then ''/'' else page_location br))"
proof -
  let ?p = "p\<lparr>inFlight := delete_key fst i (inFlight p)\<rparr>"
  have "page_wf ?p" using reachable_wf [OF assms(1)] by simp
  from unauthorized_continue [OF this, of br k body] assms(2)
  have "navigations q = navigations p @ [''/login.html'' @ login_query br k] \<and> sent q = sent p \<and>
      inFlight q = delete_key fst i (inFlight p) \<and> ticks q = ticks p @ retried p k"
    by (cases k) (simp_all add: assms(3) page_step_def retried_def)
  then show ?thesis
    using login_from_query [of _ br] unfolding ticks_def retried_def by blast
qed

definition sample_browser :: browser where
  "sample_browser = \<lparr>engine = undefined, typeErrorText = [], locationPath = ''/'', locationSearch = ''?a=b''\<rparr>"

lemma unauthorized_redirects_witness:
  "\<exists>search. navigations (page_step sample_browser (Deliver 0 (Response 401 (Inl []))) (start_page 0)) =
      [''/login.html'' @ search] \<and>
    sent (page_step sample_browser (Deliver 0 (Response 401 (Inl []))) (start_page 0)) = [(''GET'', ''/api/me'')] \<and>
    inFlight (page_step sample_browser (Deliver 0 (Response 401 (Inl []))) (start_page 0)) = [] \<and>
    lpLocation (submit_answered undefined [] id search (Response 200 (Inl [])) initial_login) = Some ''/?a=b''"
proof -
  have find: "find_key fst 0 (inFlight (start_page 0)) = Some (0, KMe)"
    and start: "navigations (start_page 0) = []" "sent (start_page 0) = [(''GET'', ''/api/me'')]"
      "delete_key fst 0 (inFlight (start_page 0)) = []"
    by (simp_all add: start_page_def loadMe_def setup_page_def fetch_def delete_key_def)
  have loc: "page_location sample_browser = ''/?a=b''" by (simp add: page_location_def sample_browser_def)
  have "\<forall>c \<in> set (page_location sample_browser). code c < 128" "has_prefix ''/'' (page_location sample_browser)"
    "\<not> has_prefix ''//'' (page_location sample_browser)" "response_ok 200"
    by (simp_all add: loc code_def response_ok_def)
  with unauthorized_redirects [OF reachable.start [of sample_browser 0] find refl, of "Inl []"] show ?thesis
    unfolding start by (auto simp: loc)
qed

text \<open>The events that come from the browser, not the user.\<close>

fun background :: "event \<Rightarrow> bool" where
  "background (Advance ms) = True"
| "background (Fire t) = True"
| "background (Deliver i res) = True"
| "background ev = False"

definition accepts :: "event \<Rightarrow> bool" where
  "accepts ev \<longleftrightarrow> (\<exists>i status body. ev = Deliver i (Response status (Inr body)) \<and> status \<noteq> 401)"

definition gated :: "page \<Rightarrow> bool" where
  "gated p \<longleftrightarrow> page_wf p \<and> sent p = [(''GET'', ''/api/me'')] \<and> ticks p = [] \<and>
     (\<forall>e \<in> set (inFlight p). snd e = KMe)"

lemma gated_step:
  assumes "gated p" "background ev" "\<not> accepts ev"
  shows "gated (page_step br ev p)"
proof -
  have wf: "page_wf p" using assms(1) by (simp add: gated_def)
  show ?thesis
  proof (cases ev)
    case (Advance ms)
    with assms(1) wf page_wf_clock [of p ms] show ?thesis by (simp add: page_step_def gated_def)
  next
    case (Fire t)
    show ?thesis
    proof (cases "find_key fst t (timers p)")
      case (Some x)
      obtain due cb where x: "x = (t, due, cb)" "x \<in> set (timers p)"
        using find_timer [OF Some] by (cases x) auto
      have "x \<notin> set (ticks p)" using assms(1) by (simp add: gated_def)
      with x have c: "\<not> is_tick x" by (simp add: ticks_def)
      then have "cb = ClearMessage" by (simp add: x(1) is_tick_def)
      with x driver_fired_clear [OF wf x(2) c] page_wf_fired_clear [OF wf x(2) c] assms(1) show ?thesis
        by (simp add: page_step_def Fire Some run_callback_def gated_def)
    qed (simp add: page_step_def Fire assms(1))
  next
    case (Deliver i res)
    show ?thesis
    proof (cases "find_key fst i (inFlight p)")
      case (Some x)
      have "x \<in> set (inFlight p)" using find_request [OF Some] by simp
      then have "snd x = KMe" using assms(1) by (simp add: gated_def)
      moreover have "\<forall>e \<in> set (delete_key fst i (inFlight p)). snd e = KMe"
        using assms(1) by (simp add: gated_def delete_key_def)
      moreover consider m where "res = NetworkError m" | b where "res = Response 401 b"
        | n e where "res = Response n (Inl e)"
      proof (cases res)
        case (Response n body)
        with assms(3) Deliver that show ?thesis by (cases body) (auto simp: accepts_def)
      qed
      then have "gated (mounted br res (p\<lparr>inFlight := delete_key fst i (inFlight p)\<rparr>))"
        using assms(1) wf calculation
        by cases (simp_all add: mounted_def me_answered_def me_failed_def gated_def)
      ultimately show ?thesis
        by (simp add: page_step_def Deliver Some case_prod_beta continue_def)
    qed (simp add: page_step_def Deliver assms(1))
  qed (use assms(2) in simp_all)
qed

lemma gated_run:
  "gated p \<Longrightarrow> \<forall>ev \<in> set evs. background ev \<and> \<not> accepts ev \<Longrightarrow> gated (fold (page_step br) evs p)"
  by (induction evs arbitrary: p) (simp_all add: gated_step)

text \<open>
  Loading is gated on a session: from the moment the page is mounted, and until the user
  acts, it requests nothing but \<^verbatim>\<open>/api/me\<close> unless that request was answered with a status
  other than 401 and a JSON body.
\<close>

theorem loading_gated:
  assumes "\<forall>ev \<in> set evs. background ev"
    and "sent (fold (page_step br) evs (start_page t0)) \<noteq> [(''GET'', ''/api/me'')]"
  shows "\<exists>i status body. Deliver i (Response status (Inr body)) \<in> set evs \<and> status \<noteq> 401"
proof (rule ccontr)
  assume no: "\<not> ?thesis"
  have "gated (start_page t0)"
    using page_wf_start [of t0]
    by (simp add: gated_def) (simp add: start_page_def loadMe_def setup_page_def fetch_def ticks_def)
  then have "gated (fold (page_step br) evs (start_page t0))"
    using no assms(1) by (intro gated_run) (auto simp: accepts_def)
  with assms(2) show False by (simp add: gated_def)
qed

lemma loading_gated_witness:
  "\<exists>i status body. Deliver i (Response status (Inr body)) \<in>
     set [Deliver 0 (Response 200 (Inr (JObject [] [])))] \<and> status \<noteq> 401"
  by (rule loading_gated [of _ undefined 0])
    (simp_all add: page_step_def start_page_def loadMe_def setup_page_def fetch_def continue_def
      mounted_def me_answered_def body_prop_def load_defs)

end
