(* ===== verification/Dashboard.thy ===== *)
theory Dashboard
  imports AppPage
begin

text \<open>
  The template of the dashboard, \<^verbatim>\<open>frontend/index.html\<close>, as a function from the state of the page to
  what is on the screen below the tabs: which of the blocks chosen by \<open>v-if\<close> is shown, and the texts of
  the cells of its table. An expression of the template that throws leaves the page without any
  block, \<open>None\<close>. The colours, the headings and the option lists are left out.
\<close>

datatype screen =
    LoadingNote
  | ReservationTable "string list list"
  | NoReservations
  | AlertItems "string list list"
  | NoAlerts
  | GpuTable "string list list"
  | NoInstances
  | EmptyTab

section \<open>Cells\<close>

text \<open>An interpolated value: nothing for \<open>null\<close> and \<open>undefined\<close>.\<close>

definition display :: "js_env \<Rightarrow> cell \<Rightarrow> string" where
  "display env v = (case v of Undef \<Rightarrow> [] | Null \<Rightarrow> [] | _ \<Rightarrow> js_String env v)"

text \<open>
  \<open>toUpperCase\<close> on ASCII letters, of which the types consist, and the method call, a \<open>TypeError\<close>
  unless the value is a string.
\<close>

definition js_upper :: "string \<Rightarrow> string" where
  "js_upper s = map (\<lambda>c. if 97 \<le> code c \<and> code c \<le> 122 then char_of (code c - 32) else c) s"

definition cell_upper :: "cell \<Rightarrow> string option" where
  "cell_upper v = (case v of Str s \<Rightarrow> Some (js_upper s) | _ \<Rightarrow> None)"

definition dollars :: "js_env \<Rightarrow> cell \<Rightarrow> string option" where
  "dollars env v =
     (if cell_less (Num (Fin 0)) v then map_option (\<lambda>s. ''$'' @ s) (cell_to_fixed env v 4) else Some ''-'')"

definition usage_text :: "js_env \<Rightarrow> row \<Rightarrow> string" where
  "usage_text env r =
     (let used = get_prop r ''used_count''; quantity = get_prop r ''quantity'' in
      if get_prop r ''type'' = Str ''odcr'' \<or> get_prop r ''type'' = Str ''cb''
      then display env used @ ''/'' @ display env quantity @ '' '' @
           (if cell_less used quantity then ''Idle'' else ''In Use'')
      else ''-'')"

text \<open>A lookup such as \<open>levelText(v)\<close>, for a value of any kind.\<close>

definition label_of :: "(string \<Rightarrow> string) \<Rightarrow> js_env \<Rightarrow> cell \<Rightarrow> string" where
  "label_of f env v = (case v of Str s \<Rightarrow> f s | _ \<Rightarrow> display env v)"

section \<open>Rows\<close>

definition reservation_line :: "js_env \<Rightarrow> int \<Rightarrow> row \<Rightarrow> string list option" where
  "reservation_line env now r = do {
     ty \<leftarrow> cell_upper (get_prop r ''type'');
     rate \<leftarrow> dollars env (get_prop r ''hourly_rate'');
     capacity \<leftarrow> formatCapacity env r;
     Some [display env (get_prop r ''account_alias''), display env (get_prop r ''account_id''),
           display env (get_prop r ''region''), ty, display env (get_prop r ''resource_id''),
           display env (get_prop r ''instance_type''), display env (get_prop r ''quantity''),
           rate, capacity, usage_text env r,
           formatDate env (get_prop r ''start_time''), formatDate env (get_prop r ''end_time''),
           daysDisplay env (daysUntil env (get_prop r ''end_time'') now),
           display env (get_prop r ''status'')]
   }"

definition alert_line :: "js_env \<Rightarrow> row \<Rightarrow> string list option" where
  "alert_line env a = do {
     ty \<leftarrow> cell_upper (get_prop a ''type'');
     Some [display env (get_prop a ''days_left'') @ ''d'', ty,
           display env (get_prop a ''instance_type''), display env (get_prop a ''account_alias''),
           display env (get_prop a ''resource_id''), display env (get_prop a ''region''),
           ''Expires '' @ formatDate env (get_prop a ''end_time''),
           label_of levelText env (get_prop a ''level'')]
   }"

definition gpu_line :: "js_env \<Rightarrow> row \<Rightarrow> string list option" where
  "gpu_line env g = do {
     rate \<leftarrow> dollars env (get_prop g ''sp_rate'');
     Some [display env (get_prop g ''account_alias''), display env (get_prop g ''account_id''),
           display env (get_prop g ''region''), display env (get_prop g ''az''),
           display env (get_prop g ''instance_id''), display env (get_prop g ''instance_type''),
           label_of coverageLabel env (get_prop g ''coverage''),
           display env (js_or (get_prop g ''coverage_ref'') (Str ''-'')), rate]
   }"

section \<open>Blocks\<close>

definition dashboard_block :: "js_env \<Rightarrow> int \<Rightarrow> page \<Rightarrow> screen option" where
  "dashboard_block env now p =
     (if loading p then Some LoadingNote
      else do {
        list \<leftarrow> filteredReservations env now (reservations p) (filterType (controls p))
          (filterAccount (controls p)) (searchText (controls p))
          (fst (reservationSort p)) (snd (reservationSort p));
        if list = [] then Some NoReservations
        else map_option ReservationTable (those (map (reservation_line env now) list))
      })"

text \<open>
  \<open>alerts && alerts.length\<close>; what is not an array but has a length fails at its first item.
\<close>

definition alerts_block :: "js_env \<Rightarrow> page \<Rightarrow> screen option" where
  "alerts_block env p =
     (case alerts p of
        JRows [] \<Rightarrow> Some NoAlerts
      | JRows as \<Rightarrow> map_option AlertItems (those (map (alert_line env) as))
      | b \<Rightarrow> (case body_prop b ''length'' of
                None \<Rightarrow> Some NoAlerts
              | Some len \<Rightarrow> if field_truthy len \<or> (\<exists>c s. b = JPrim (Str (c # s))) then None else Some NoAlerts))"

definition gpu_block :: "js_env \<Rightarrow> page \<Rightarrow> screen option" where
  "gpu_block env p = do {
     list \<leftarrow> filteredGPUCoverage env (gpuCoverage p) (gpuFilterAccount (controls p))
       (gpuSearchText (controls p)) (fst (gpuSort p)) (snd (gpuSort p));
     if list = [] then Some NoInstances
     else map_option GpuTable (those (map (gpu_line env) list))
   }"

text \<open>
  The whole template: the cards above the tabs are computed first, on every tab, and the
  two tabs with a filter list the accounts.
\<close>

definition render :: "browser \<Rightarrow> int \<Rightarrow> page \<Rightarrow> screen option" where
  "render br now p =
     (let env = engine br; tab = activeTab (controls p) in do {
        cards \<leftarrow> stats env now (reservations p);
        gpus \<leftarrow> gpuStats (gpuCoverage p);
        if tab = ''dashboard'' then do {
          accounts \<leftarrow> uniqueAccounts (reservations p);
          dashboard_block env now p
        }
        else if tab = ''alerts'' then alerts_block env p
        else if tab = ''gpu'' then do {
          accounts \<leftarrow> uniqueAccounts (reservations p);
          gpu_block env p
        }
        else Some EmptyTab
      })"

section \<open>The reservations stay until they are loaded again\<close>

text \<open>The events that bring another answer to the request for the reservations.\<close>

definition reloads :: "event \<Rightarrow> page \<Rightarrow> bool" where
  "reloads ev p \<longleftrightarrow> (\<exists>i res. ev = Deliver i res \<and> find_key fst i (inFlight p) = Some (i, KReservations))"

fun no_reload :: "browser \<Rightarrow> event list \<Rightarrow> page \<Rightarrow> bool" where
  "no_reload br [] p \<longleftrightarrow> True"
| "no_reload br (ev # evs) p \<longleftrightarrow> \<not> reloads ev p \<and> no_reload br evs (page_step br ev p)"

lemma reservations_kept [simp]:
  "reservations (showMsg s b p) = reservations p" "reservations (fetch m u k p) = reservations p"
  "reservations (redirectToLogin br p) = reservations p" "reservations (pollSyncStatus p) = reservations p"
  "reservations (rearm a e p) = reservations p" "reservations (tick a e p) = reservations p"
  "reservations (loadReservations p) = reservations p" "reservations (loadAlerts p) = reservations p"
  "reservations (loadGPUCoverage p) = reservations p" "reservations (resumeSyncIfRunning p) = reservations p"
  by (simp_all add: showMsg_def setTimeout_def clearTimeout_def fetch_def redirectToLogin_def
      pollSyncStatus_def rearm_def tick_def load_defs Let_def split: option.split)

lemma reservations_continue:
  "k \<noteq> KReservations \<Longrightarrow> reservations (continue br k res p) = reservations p"
  by (cases k)
    (simp_all add: continue_def mounted_def me_answered_def me_failed_def logged_out_def alerts_loaded_def
      gpu_loaded_def sync_posted_def sync_failed_def status_answered_def status_failed_def
      sync_finished_def resume_answered_def import_answered_def apiFetch_def Let_def split: response_splits)

lemma reservations_step:
  assumes "\<not> reloads ev p"
  shows "reservations (page_step br ev p) = reservations p"
proof (cases ev)
  case (Deliver i res)
  show ?thesis
  proof (cases "find_key fst i (inFlight p)")
    case (Some x)
    then obtain k where x: "x = (i, k)" using find_request [OF Some] by (cases x) auto
    with assms Some have "k \<noteq> KReservations" by (auto simp: reloads_def Deliver)
    then show ?thesis by (simp add: page_step_def Deliver Some x reservations_continue)
  qed (simp add: page_step_def Deliver)
qed (auto simp: page_step_def run_callback_def syncData_def logout_def exportCSV_def importFile_def
    split: option.split callback.split)

lemma reservations_run:
  "no_reload br evs p \<Longrightarrow> reservations (fold (page_step br) evs p) = reservations p"
  by (induction evs arbitrary: p) (simp_all add: reservations_step)


text \<open>While the page says it is loading, the answer that ends this is still to come.\<close>

definition load_pending :: "page \<Rightarrow> bool" where
  "load_pending p \<longleftrightarrow> (\<exists>i. (i, KReservations) \<in> set (inFlight p))"

lemma loading_kept [simp]:
  "loading (showMsg s b p) = loading p" "loading (fetch m u k p) = loading p"
  "loading (redirectToLogin br p) = loading p" "loading (pollSyncStatus p) = loading p"
  "loading (rearm a e p) = loading p" "loading (tick a e p) = loading p"
  "loading (set_controls f p) = loading p"
  by (simp_all add: showMsg_def setTimeout_def clearTimeout_def fetch_def redirectToLogin_def
      pollSyncStatus_def rearm_def tick_def set_controls_def Let_def split: option.split)

lemma load_pending_continue:
  assumes "k \<noteq> KReservations" "loading p \<longrightarrow> load_pending p"
  shows "loading (continue br k res p) \<longrightarrow> load_pending (continue br k res p)"
  using assms
  by (cases k)
    (simp_all add: load_pending_def continue_def mounted_def me_answered_def me_failed_def logged_out_def
      alerts_loaded_def gpu_loaded_def sync_posted_def sync_failed_def status_answered_def status_failed_def
      sync_finished_def resume_answered_def import_answered_def apiFetch_def load_defs Let_def
      split: response_splits, blast+)

lemma load_pending_step:
  assumes "page_wf p" "loading p \<longrightarrow> load_pending p"
  shows "loading (page_step br ev p) \<longrightarrow> load_pending (page_step br ev p)"
proof (cases ev)
  case (Deliver i res)
  show ?thesis
  proof (cases "find_key fst i (inFlight p)")
    case (Some x)
    then obtain k where x: "x = (i, k)" "(i, k) \<in> set (inFlight p)"
      using find_request [OF Some] by (cases x) auto
    let ?q = "p\<lparr>inFlight := delete_key fst i (inFlight p)\<rparr>"
    show ?thesis
    proof (cases "k = KReservations")
      case True
      then show ?thesis
        by (simp add: page_step_def Deliver Some x continue_def reservations_loaded_def
            split: sum.split prod.split)
    next
      case False
      have "distinct (map fst (inFlight p))" using assms(1) by (simp add: page_wf_def)
      then have "j \<noteq> i" if "(j, KReservations) \<in> set (inFlight p)" for j
        using that x(2) False by (metis eq_key_imp_eq_value)
      then have "loading ?q \<longrightarrow> load_pending ?q"
        using assms(2) by (auto simp: load_pending_def delete_key_def)
      from load_pending_continue [OF False this] show ?thesis
        by (simp add: page_step_def Deliver Some x)
    qed
  qed (use assms(2) in \<open>simp add: page_step_def Deliver\<close>)
qed (use assms(2) in \<open>auto simp: load_pending_def page_step_def run_callback_def tick_def syncData_def
    logout_def exportCSV_def importFile_def load_defs split: option.split callback.split\<close>)

lemma reachable_loading: "reachable br p \<Longrightarrow> loading p \<Longrightarrow> load_pending p"
proof (induction rule: reachable.induct)
  case (start t0)
  then show ?case by (simp add: start_page_def loadMe_def setup_page_def)
next
  case (step p ev)
  then show ?case using load_pending_step [OF reachable_wf] by blast
qed

section \<open>What the dashboard shows\<close>

lemma those_total: "\<forall>x \<in> set xs. f x \<noteq> None \<Longrightarrow> those (map f xs) = Some (map (\<lambda>x. the (f x)) xs)"
  by (induction xs) auto

lemma render_dashboard:
  assumes "reservations q = JRows rows" "gpuStats (gpuCoverage q) \<noteq> None"
    "activeTab (controls q) = ''dashboard''"
  shows "render br now q = dashboard_block (engine br) now q"
  using assms by (auto simp: render_def stats_def uniqueAccounts_def rows_or_empty_def Let_def)

lemma dashboard_block_rows:
  assumes "filteredReservations env now (reservations q) (filterType (controls q)) (filterAccount (controls q))
      (searchText (controls q)) (fst (reservationSort q)) (snd (reservationSort q)) = Some list"
    "\<forall>r \<in> set list. reservation_line env now r \<noteq> None" "\<not> loading q"
  shows "dashboard_block env now q =
    Some (if list = [] then NoReservations
          else ReservationTable (map (\<lambda>r. the (reservation_line env now r)) list))"
  using those_total [OF assms(2)] assms(1,3) by (simp add: dashboard_block_def)

text \<open>
  C2. Once the reservations were loaded, and whatever the user clicks, types or selects, whatever
  timers fire and whatever other requests are answered, until they are loaded again the dashboard is in one
  of two states. While another load is in flight it may show the loading note, and then the answer that
  ends this is still to come. Otherwise it shows the table whose lines are those of exactly the rows of that
  answer that match the type, the account and the search text of the moment, each as often as the server sent it, and in
  the server's order if none was chosen, or the note that there are none. The rows are those a server sends:
  their searched columns are texts or missing, and no cell of their lines throws; likewise the list
  of instances, from which a card is computed, is an array or \<open>null\<close>.
\<close>

theorem page_shows_matching:
  assumes "reachable br p" "find_key fst i (inFlight p) = Some (i, KReservations)"
    and "response_ok status" "status \<noteq> 401"
    and "\<forall>r \<in> set rows. searchable [''instance_type'', ''resource_id'', ''account_alias'', ''description''] r \<and>
      reservation_line (engine br) now r \<noteq> None"
    and "p' = page_step br (Deliver i (Response status (Inr (JRows rows)))) p" "no_reload br evs p'"
    and "q = fold (page_step br) evs p'"
    and "activeTab (controls q) = ''dashboard''" "gpuStats (gpuCoverage q) \<noteq> None"
  shows "(loading q \<and> render br now q = Some LoadingNote \<and> (\<exists>j. (j, KReservations) \<in> set (inFlight q))) \<or>
    (\<not> loading q \<and> (\<exists>list.
      mset list = filter_mset (reservation_visible (filterType (controls q)) (filterAccount (controls q))
        (searchText (controls q))) (mset rows) \<and>
      (fst (reservationSort q) = [] \<longrightarrow> list = filter (reservation_visible (filterType (controls q))
        (filterAccount (controls q)) (searchText (controls q))) rows) \<and>
      render br now q = Some (if list = [] then NoReservations
        else ReservationTable (map (\<lambda>r. the (reservation_line (engine br) now r)) list))))"
proof -
  have "reservations p' = JRows rows"
    using assms(2-4) by (simp add: assms(6) page_step_def continue_def reservations_loaded_def apiFetch_def)
  then have rows: "reservations q = JRows rows" using reservations_run [OF assms(7)] by (simp add: assms(8))
  note shown = render_dashboard [OF rows assms(10,9)]
  have "reachable br q"
    unfolding assms(8) by (intro fold_reachable) (simp add: assms(6) reachable.step [OF assms(1)])
  then have "loading q \<Longrightarrow> load_pending q" by (rule reachable_loading)
  moreover have ok: "\<forall>r \<in> set rows.
      searchable [''instance_type'', ''resource_id'', ''account_alias'', ''description''] r"
    using assms(5) by blast
  from reservations_filtered [OF ok, of "engine br" now] obtain list where
    l: "filteredReservations (engine br) now (reservations q) (filterType (controls q)) (filterAccount (controls q))
        (searchText (controls q)) (fst (reservationSort q)) (snd (reservationSort q)) = Some list"
    "mset list = filter_mset (reservation_visible (filterType (controls q)) (filterAccount (controls q))
        (searchText (controls q))) (mset rows)"
    "fst (reservationSort q) = [] \<longrightarrow> list = filter (reservation_visible (filterType (controls q))
        (filterAccount (controls q)) (searchText (controls q))) rows"
    unfolding rows by blast
  have "set list \<subseteq> set rows" using l(2) by (metis mset_subset_eqD multiset_filter_subset set_mset_mset subsetI)
  then have "\<forall>r \<in> set list. reservation_line (engine br) now r \<noteq> None" using assms(5) by blast
  from dashboard_block_rows [OF l(1) this] l(2,3) have "\<not> loading q \<Longrightarrow> ?thesis" unfolding shown by blast
  moreover have "loading q \<Longrightarrow> dashboard_block (engine br) now q = Some LoadingNote"
    by (simp add: dashboard_block_def)
  ultimately show ?thesis unfolding shown load_pending_def by blast
qed

definition sample_rows :: "row list" where
  "sample_rows =
     [[(''type'', Str ''sp''), (''account_id'', Str ''1'')],
      [(''type'', Str ''cb''), (''account_id'', Str ''2''), (''resource_id'', Str ''cr-7''),
       (''quantity'', Num (Fin 2)), (''used_count'', Num (Fin 1)), (''status'', Str ''active'')]]"

definition mounted_page :: page where
  "mounted_page = page_step sample_browser (Deliver 0 (Response 200 (Inr (JObject [] [])))) (start_page 0)"

lemmas mounted_page_run = mounted_page_def page_step_def start_page_def loadMe_def setup_page_def fetch_def
  continue_def mounted_def me_answered_def body_prop_def load_defs

lemma page_shows_matching_witness:
  "render sample_browser 0 (fold (page_step sample_browser) [EnterSearch ''CR'', Advance 9]
      (page_step sample_browser (Deliver 1 (Response 200 (Inr (JRows sample_rows)))) mounted_page)) =
   Some (ReservationTable [[[], ''2'', [], ''CB'', ''cr-7'', [], ''2'', ''-'', ''-'', ''1/2 Idle'', ''-'', ''-'',
     ''-'', ''active'']])"
proof -
  let ?br = sample_browser and ?evs = "[EnterSearch ''CR'', Advance 9]"
  let ?cb = "sample_rows ! 1"
  have r: "reachable ?br mounted_page" unfolding mounted_page_def by (intro reachable.intros)
  define p' where "p' = page_step ?br (Deliver 1 (Response 200 (Inr (JRows sample_rows)))) mounted_page"
  define q where "q = fold (page_step ?br) ?evs p'"
  have find: "find_key fst 1 (inFlight mounted_page) = Some (1, KReservations)"
    by (simp add: mounted_page_run delete_key_def)
  have p': "reservationSort p' = ([], ''asc'')" "controls p' = controls (setup_page 0)" "loading p' = False"
    "gpuCoverage p' = JRows []"
    by (simp_all add: p'_def mounted_page_run reservations_loaded_def apiFetch_def response_ok_def delete_key_def)
  have q: "reservationSort q = ([], ''asc'')" "controls q = (controls (setup_page 0))\<lparr>searchText := ''CR''\<rparr>"
    "loading q = False" "gpuCoverage q = JRows []"
    by (simp_all add: q_def page_step_def set_controls_def p')
  have cb: "reservation_line (engine ?br) 0 ?cb = Some [[], ''2'', [], ''CB'', ''cr-7'', [], ''2'', ''-'', ''-'',
      ''1/2 Idle'', ''-'', ''-'', ''-'', ''active'']"
    by (code_simp)
  have lines: "\<forall>r \<in> set sample_rows.
      searchable [''instance_type'', ''resource_id'', ''account_alias'', ''description''] r \<and>
      reservation_line (engine ?br) 0 r \<noteq> None"
  proof -
    have "\<forall>r \<in> set sample_rows. reservation_line (engine ?br) 0 r \<noteq> None" by code_simp
    moreover have "\<forall>r \<in> set sample_rows.
        searchable [''instance_type'', ''resource_id'', ''account_alias'', ''description''] r"
      by (simp add: sample_rows_def searchable_def get_prop_def)
    ultimately show ?thesis by blast
  qed
  have none: "no_reload ?br ?evs p'" by (simp add: reloads_def)
  have tab: "activeTab (controls q) = ''dashboard''" "gpuStats (gpuCoverage q) \<noteq> None"
    by (simp_all add: q setup_page_def gpuStats_def rows_or_empty_def)
  have vis: "filter (reservation_visible [] [] ''CR'') sample_rows = [?cb]" by code_simp
  from page_shows_matching [OF r find _ _ lines p'_def none q_def tab]
  have "render ?br 0 q = Some (ReservationTable [the (reservation_line (engine ?br) 0 ?cb)])"
    by (auto simp: response_ok_def q setup_page_def vis)
  then show ?thesis unfolding p'_def [symmetric] q_def [symmetric] by (simp only: cb option.sel)
qed

end
