(* ===== verification/Spec2Isabelle.thy ===== *)
theory Spec2Isabelle
  imports Pipeline Shutdown Migration Dashboard
begin

text \<open>
  SmartRenew watches the reserved capacity of a set of AWS accounts. A scheduler fetches, per
  account, the reservations and savings plans and the coverage of GPU instances, keeps
  them in a SQLite database, and sends a reminder through its notifiers when a
  reservation comes close to its expiry or a GPU instance runs uncovered. An HTTP server
  serves a dashboard, a Vue page, behind a login with static users.

  \<^bold>\<open>Parts and theories.\<close> Each theory follows one part of the program and keeps its names;
  a Go or JavaScript name that clashes with one of HOL is prefixed or suffixed.

  \<^item> \<open>Prelude\<close>: strings as lists of bytes, the library functions on them (\<^verbatim>\<open>strconv\<close>,
    \<^verbatim>\<open>strings\<close>), lists of rows with distinct keys (SQL tables, Go maps).
  \<^item> \<open>Calendar\<close>, \<open>GoTime\<close>: the proleptic Gregorian calendar; Go's \<^verbatim>\<open>time.Time\<close> as nanoseconds since year 1,
    its layouts, their parsing and their order as text.
  \<^item> \<open>Reservation\<close> (\<^verbatim>\<open>model/\<close>): the rows, the day count, the alert level, threshold and dedup key.
  \<^item> \<open>Store\<close> (\<^verbatim>\<open>store/sqlite.go\<close>): the tables as lists, each statement a function on them, and
    an oracle that makes any statement fail; transactions roll back.
  \<^item> \<open>Migration\<close> (\<^verbatim>\<open>store/sqlite.go\<close>): the statements by which a start rebuilds the reminder log and
    rewrites old timestamps, any prefix of which a crash may leave behind.
  \<^item> \<open>Schema\<close>, \<open>Upgrade\<close> (\<open>New\<close> and \<open>migrate\<close> of \<^verbatim>\<open>store/sqlite.go\<close>): the whole migration as the calls of \<open>Exec\<close> it
    makes, on named tables with columns, where a statement is refused as SQLite refuses it and any may
    fail; its rebuild of the log refines the statements of \<open>Migration\<close>, and its tables are read as the rows
    of \<open>Store\<close>.
  \<^item> \<open>Config\<close> (\<^verbatim>\<open>config/\<close>): durations, defaults, validation, credentials, account ids.
  \<^item> \<open>GpuCoverage\<close> (\<^verbatim>\<open>provider/gpu_coverage.go\<close>): the assignment of capacity blocks, reserved
    instances and savings plans to running instances.
  \<^item> \<open>Capacity\<close> (\<^verbatim>\<open>provider/gpu_card_count.go\<close>, \<^verbatim>\<open>vcpu_count.go\<close>): the tables of cards and cores and
    the unit rate and capacity of a savings plan, for any order of iteration over its rates.
  \<^item> \<open>Provider\<close> (\<^verbatim>\<open>provider/aws.go\<close>, \<^verbatim>\<open>aws_database.go\<close>, \<^verbatim>\<open>aws_bedrock.go\<close>, the fetchers of
    \<^verbatim>\<open>gpu_coverage.go\<close>): the loops over pages, the rows made from what AWS reports, and what an
    account's fetch returns and reports as errors.
  \<^item> \<open>Csv\<close> (\<^verbatim>\<open>csvutil/csv.go\<close>): \<open>Export\<close> and \<open>Import\<close>, with the reader and writer of \<^verbatim>\<open>encoding/csv\<close>.
  \<^item> \<open>Notify\<close> (\<^verbatim>\<open>notifier/\<close>): the messages to SNS and Lark, their truncation, and what an answer means.
  \<^item> \<open>Scheduler\<close>, \<open>Reminders\<close> (\<^verbatim>\<open>scheduler/scheduler.go\<close>): \<open>SyncAll\<close>, the two checks, the pruning of
    the log, and \<open>StartCron\<close> as the jobs it runs one at a time.
  \<^item> \<open>Pipeline\<close>: the parts together, from the AWS calls of an account through \<open>SyncAll\<close> to its rows, and
    from a stored row through a check to its line in a message.
  \<^item> \<open>RateLimit\<close>, \<open>Password\<close>, \<open>Authenticator\<close>, \<open>Session\<close> (\<^verbatim>\<open>auth/\<close>): the login limiter, password hashes,
    the user list and the session store; each operation is one step, as its mutex makes it.
  \<^item> \<open>AuthHandler\<close> (\<^verbatim>\<open>handler/auth.go\<close>, the routes of \<^verbatim>\<open>handler/api.go\<close>): login, logout, the guards
    of the data endpoints and of the pages, the client's address, and runs of requests in
    any order.
  \<^item> \<open>Endpoints\<close> (\<^verbatim>\<open>handler/api.go\<close>): the data endpoints behind the guards, and the background
    synchronisation as a step relation over requests and ends of runs.
  \<^item> \<open>Startup\<close> (\<^verbatim>\<open>main.go\<close>, \<open>Load\<close> of \<^verbatim>\<open>config/config.go\<close>, \<^verbatim>\<open>provider/sts.go\<close>): from the files, the
    environment and the database of an earlier version to a server that serves, or the error that stops the program.
  \<^item> \<open>Shutdown\<close> (\<^verbatim>\<open>main.go\<close>): requests, failures of the listener and signals, up to the exit.
  \<^item> \<open>UrlCodec\<close>, \<open>JsValue\<close>: percent-encoding, and the JavaScript values, numbers, conversions and
    comparisons the page uses.
  \<^item> \<open>AppView\<close> (\<^verbatim>\<open>app.js\<close>): the computed values of the page, filters, sorting, counts and formatters.
  \<^item> \<open>AppPage\<close> (\<^verbatim>\<open>app.js\<close>): the page as a state machine over clicks, answers of the server and
    timers; every asynchronous function is cut at its \<^verbatim>\<open>await\<close>s.
  \<^item> \<open>Dashboard\<close> (\<^verbatim>\<open>frontend/index.html\<close>): the block the template shows on each tab and the texts of its
    cells, as a function of the state of the page.
  \<^item> \<open>LoginPage\<close> (\<^verbatim>\<open>login.js\<close>): the login form and the target it opens.

  \<^bold>\<open>How the parts interact.\<close> The scheduler is a client of the store and the configuration:
  \<open>jobs_ok\<close> and \<open>tables_ok\<close> say what a run needs of the clock and of the tables. The log of
  reminders is used through the interface \<open>reminder_log\<close>, which the store's statements satisfy;
  \<open>table_invariant\<close> is what any property of the reservations needs to survive a
  synchronisation. The handlers are clients of the limiter, the user list and the session store
  (\<open>session_registry\<close>). The page's tables are instances of \<open>keyed_comparator\<close>. The day
  counts of the server and of the page are compared directly. \<open>Endpoints\<close> puts the store behind
  the access control of \<open>AuthHandler\<close>, \<open>Startup\<close> builds that server from a validated configuration,
  and \<open>Provider\<close> gives the scheduler the rows and errors its safe mode decides by, and \<open>GpuCoverage\<close>
  the answers it analyses.

  \<^bold>\<open>What the lemmas show.\<close>

  \<^item> Reminders: the alerts are exactly what is due, a check hands out exactly what is due and not yet
    logged, and over any jobs, faults and failing notifiers nothing that could be recorded is
    delivered twice.
  \<^item> Synchronisation: a partial fetch never loses rows, a complete one leaves exactly what was
    fetched, replacing an account is atomic and refines the replacement on maps, and what is
    written is what is read.
  \<^item> Coverage: no savings plan is overspent, reserved instances are used up exactly, and an instance is
    reported as on demand only if nothing could have paid for it.
  \<^item> Login: credentials are accepted exactly when configured, guesses per user are bounded in any
    interleaving by the threshold times one more than the successful logins (within a window, and while the
    limiter's map has room), the data endpoints need a live session, sessions last until they expire or
    are logged out, all tables of the server are bounded.
  \<^item> Fetching: a fetch reports no error exactly when everything it needs could be read, so safe mode
    is entered whenever it must be, and whatever fails its result is exactly the rows of the plans and
    calls that could be read; every row has the account's key, so that the IDs in the store keep
    the accounts apart; an account that could be read completely is mirrored, one that could not
    loses no row; what a failing call does to the
    coverage is shown on an example.
  \<^item> Capacity: the figures of a plan do not depend on Go's map order when one type has the highest
    rate, and are those of any type that has it when several do.
  \<^item> Files and messages: an exported file is imported as it was, up to the columns it lacks, line ends and outer
    blanks of texts and rows without IDs, and what that costs when it is imported back; a message keeps to the limits of SNS, stays valid
    UTF-8 and holds the line of every alert, so every due reservation is announced.
  \<^item> Service: at most one background synchronisation runs, only authorised requests change
    anything, a program that serves is protected from its first request and ends within thirty
    seconds of a signal, and however many starts
    fail or crash amid the migrations of whatever version, the first that meets no fault leaves every column
    the queries name, every row and reminder, and no timestamp in an incomparable layout.
  \<^item> Page: whatever happens on the page, the dashboard shows exactly the rows of the last answer that match
    the filters of the moment, in the chosen stable order, or the loading note while the answer that ends it is
    to come, the counts agree with the badges, polling ends, the spinner always has something pending behind it,
    messages clear, an expired session always leads to the login page and from there back (after a sign-out, to
    the start page).

  \<^bold>\<open>Bounds.\<close> Day counts are exact up to 106751 days, where Go's 64-bit durations saturate; times
  must have four-digit years to be stored. Loops are structural recursions or come with a measure, so no fuel is
  used; the exception is the loop over the pages of an AWS call, which ends only if AWS stops sending
  tokens: it is a partial function, \<open>None\<close> when it does not end, and \<open>pages\<close> says inductively when it
  does. A message has at most 255 KiB, a subject 100 bytes. A \<^verbatim>\<open>float64\<close> of the backend is its rational value; the numbers of the page are
  rationals with infinities and \<^verbatim>\<open>NaN\<close>, without rounding.

  \<^bold>\<open>Parameters.\<close> What is not code of the repository is an argument: the AWS answers (a page or an error for
  each token; for the scheduler their result, \<open>fetch\<close>), the files, the environment and the decoding
  of JSON, the answer of \<^verbatim>\<open>sts:GetCallerIdentity\<close> and whether the database opens (\<open>world\<close>), the outcome of each notifier (\<open>sends\<close>), the order in which \<^verbatim>\<open>sort.Slice\<close> leaves ties, SQLite's \<^verbatim>\<open>julianday\<close> (\<open>jd\<close>, with the hypothesis \<open>jd_canonical\<close>: on the layout the code
  writes it is the instant) and \<^verbatim>\<open>strftime\<close> (\<open>sf\<close>, with \<open>strftime_ok\<close>: it reads RFC 3339 texts and
  renders them in UTC, and \<open>strftime_plain\<close>: it writes no letters), the order of a Go map, statement faults, the key derivation, random bytes, the environment
  variables, the browser's parsing of URLs and dates, the offset of
  local time from UTC on the server (\<open>eZone\<close>) and in the browser.

  \<^bold>\<open>Not modelled.\<close> The AWS SDK; JSON encoding and decoding, the
  parsing of HTTP requests and multipart forms; the timeouts of the HTTP server; log output; the
  vendored Vue library, whose reactivity is taken as the functional
  dependence of the computed values and of the template on the state, and whose interpolation as the text of a
  value; of the template the cards, headings, option lists and styles; the login page's HTML, the
  deployment files and the tests. Only ASCII blanks count as blanks.
  Synchronisations started over HTTP run one at a time against the jobs of the scheduler.
\<close>

end
